(* ===== verification/Mesh_Prelude.thy ===== *)
theory Mesh_Prelude
  imports Main "HOL-Library.Word" "HOL-Library.AList"
begin

text \<open>
  Shared vocabulary of the development: the machine integers and byte strings of the
  C++ code, big-endian field encodings (used by the FEC header and by the TCP session
  header), the reading of \<^verbatim>\<open>std::unordered_map\<close> as an association list with distinct
  keys, and the lemma collections the component theories fill.

  An association list stands for a hash map together with one iteration order.  The order
  of a C++ hash map is unspecified, so no property below assumes anything of it except
  that keys are distinct.
\<close>

unbundle bit_operations_syntax

section \<open>Machine integers and byte strings\<close>

type_synonym u8 = "8 word"
type_synonym u16 = "16 word"
type_synonym u32 = "32 word"
type_synonym bytes = "u8 list"

text \<open>Points in time and durations of \<^verbatim>\<open>std::chrono::steady_clock\<close>, in milliseconds.\<close>

type_synonym time_ms = int

type_synonym peer_id = string

text \<open>An address and a port.\<close>

type_synonym endpoint = "string \<times> u16"

named_theorems fec_simps \<open>unfolding rules of the FEC codec\<close>
named_theorems router_simps \<open>unfolding rules of the router\<close>
named_theorems rpc_simps \<open>unfolding rules of the connection manager\<close>
named_theorems alist_simps \<open>lookup after an update of an association list\<close>

section \<open>Big-endian fields\<close>

definition be16 :: "u16 \<Rightarrow> bytes" where
  "be16 w = [ucast (drop_bit 8 w AND 0xFF), ucast (w AND 0xFF)]"

definition be32 :: "u32 \<Rightarrow> bytes" where
  "be32 w = [ucast (drop_bit 24 w AND 0xFF), ucast (drop_bit 16 w AND 0xFF),
             ucast (drop_bit 8 w AND 0xFF), ucast (w AND 0xFF)]"

definition from_be16 :: "u8 \<Rightarrow> u8 \<Rightarrow> u16" where
  "from_be16 a b = push_bit 8 (ucast a) OR ucast b"

definition from_be32 :: "u8 \<Rightarrow> u8 \<Rightarrow> u8 \<Rightarrow> u8 \<Rightarrow> u32" where
  "from_be32 a b c d = push_bit 24 (ucast a) OR push_bit 16 (ucast b) OR push_bit 8 (ucast c) OR ucast d"

lemma length_be [simp]: "length (be16 w) = 2" "length (be32 v) = 4"
  by (simp_all add: be16_def be32_def)

lemma mask_ff: "(0xFF :: 'a :: len word) = mask 8"
  by (simp add: mask_eq_exp_minus_1)

lemma from_be16_be16 [simp]:
  "from_be16 (ucast (drop_bit 8 w AND 0xFF)) (ucast (w AND 0xFF)) = w"
  unfolding from_be16_def mask_ff
  by (rule bit_word_eqI) (auto simp: bit_simps)

lemma from_be32_be32 [simp]:
  fixes w :: u32
  shows "from_be32 (ucast (drop_bit 24 w AND 0xFF)) (ucast (drop_bit 16 w AND 0xFF))
     (ucast (drop_bit 8 w AND 0xFF)) (ucast (w AND 0xFF)) = w"
  unfolding from_be32_def mask_ff
proof (rule bit_word_eqI)
  fix n assume n: "n < LENGTH(32)"
  consider "n < 8" | "8 \<le> n" "n < 16" | "16 \<le> n" "n < 24" | "24 \<le> n" "n < 32"
    using n by fastforce
  then show "bit ((push_bit 24 (ucast (ucast (drop_bit 24 w AND mask 8) :: u8))
      OR push_bit 16 (ucast (ucast (drop_bit 16 w AND mask 8) :: u8))
      OR push_bit 8 (ucast (ucast (drop_bit 8 w AND mask 8) :: u8))
      OR ucast (ucast (w AND mask 8) :: u8)) :: u32) n = bit w n"
    by cases (auto simp: bit_simps)
qed

section \<open>Association lists as hash maps\<close>

lemmas alist_lookup [alist_simps] = update_conv' delete_conv' distinct_update distinct_delete

lemma alist_update_subset: "set (AList.update k v al) \<subseteq> insert (k, v) (set al)"
  by (induction al) auto

lemma alist_delete_subset: "set (AList.delete k al) \<subseteq> set al"
  by (induction al) auto

lemma alist_all_update: "\<forall>x\<in>set al. P x \<Longrightarrow> P (k, v) \<Longrightarrow> \<forall>x\<in>set (AList.update k v al). P x"
  using alist_update_subset [of k v al] by blast

lemma alist_all_delete: "\<forall>x\<in>set al. P x \<Longrightarrow> \<forall>x\<in>set (AList.delete k al). P x"
  using alist_delete_subset [of k al] by blast

lemma map_of_filter:
  "distinct (map fst al) \<Longrightarrow> map_of (filter P al) k = (case map_of al k of None \<Rightarrow> None | Some v \<Rightarrow> if P (k, v) then Some v else None)"
proof (induction al)
  case (Cons a al)
  obtain k' v where a: "a = (k', v)" by force
  have "k = k' \<Longrightarrow> map_of al k = None" using Cons.prems a by (simp add: map_of_eq_None_iff)
  then show ?case using Cons a by auto
qed simp

lemma distinct_fst_filter: "distinct (map fst al) \<Longrightarrow> distinct (map fst (filter P al))"
  by (induction al) auto

lemma map_of_map_snd: "map_of (map (\<lambda>(k, v). (k, f k v)) al) k = map_option (f k) (map_of al k)"
  by (induction al) auto

lemma length_dropWhile_less: "xs \<noteq> [] \<Longrightarrow> Q (hd xs) \<Longrightarrow> length (dropWhile Q xs) < length xs"
  by (cases xs) (auto intro: le_imp_less_Suc length_dropWhile_le)

end
