(* ===== verification/Gf256.thy ===== *)
theory Gf256
  imports Mesh_Prelude
begin

text \<open>
  Arithmetic in GF(2^8) as \<^verbatim>\<open>src/mesh/net/udp/FecCodec.cpp\<close> computes it: the
  exponential and logarithm tables for the primitive polynomial 0x11D, the product and the
  inverse read off the tables.  The theory shows that the tables hold what their names say
  and that exclusive-or and the table product make the bytes a field; the field is then
  available to every later proof as the type \<open>gf256\<close> of class \<open>field\<close>.
\<close>

section \<open>The tables\<close>

text \<open>The two lines of the table loop that advance \<^verbatim>\<open>x\<close>.\<close>

definition gf_double :: "u32 \<Rightarrow> u32" where
  "gf_double x = (let x = push_bit 1 x in if x AND 0x100 \<noteq> 0 then x XOR 0x11D else x)"

record gf_tables =
  gf_exp :: "u8 list"
  gf_log :: "u8 list"

text \<open>
  \<open>gf_fill n i x ex lg\<close> is the first loop with \<open>n\<close> rounds to go, \<open>gf_wrap n i ex\<close>
  the second.
\<close>

fun gf_fill :: "nat \<Rightarrow> nat \<Rightarrow> u32 \<Rightarrow> u8 list \<Rightarrow> u8 list \<Rightarrow> u8 list \<times> u8 list" where
  "gf_fill 0 i x ex lg = (ex, lg)"
| "gf_fill (Suc n) i x ex lg =
     gf_fill n (Suc i) (gf_double x) (ex[i := ucast x]) (lg[unat x := of_nat i])"

fun gf_wrap :: "nat \<Rightarrow> nat \<Rightarrow> u8 list \<Rightarrow> u8 list" where
  "gf_wrap 0 i ex = ex"
| "gf_wrap (Suc n) i ex = gf_wrap n (Suc i) (ex[i := ex ! (i - 255)])"

text \<open>
  The arrays of the C++ object are not initialised before the loops run: their first
  contents are an argument.
\<close>

definition build_gf_tables :: "'a gf_tables_scheme \<Rightarrow> 'a gf_tables_scheme" where
  "build_gf_tables t =
     (let (ex, lg) = gf_fill 255 0 1 (gf_exp t) (gf_log t)
      in t\<lparr>gf_exp := gf_wrap (512 - 255) 255 ex, gf_log := lg[0 := 0]\<rparr>)"

definition gf_mul :: "'a gf_tables_scheme \<Rightarrow> u8 \<Rightarrow> u8 \<Rightarrow> u8" where
  "gf_mul t a b =
     (if a = 0 \<or> b = 0 then 0
      else gf_exp t ! (unat (gf_log t ! unat a) + unat (gf_log t ! unat b)))"

text \<open>\<^verbatim>\<open>assert(a != 0)\<close> is a failure of the model for \<open>a = 0\<close>.\<close>

definition gf_inv :: "'a gf_tables_scheme \<Rightarrow> u8 \<Rightarrow> u8 option" where
  "gf_inv t a = (if a = 0 then None else Some (gf_exp t ! (255 - unat (gf_log t ! unat a))))"

section \<open>Doubling and the powers of the generator\<close>

definition dbl :: "u8 \<Rightarrow> u8" where
  "dbl x = push_bit 1 x XOR (if bit x 7 then 0x1D else 0)"

definition gpow :: "nat \<Rightarrow> u8" where
  "gpow i = (dbl ^^ i) 1"

lemma gpow_0 [simp]: "gpow 0 = 1"
  by (simp add: gpow_def)

lemma gpow_Suc: "gpow (Suc i) = dbl (gpow i)"
  by (simp add: gpow_def)

lemma gpow_add: "gpow (i + j) = (dbl ^^ i) (gpow j)"
  by (simp add: gpow_def funpow_add)

lemma dbl_xor: "dbl (x XOR y) = dbl x XOR dbl y"
  by (rule bit_word_eqI) (auto simp: dbl_def bit_simps)

lemma dbl_funpow_xor: "(dbl ^^ n) (x XOR y) = (dbl ^^ n) x XOR (dbl ^^ n) y"
  by (induction n) (auto simp: dbl_xor)

lemma dbl_funpow_0 [simp]: "(dbl ^^ n) 0 = 0"
  by (induction n) (auto simp: dbl_def)

text \<open>The loop's 32-bit doubling on a value below 256 is the 8-bit doubling.\<close>

lemma shl_bits: 
  "bit (push_bit 1 (ucast (x :: u8)) :: u32) n \<longleftrightarrow> 1 \<le> n \<and> n \<le> 8 \<and> bit x (n - 1)"
  "bit (push_bit 1 x) n \<longleftrightarrow> 1 \<le> n \<and> n < 8 \<and> bit x (n - 1)"
  "bit (push_bit 8 1 :: u32) n \<longleftrightarrow> n = 8"
  by (simp only: bit_push_bit_iff bit_unsigned_iff bit_1_iff possible_bit_word; 
      auto simp: possible_bit_word dest: bit_imp_le_length)+

lemma shl_and:
  "(push_bit 1 (ucast (x :: u8)) :: u32) AND push_bit 8 1 = (if bit x 7 then push_bit 8 1 else 0)"
proof (rule bit_word_eqI)
  fix n
  show "bit ((push_bit 1 (ucast x) :: u32) AND push_bit 8 1) n = bit (if bit x 7 then push_bit 8 1 :: u32 else 0) n"
    by (cases "bit x 7") (auto simp only: bit_and_iff shl_bits if_True if_False bit_0_eq bot_apply bot_bool_def diff_Suc_1, simp_all)
qed

lemma shl_high:
  assumes "bit x 7" shows
   "(push_bit 1 (ucast (x :: u8)) :: u32) XOR (push_bit 8 1 XOR ucast (c :: u8)) = ucast (push_bit 1 x XOR c)"
proof (rule bit_word_eqI)
  fix n
  have "bit c n \<Longrightarrow> n < 8" for n by (drule bit_imp_le_length) simp
  then show "bit ((push_bit 1 (ucast x) :: u32) XOR (push_bit 8 1 XOR ucast c)) n = bit (ucast (push_bit 1 x XOR c) :: u32) n"
    using assms
    by (simp only: bit_xor_iff shl_bits bit_unsigned_iff possible_bit_word) (cases "n = 8"; auto)
qed

lemma shl_low:
  assumes "\<not> bit x 7" shows
  "(push_bit 1 (ucast (x :: u8)) :: u32) = ucast (push_bit 1 x)"
proof (rule bit_word_eqI)
  fix n
  show "bit ((push_bit 1 (ucast x) :: u32)) n = bit (ucast (push_bit 1 x) :: u32) n"
    using assms
    by (simp only: bit_xor_iff shl_bits bit_unsigned_iff possible_bit_word) (cases "n = 8"; auto)
qed

lemma gf_double_ucast: "gf_double (ucast (x :: u8)) = ucast (dbl x)"
proof -
  have c: "(0x100 :: u32) = push_bit 8 1" "(0x11D :: u32) = push_bit 8 1 XOR ucast (0x1D :: u8)"
    by simp_all
  have nz: "push_bit 8 1 \<noteq> (0 :: u32)" by simp
  show ?thesis
    unfolding gf_double_def dbl_def Let_def c
    using shl_and [of x] shl_high [of x "0x1D"] shl_low [of x] nz
    by (cases "bit x 7") (simp_all only: if_True if_False xor.right_neutral not_False_eq_True simp_thms)
qed

section \<open>The generator has order 255\<close>

fun dbl_chain :: "u8 list \<Rightarrow> bool" where
  "dbl_chain (x # y # zs) = (dbl x = y \<and> dbl_chain (y # zs))"
| "dbl_chain _ = True"

lemma dbl_chain_nth: "dbl_chain xs \<Longrightarrow> i < length xs \<Longrightarrow> xs ! i = (dbl ^^ i) (xs ! 0)"
proof (induction xs arbitrary: i rule: dbl_chain.induct)
  case (1 x y zs)
  then show ?case by (cases i) (auto simp: funpow_swap1)
qed auto

definition gen_powers :: "nat list" where
  "gen_powers =
    [
     1, 2, 4, 8, 16, 32, 64, 128, 29, 58, 116, 232, 205, 135, 19, 38, 76, 152, 45, 90, 180,
     117, 234, 201, 143, 3, 6, 12, 24, 48, 96, 192, 157, 39, 78, 156, 37, 74, 148, 53, 106,
     212, 181, 119, 238, 193, 159, 35, 70, 140, 5, 10, 20, 40, 80, 160, 93, 186, 105, 210,
     185, 111, 222, 161, 95, 190, 97, 194, 153, 47, 94, 188, 101, 202, 137, 15, 30, 60, 120,
     240, 253, 231, 211, 187, 107, 214, 177, 127, 254, 225, 223, 163, 91, 182, 113, 226,
     217, 175, 67, 134, 17, 34, 68, 136, 13, 26, 52, 104, 208, 189, 103, 206, 129, 31, 62,
     124, 248, 237, 199, 147, 59, 118, 236, 197, 151, 51, 102, 204, 133, 23, 46, 92, 184,
     109, 218, 169, 79, 158, 33, 66, 132, 21, 42, 84, 168, 77, 154, 41, 82, 164, 85, 170,
     73, 146, 57, 114, 228, 213, 183, 115, 230, 209, 191, 99, 198, 145, 63, 126, 252, 229,
     215, 179, 123, 246, 241, 255, 227, 219, 171, 75, 150, 49, 98, 196, 149, 55, 110, 220,
     165, 87, 174, 65, 130, 25, 50, 100, 200, 141, 7, 14, 28, 56, 112, 224, 221, 167, 83,
     166, 81, 162, 89, 178, 121, 242, 249, 239, 195, 155, 43, 86, 172, 69, 138, 9, 18, 36,
     72, 144, 61, 122, 244, 245, 247, 243, 251, 235, 203, 139, 11, 22, 44, 88, 176, 125,
     250, 233, 207, 131, 27, 54, 108, 216, 173, 71, 142]"

lemma gen_powers_chain: "dbl_chain (map of_nat gen_powers @ [1])"
  by (simp add: gen_powers_def dbl_def)

lemma gen_powers_distinct: "distinct gen_powers"
  by (simp add: gen_powers_def)

lemma gen_powers_range: "set gen_powers \<subseteq> {1..255}"
  by (simp add: gen_powers_def)

lemma gen_powers_length [simp]: "length gen_powers = 255"
  by (simp add: gen_powers_def)

lemma gen_powers_set: "set gen_powers = {1..255}"
proof (rule card_subset_eq)
  show "card (set gen_powers) = card {1..255 :: nat}"
    using gen_powers_distinct by (simp add: distinct_card)
qed (use gen_powers_range in simp_all)

lemma gen_powers_hd: "gen_powers ! 0 = 1"
  by (simp add: gen_powers_def)

lemma gpow_chain: "i \<le> 255 \<Longrightarrow> (map of_nat gen_powers @ [1]) ! i = gpow i"
  using dbl_chain_nth [OF gen_powers_chain, of i] gen_powers_hd
  by (simp add: gpow_def nth_append)

lemma gpow_gen: "i < 255 \<Longrightarrow> gpow i = of_nat (gen_powers ! i)"
  using gpow_chain [of i] by (simp add: nth_append)

lemma gpow_255: "gpow 255 = 1"
  using gpow_chain [of 255] by (simp add: nth_append)

lemma gen_powers_bound: "i < 255 \<Longrightarrow> 0 < gen_powers ! i \<and> gen_powers ! i < 256"
  using gen_powers_range nth_mem [of i gen_powers] by fastforce

lemma unat_gpow: "i < 255 \<Longrightarrow> unat (gpow i) = gen_powers ! i"
  using gen_powers_bound [of i] by (simp add: gpow_gen unsigned_of_nat take_bit_eq_mod)

lemma gpow_inj: "i < 255 \<Longrightarrow> j < 255 \<Longrightarrow> gpow i = gpow j \<longleftrightarrow> i = j"
  using gen_powers_distinct
  by (metis gen_powers_length nth_eq_iff_index_eq unat_gpow)

lemma gpow_surj: "a \<noteq> 0 \<Longrightarrow> \<exists>i<255. gpow i = (a :: u8)"
proof -
  assume "a \<noteq> 0"
  then have "0 < unat a" by (simp add: unat_gt_0)
  moreover have "unat a < 256" using unsigned_less [of a] by simp
  ultimately have "unat a \<in> set gen_powers" by (auto simp: gen_powers_set)
  then obtain i where "i < 255" "gen_powers ! i = unat a" by (auto simp: in_set_conv_nth)
  then show ?thesis by (auto simp: gpow_gen)
qed

lemma gpow_period: "gpow (i + 255) = gpow i"
  unfolding gpow_add gpow_255 by (simp add: gpow_def)

lemma gpow_mod: "gpow (i mod 255) = gpow i"
proof (induction i rule: less_induct)
  case (less i)
  show ?case
  proof (cases "i < 255")
    case True
    then show ?thesis by simp
  next
    case False
    then have "gpow ((i - 255) mod 255) = gpow (i - 255)" by (intro less) auto
    moreover have "i mod 255 = (i - 255) mod 255" using False by (simp add: le_mod_geq)
    moreover have "gpow i = gpow (i - 255)" using False gpow_period [of "i - 255"] by simp
    ultimately show ?thesis by simp
  qed
qed

lemma gpow_nonzero [simp]: "gpow i \<noteq> 0"
proof -
  have "gpow (i mod 255) \<noteq> 0"
    using gen_powers_bound [of "i mod 255"] unat_gpow [of "i mod 255"] by (metis less_irrefl mod_less_divisor unat_0 zero_less_numeral)
  then show ?thesis by (simp add: gpow_mod)
qed


section \<open>The tables hold the powers\<close>

definition gf_ok :: "'a gf_tables_scheme \<Rightarrow> bool" where
  "gf_ok t \<longleftrightarrow> length (gf_exp t) = 512 \<and> length (gf_log t) = 256
     \<and> (\<forall>i<512. gf_exp t ! i = gpow i) \<and> (\<forall>i<255. gf_log t ! unat (gpow i) = of_nat i)"

lemma gf_fill_length [simp]:
  "length (fst (gf_fill n i x ex lg)) = length ex \<and> length (snd (gf_fill n i x ex lg)) = length lg"
  by (induction n arbitrary: i x ex lg) auto

lemma gf_wrap_length [simp]: "length (gf_wrap n i ex) = length ex"
  by (induction n arbitrary: i ex) auto

lemma gf_fill_inv:
  assumes "x = ucast (gpow i)" "i + n \<le> 255" "length ex = 512" "length lg = 256"
    and "\<forall>j<i. ex ! j = gpow j" "\<forall>j<i. lg ! unat (gpow j) = of_nat j"
    and "gf_fill n i x ex lg = (ex', lg')"
  shows "(\<forall>j<i + n. ex' ! j = gpow j) \<and> (\<forall>j<i + n. lg' ! unat (gpow j) = of_nat j)"
  using assms
proof (induction n arbitrary: i x ex lg)
  case 0
  then show ?case by simp
next
  case (Suc n)
  let ?ex = "ex[i := ucast x]" and ?lg = "lg[unat x := of_nat i]"
  have ux: "unat x = unat (gpow i)"
    using Suc.prems(1) unsigned_less [of "gpow i", where ?'a = nat]
    by (simp add: unsigned_ucast_eq take_bit_eq_mod)
  have cx: "ucast x = gpow i"
    using Suc.prems(1) by (intro bit_word_eqI) (auto simp: bit_simps)
  have "gf_double x = ucast (gpow (Suc i))"
    using Suc.prems(1) by (simp add: gf_double_ucast gpow_Suc)
  moreover have "\<forall>j<Suc i. ?ex ! j = gpow j"
    using Suc.prems cx by (auto simp: nth_list_update less_Suc_eq)
  moreover have "\<forall>j<Suc i. ?lg ! unat (gpow j) = of_nat j"
  proof (intro allI impI)
    fix j assume j: "j < Suc i"
    have "unat (gpow i) < 256" using unsigned_less [of "gpow i"] by simp
    moreover have "unat (gpow j) = unat (gpow i) \<longleftrightarrow> j = i"
      using j Suc.prems(2) gpow_inj [of j i] by (simp flip: word_unat_eq_iff)
    ultimately show "?lg ! unat (gpow j) = of_nat j"
      using j Suc.prems ux by (cases "j = i") (auto simp: nth_list_update)
  qed
  ultimately show ?case
    using Suc.IH [of "gf_double x" "Suc i" ?ex ?lg] Suc.prems by simp
qed

lemma gf_wrap_inv:
  assumes "255 \<le> i" "i + n \<le> length ex" "\<forall>j<i. ex ! j = gpow j"
  shows "\<forall>j<i + n. gf_wrap n i ex ! j = gpow j"
  using assms
proof (induction n arbitrary: i ex)
  case 0
  then show ?case by simp
next
  case (Suc n)
  have "ex ! (i - 255) = gpow i"
    using Suc.prems gpow_period [of "i - 255"] by simp
  then have "\<forall>j<Suc i. ex[i := ex ! (i - 255)] ! j = gpow j"
    using Suc.prems by (auto simp: nth_list_update less_Suc_eq)
  then show ?case
    using Suc.IH [of "Suc i" "ex[i := ex ! (i - 255)]"] Suc.prems by simp
qed

lemma unat_gpow_pos: "0 < unat (gpow i)"
  by (simp add: unat_gt_0)

lemma build_gf_tables_ok:
  assumes "length (gf_exp t) = 512" "length (gf_log t) = 256"
  shows "gf_ok (build_gf_tables t)"
proof -
  obtain ex lg where fill: "gf_fill 255 0 1 (gf_exp t) (gf_log t) = (ex, lg)" by fastforce
  have len: "length ex = 512" "length lg = 256"
    using gf_fill_length [of 255 0 1 "gf_exp t" "gf_log t"] assms fill by auto
  have inv: "\<forall>j<255. ex ! j = gpow j" "\<forall>j<255. lg ! unat (gpow j) = of_nat j"
    using gf_fill_inv [OF _ _ assms _ _ fill] by simp_all
  have "\<forall>j<255 + 257. gf_wrap 257 255 ex ! j = gpow j"
    using gf_wrap_inv [of 255 257 ex] len inv(1) by simp
  moreover have "\<forall>j<255. lg[0 := 0] ! unat (gpow j) = of_nat j"
    using inv(2) unat_gpow_pos by (simp add: nth_list_update_neq)
  ultimately show ?thesis
    using len by (simp add: gf_ok_def build_gf_tables_def fill)
qed

lemma build_gf_tables_more [simp]: "gf_tables.more (build_gf_tables t) = gf_tables.more t"
  by (simp add: build_gf_tables_def split: prod.split)

section \<open>Product and inverse\<close>

lemma gf_log_gpow:
  assumes "gf_ok t" "i < 255"
  shows "unat (gf_log t ! unat (gpow i)) = i"
  using assms by (simp add: gf_ok_def unsigned_of_nat take_bit_eq_mod)

lemma gf_mul_gpow:
  assumes "gf_ok t" "i < 255" "j < 255"
  shows "gf_mul t (gpow i) (gpow j) = gpow (i + j)"
  using assms by (simp add: gf_mul_def gf_log_gpow) (simp add: gf_ok_def)

lemma gf_mul_0 [simp]: "gf_mul t 0 b = 0" "gf_mul t a 0 = 0"
  by (simp_all add: gf_mul_def)

text \<open>Multiplying by the \<open>i\<close>-th power of the generator is doubling \<open>i\<close> times.\<close>

lemma gf_mul_dbl:
  assumes "gf_ok t" "i < 255"
  shows "gf_mul t (gpow i) b = (dbl ^^ i) b"
proof (cases "b = 0")
  case True
  then show ?thesis by simp
next
  case False
  then obtain j where "j < 255" "b = gpow j" using gpow_surj by metis
  with assms show ?thesis by (simp add: gf_mul_gpow gpow_add)
qed

lemma gf_mul_eq: "gf_ok s \<Longrightarrow> gf_ok t \<Longrightarrow> gf_mul s a b = gf_mul t a b"
  by (cases "a = 0") (use gpow_surj gf_mul_dbl in \<open>force, metis\<close>)

lemma gf_mul_comm: "gf_mul t a b = gf_mul t b a"
  by (simp add: gf_mul_def add.commute)

lemma gf_mul_xor:
  assumes "gf_ok t"
  shows "gf_mul t a (b XOR c) = gf_mul t a b XOR gf_mul t a c"
proof (cases "a = 0")
  case False
  then obtain i where "i < 255" "a = gpow i" using gpow_surj by metis
  with assms show ?thesis by (simp add: gf_mul_dbl dbl_funpow_xor)
qed simp

lemma gf_mul_assoc:
  assumes "gf_ok t"
  shows "gf_mul t (gf_mul t a b) c = gf_mul t a (gf_mul t b c)"
proof (cases "a = 0 \<or> b = 0")
  case False
  then obtain i j where ij: "i < 255" "a = gpow i" "j < 255" "b = gpow j"
    using gpow_surj by metis
  have "gf_mul t a b = gpow ((i + j) mod 255)"
    using assms ij by (simp add: gf_mul_gpow gpow_mod)
  then have "gf_mul t (gf_mul t a b) c = (dbl ^^ ((i + j) mod 255)) c"
    using assms by (simp add: gf_mul_dbl)
  also have "\<dots> = (dbl ^^ (i + j)) c"
  proof (cases "c = 0")
    case False
    then obtain k where "c = gpow k" using gpow_surj by metis
    then show ?thesis
      by (metis gpow_add gpow_mod mod_add_left_eq)
  qed simp
  finally show ?thesis using assms ij by (simp add: gf_mul_dbl funpow_add)
qed auto

lemma gf_mul_1: "gf_ok t \<Longrightarrow> gf_mul t 1 b = b"
  using gf_mul_dbl [of t 0 b] by simp

lemma gf_inv_gpow:
  assumes "gf_ok t" "i < 255"
  shows "gf_inv t (gpow i) = Some (gpow (255 - i))"
  using assms by (simp add: gf_inv_def gf_log_gpow) (simp add: gf_ok_def)

lemma gf_inv_mul:
  assumes "gf_ok t" "gf_inv t a = Some b"
  shows "gf_mul t b a = 1"
proof -
  have "a \<noteq> 0" using assms(2) by (auto simp: gf_inv_def split: if_splits)
  then obtain i where i: "i < 255" "a = gpow i" using gpow_surj by metis
  then have b: "b = gpow ((255 - i) mod 255)" using assms by (simp add: gf_inv_gpow gpow_mod)
  have "gf_mul t a b = (dbl ^^ i) (gpow (255 - i))"
    using assms(1) i b by (simp add: gf_mul_dbl gpow_mod)
  also have "\<dots> = 1" using i gpow_255 by (simp flip: gpow_add)
  finally show ?thesis by (simp add: gf_mul_comm)
qed

lemma gf_inv_Some: "a \<noteq> 0 \<Longrightarrow> \<exists>b. gf_inv t a = Some b"
  by (simp add: gf_inv_def)

section \<open>The table product is the polynomial product modulo 0x11D\<close>

text \<open>
  Reference definition: the carry-less product of two bytes, each set bit of \<open>a\<close>
  contributing \<open>b\<close> shifted by the bit's position and reduced on the way.
\<close>

definition gmul :: "u8 \<Rightarrow> u8 \<Rightarrow> u8" where
  "gmul a b = foldr (\<lambda>i acc. (if bit a i then (dbl ^^ i) b else 0) XOR acc) [0..<8] 0"

lemma xor_cancel [simp]: "(a :: u8) XOR (a XOR b) = b"
  by (simp flip: xor.assoc)

lemmas xor_ac = xor.assoc xor.commute xor.left_commute

lemma byte_as_bits:
  "distinct xs \<Longrightarrow> set xs \<subseteq> {..<8} \<Longrightarrow>
   bit (foldr (\<lambda>i acc. (if bit a i then push_bit i 1 else 0) XOR acc) xs (0 :: u8)) n
     \<longleftrightarrow> n \<in> set xs \<and> bit a n"
  by (induction xs) (auto simp: bit_simps)

lemma byte_sum_of_bits:
  "(a :: u8) = foldr (\<lambda>i acc. (if bit a i then push_bit i 1 else 0) XOR acc) [0..<8] 0"
proof (rule bit_word_eqI)
  fix n assume n: "n < LENGTH(8)"
  have "bit (foldr (\<lambda>i acc. (if bit a i then push_bit i 1 else 0) XOR acc) [0..<8] (0 :: u8)) n
      \<longleftrightarrow> n \<in> set [0..<8] \<and> bit a n"
    by (rule byte_as_bits) auto
  with n show "bit a n = bit (foldr (\<lambda>i acc. (if bit a i then push_bit i 1 else 0) XOR acc) [0..<8] (0 :: u8)) n"
    by simp
qed

lemma gpow_small: "i < 8 \<Longrightarrow> gpow i = push_bit i 1"
proof -
  have "\<forall>i \<in> set [0..<8]. gpow i = push_bit i 1"
    by (simp add: upt_rec gpow_gen gen_powers_def)
  then show "i < 8 \<Longrightarrow> gpow i = push_bit i 1" by simp
qed

lemma gf_mul_foldr:
  assumes "gf_ok t"
  shows "gf_mul t (foldr (\<lambda>i acc. f i XOR acc) xs 0) b = foldr (\<lambda>i acc. gf_mul t (f i) b XOR acc) xs 0"
  by (induction xs) (simp_all add: gf_mul_xor [OF assms] gf_mul_comm [of t _ b])

lemma gf_mul_gmul:
  assumes "gf_ok t"
  shows "gf_mul t a b = gmul a b"
proof -
  have single: "gf_mul t (if bit a i then push_bit i 1 else 0) b = (if bit a i then (dbl ^^ i) b else 0)"
    if "i < 8" for i
    using that gf_mul_dbl [OF assms, of i b] by (simp add: gpow_small)
  have "gf_mul t a b = gf_mul t (foldr (\<lambda>i acc. (if bit a i then push_bit i 1 else 0) XOR acc) [0..<8] 0) b"
    by (subst byte_sum_of_bits [of a]) simp
  also have "\<dots> = foldr (\<lambda>i acc. gf_mul t (if bit a i then push_bit i 1 else 0) b XOR acc) [0..<8] 0"
    by (rule gf_mul_foldr [OF assms])
  also have "\<dots> = gmul a b"
    unfolding gmul_def by (rule foldr_cong) (simp_all add: single)
  finally show ?thesis .
qed

section \<open>The field\<close>

text \<open>
  The tables of a correctly built codec are unique as far as products go; \<open>std_tables\<close>
  is one of them and serves to define the type's product.
\<close>

definition std_tables :: gf_tables where
  "std_tables = build_gf_tables \<lparr>gf_exp = replicate 512 0, gf_log = replicate 256 0\<rparr>"

lemma std_tables_ok [simp]: "gf_ok std_tables"
  unfolding std_tables_def by (rule build_gf_tables_ok) simp_all

datatype gf256 = GF (gf_byte: u8)

instantiation gf256 :: field
begin

definition zero_gf256 :: gf256 where "0 = GF 0"

definition one_gf256 :: gf256 where "1 = GF 1"

definition plus_gf256 :: "gf256 \<Rightarrow> gf256 \<Rightarrow> gf256" where
  "a + b = GF (gf_byte a XOR gf_byte b)"

definition uminus_gf256 :: "gf256 \<Rightarrow> gf256" where "- a = (a :: gf256)"

definition minus_gf256 :: "gf256 \<Rightarrow> gf256 \<Rightarrow> gf256" where "a - b = a + (b :: gf256)"

definition times_gf256 :: "gf256 \<Rightarrow> gf256 \<Rightarrow> gf256" where
  "a * b = GF (gf_mul std_tables (gf_byte a) (gf_byte b))"

definition inverse_gf256 :: "gf256 \<Rightarrow> gf256" where
  "inverse a = GF (case gf_inv std_tables (gf_byte a) of None \<Rightarrow> 0 | Some b \<Rightarrow> b)"

definition divide_gf256 :: "gf256 \<Rightarrow> gf256 \<Rightarrow> gf256" where
  "a div b = a * inverse (b :: gf256)"

instance
proof
  fix a b c :: gf256
  show "a + b + c = a + (b + c)" by (simp add: plus_gf256_def xor.assoc)
  show "a + b = b + a" by (simp add: plus_gf256_def xor.commute)
  show "0 + a = a" by (simp add: plus_gf256_def zero_gf256_def)
  show "- a + a = 0" by (simp add: plus_gf256_def uminus_gf256_def zero_gf256_def)
  show "a - b = a + - b" by (simp add: minus_gf256_def uminus_gf256_def)
  show "a * b * c = a * (b * c)" by (simp add: times_gf256_def gf_mul_assoc)
  show "a * b = b * a" by (simp add: times_gf256_def gf_mul_comm)
  show "1 * a = a" by (simp add: times_gf256_def one_gf256_def gf_mul_1)
  show "(a + b) * c = a * c + b * c"
    by (simp add: times_gf256_def plus_gf256_def gf_mul_comm [of _ _ "gf_byte c"] gf_mul_xor)
  show "(0 :: gf256) \<noteq> 1" by (simp add: zero_gf256_def one_gf256_def)
  show "inverse a * a = 1" if "a \<noteq> 0"
  proof -
    have "gf_byte a \<noteq> 0" using that by (cases a) (simp add: zero_gf256_def)
    then obtain i where i: "gf_inv std_tables (gf_byte a) = Some i" using gf_inv_Some by blast
    then show ?thesis
      using gf_inv_mul [OF std_tables_ok i] by (simp add: inverse_gf256_def times_gf256_def one_gf256_def)
  qed
  show "a div b = a * inverse b" by (simp add: divide_gf256_def)
  show "inverse (0 :: gf256) = 0"
    by (simp add: inverse_gf256_def zero_gf256_def gf_inv_def)
qed

end

lemma GF_xor: "GF (a XOR b) = GF a + GF b"
  by (simp add: plus_gf256_def)

lemma GF_mul: "gf_ok t \<Longrightarrow> GF (gf_mul t a b) = GF a * GF b"
  using gf_mul_eq [OF std_tables_ok, of t a b] by (simp add: times_gf256_def)

lemma GF_0 [simp]: "GF 0 = 0"
  by (simp add: zero_gf256_def)

lemma GF_1 [simp]: "GF 1 = 1"
  by (simp add: one_gf256_def)

lemma GF_eq_0 [simp]: "GF a = 0 \<longleftrightarrow> a = 0"
  by (metis GF_0 gf256.inject)

lemma GF_inv: "gf_ok t \<Longrightarrow> gf_inv t a = Some b \<Longrightarrow> GF b = inverse (GF a)"
proof -
  assume t: "gf_ok t" "gf_inv t a = Some b"
  then have "GF b * GF a = 1" using gf_inv_mul [OF t] by (simp flip: GF_mul)
  then show ?thesis by (metis inverse_unique mult.commute)
qed

lemma gf_char2 [simp]: "(x :: gf256) + x = 0" "- x = x" "x - y = x + y"
  by (simp_all add: plus_gf256_def uminus_gf256_def minus_gf256_def)

end
