(* ===== verification/Fec_Codec.thy ===== *)
theory Fec_Codec
  imports Gf256
begin

text \<open>
  The Reed-Solomon codec of \<^verbatim>\<open>src/mesh/net/udp/FecCodec.cpp\<close> and \<^verbatim>\<open>FecCodec.h\<close>:
  the state of a codec object, the wire header, the encoder, the Gauss-Jordan decoder and
  the receive side with its groups.  Every method of the class is one definition (loops
  are separate functions or folds over the loop's index range).  Exceptions and failed
  assertions are values of \<open>fec_error\<close>; the object is passed explicitly and returned,
  also when an exception leaves the method.
\<close>

section \<open>State\<close>

datatype fec_error = InvalidArgument string | AssertionFailed

record recv_group =
  grp_k :: u8
  grp_m :: u8
  slots :: "bytes option list"
  data_lens :: "u16 list"
  received :: nat
  delivered :: bool

record fec_codec = gf_tables +
  codec_k :: u8
  codec_m :: u8
  enc :: "u8 list list"
  send_group_id :: u32
  send_seq :: u8
  send_buf :: "bytes list"
  send_lens :: "u16 list"
  recv_groups :: "(u32 \<times> recv_group) list"
  recv_group_order :: "u32 list"

definition kHeaderSize :: nat where "kHeaderSize = 14"

definition kMaxReceiveGroups :: nat where "kMaxReceiveGroups = 256"

definition empty_group :: recv_group where
  "empty_group = \<lparr>grp_k = 0, grp_m = 0, slots = [], data_lens = [], received = 0, delivered = False\<rparr>"

section \<open>Construction\<close>

text \<open>\<open>None\<close> is the assertion of \<open>gf_inv\<close>.\<close>

definition build_enc_matrix :: "'a gf_tables_scheme \<Rightarrow> u8 \<Rightarrow> u8 \<Rightarrow> u8 list list option" where
  "build_enc_matrix t k m =
     those (map (\<lambda>j. those (map (\<lambda>i. gf_inv t (of_nat i XOR (k + of_nat j))) [0..<unat k])) [0..<unat m])"

definition FecCodec :: "u8 \<Rightarrow> u8 \<Rightarrow> fec_error + fec_codec" where
  "FecCodec k m =
     (if k < 1 then Inl (InvalidArgument ''FecCodec requires at least one data packet per group'')
      else if m < 1 then Inl (InvalidArgument ''FecCodec requires at least one parity packet'')
      else if unat k + unat m > 254 then Inl (InvalidArgument ''FecCodec requires data packets + roots <= 254'')
      else
        let c = build_gf_tables \<lparr>gf_exp = replicate 512 0, gf_log = replicate 256 0,
                  codec_k = k, codec_m = m, enc = [], send_group_id = 0, send_seq = 0, send_buf = [],
                  send_lens = [], recv_groups = [], recv_group_order = []\<rparr>
        in case build_enc_matrix c k m of
             None \<Rightarrow> Inl AssertionFailed
           | Some e \<Rightarrow> Inr (c\<lparr>enc := e\<rparr>))"

section \<open>Wire header\<close>

definition make_header :: "u32 \<Rightarrow> u8 \<Rightarrow> u8 \<Rightarrow> u8 \<Rightarrow> u16 \<Rightarrow> bytes" where
  "make_header group_id seq num_data num_roots data_len =
     [0x4D, 0x46, 0x45, 0x43, 1] @ be32 group_id @ [seq, num_data, num_roots] @ be16 data_len"

definition is_fec_frame :: "bytes \<Rightarrow> bool" where
  "is_fec_frame dg \<longleftrightarrow> length dg \<ge> kHeaderSize \<and> dg ! 0 = 0x4D \<and> dg ! 1 = 0x46 \<and> dg ! 2 = 0x45
     \<and> dg ! 3 = 0x43 \<and> dg ! 4 = 1"

definition frame_config :: "bytes \<Rightarrow> (u8 \<times> u8) option" where
  "frame_config dg = (if \<not> is_fec_frame dg then None else Some (dg ! 10, dg ! 11))"

definition parse_header :: "bytes \<Rightarrow> (u32 \<times> u8 \<times> u8 \<times> u8 \<times> u16) option" where
  "parse_header dg =
     (if length dg < kHeaderSize then None
      else if \<not> is_fec_frame dg then None
      else Some (from_be32 (dg ! 5) (dg ! 6) (dg ! 7) (dg ! 8), dg ! 9, dg ! 10, dg ! 11,
                 from_be16 (dg ! 12) (dg ! 13)))"

section \<open>Encoder\<close>

text \<open>The two inner loops for one parity row.\<close>

definition parity_row :: "'a gf_tables_scheme \<Rightarrow> nat \<Rightarrow> u8 list \<Rightarrow> bytes list \<Rightarrow> nat \<Rightarrow> u8 list" where
  "parity_row t k row data max_len =
     foldl (\<lambda>acc i. map (\<lambda>b. acc ! b XOR gf_mul t (row ! i)
                (if b < length (data ! i) then data ! i ! b else 0)) [0..<max_len])
       (replicate max_len 0) [0..<k]"

definition max_length :: "bytes list \<Rightarrow> nat" where
  "max_length data = foldl (\<lambda>acc d. max acc (length d)) 0 data"

definition compute_parity :: "fec_codec \<Rightarrow> bytes list \<Rightarrow> u8 list list" where
  "compute_parity c data =
     map (\<lambda>j. parity_row c (unat (codec_k c)) (enc c ! j) data (max_length data)) [0..<unat (codec_m c)]"

record encode_result =
  data_frame :: bytes
  parity_frames :: "bytes list"

text \<open>The loop over the parity rows from row \<open>j\<close> on.\<close>

fun emit_parity :: "fec_codec \<Rightarrow> nat \<Rightarrow> u8 list list \<Rightarrow> bytes list \<Rightarrow> fec_error + bytes list" where
  "emit_parity c j [] frames = Inr frames"
| "emit_parity c j (vec # vecs) frames =
     (let parity_payload = concat (map be16 (send_lens c)) @ vec
      in if length parity_payload > 65535
         then Inl (InvalidArgument ''FEC parity payload is too large for the UDP FEC frame format'')
         else emit_parity c (Suc j) vecs
                (frames @ [make_header (send_group_id c) (of_nat (unat (codec_k c) + j)) (codec_k c)
                             (codec_m c) (of_nat (length parity_payload)) @ parity_payload]))"

definition encode :: "fec_codec \<Rightarrow> bytes \<Rightarrow> (fec_error + encode_result) \<times> fec_codec" where
  "encode c payload =
     (if length payload > 65535 - 2 * unat (codec_k c)
      then (Inl (InvalidArgument ''FEC payload is too large for the UDP FEC frame format''), c)
      else
        let plen = of_nat (length payload);
            frame = make_header (send_group_id c) (send_seq c) (codec_k c) (codec_m c) plen @ payload;
            c = c\<lparr>send_buf := send_buf c @ [payload], send_lens := send_lens c @ [plen],
                  send_seq := send_seq c + 1\<rparr>
        in if send_seq c = codec_k c then
             (case emit_parity c 0 (compute_parity c (send_buf c)) [] of
                Inl e \<Rightarrow> (Inl e, c)
              | Inr frames \<Rightarrow>
                  (Inr \<lparr>data_frame = frame, parity_frames = frames\<rparr>,
                   c\<lparr>send_group_id := send_group_id c + 1, send_seq := 0, send_buf := [], send_lens := []\<rparr>))
           else (Inr \<lparr>data_frame = frame, parity_frames = []\<rparr>, c))"

section \<open>Gauss-Jordan decoder\<close>

text \<open>\<open>upd_range lo hi f xs\<close>: the loop that overwrites the entries \<open>lo \<le> c < hi\<close> of a row.\<close>

definition upd_range :: "nat \<Rightarrow> nat \<Rightarrow> (nat \<Rightarrow> 'a \<Rightarrow> 'a) \<Rightarrow> 'a list \<Rightarrow> 'a list" where
  "upd_range lo hi f xs = map (\<lambda>c. if lo \<le> c \<and> c < hi then f c (xs ! c) else xs ! c) [0..<length xs]"

definition swap_rows :: "nat \<Rightarrow> nat \<Rightarrow> 'a list \<Rightarrow> 'a list" where
  "swap_rows i j xs = xs[i := xs ! j, j := xs ! i]"

definition init_matrix :: "fec_codec \<Rightarrow> nat list \<Rightarrow> u8 list list" where
  "init_matrix c received_indices =
     (let k = unat (codec_k c) in
      map (\<lambda>row. let idx = received_indices ! row in
             if idx < k then (replicate k 0)[idx := 1] else enc c ! (idx - k)) [0..<k])"

definition find_pivot :: "u8 list list \<Rightarrow> nat \<Rightarrow> nat \<Rightarrow> nat option" where
  "find_pivot M col k = find (\<lambda>row. M ! row ! col \<noteq> 0) [col..<k]"

definition elim_row :: "'a gf_tables_scheme \<Rightarrow> nat \<Rightarrow> nat \<Rightarrow> nat \<Rightarrow> u8 list list \<times> u8 list list \<Rightarrow> nat
    \<Rightarrow> u8 list list \<times> u8 list list" where
  "elim_row t k len col MB row =
     (let (M, B) = MB in
      if row = col \<or> M ! row ! col = 0 then (M, B)
      else let factor = M ! row ! col in
           (M[row := upd_range col k (\<lambda>c x. x XOR gf_mul t factor (M ! col ! c)) (M ! row)],
            B[row := upd_range 0 len (\<lambda>b x. x XOR gf_mul t factor (B ! col ! b)) (B ! row)]))"

text \<open>
  One round of the elimination.  \<open>Inr None\<close> is the early return for a singular system.
\<close>

definition gauss_col :: "'a gf_tables_scheme \<Rightarrow> nat \<Rightarrow> nat \<Rightarrow> nat \<Rightarrow> u8 list list \<Rightarrow> u8 list list
    \<Rightarrow> fec_error + (u8 list list \<times> u8 list list) option" where
  "gauss_col t k len col M B =
     (case find_pivot M col k of
        None \<Rightarrow> Inr None
      | Some pivot \<Rightarrow>
          let M = (if pivot \<noteq> col then swap_rows col pivot M else M);
              B = (if pivot \<noteq> col then swap_rows col pivot B else B)
          in case gf_inv t (M ! col ! col) of
               None \<Rightarrow> Inl AssertionFailed
             | Some scale \<Rightarrow>
                 let M = M[col := upd_range col k (\<lambda>c x. gf_mul t x scale) (M ! col)];
                     B = B[col := upd_range 0 len (\<lambda>b x. gf_mul t x scale) (B ! col)]
                 in Inr (Some (foldl (elim_row t k len col) (M, B) [0..<k])))"

fun gauss_loop :: "'a gf_tables_scheme \<Rightarrow> nat \<Rightarrow> nat \<Rightarrow> nat list \<Rightarrow> u8 list list \<Rightarrow> u8 list list
    \<Rightarrow> fec_error + u8 list list" where
  "gauss_loop t k len [] M B = Inr B"
| "gauss_loop t k len (col # cols) M B =
     (case gauss_col t k len col M B of
        Inl e \<Rightarrow> Inl e
      | Inr None \<Rightarrow> Inr []
      | Inr (Some (M', B')) \<Rightarrow> gauss_loop t k len cols M' B')"

definition gauss_decode :: "fec_codec \<Rightarrow> nat list \<Rightarrow> u8 list list \<Rightarrow> nat \<Rightarrow> fec_error + u8 list list" where
  "gauss_decode c received_indices received_data symbol_len =
     gauss_loop c (unat (codec_k c)) symbol_len [0..<unat (codec_k c)]
       (init_matrix c received_indices) received_data"

section \<open>Receive side\<close>

text \<open>The \<^verbatim>\<open>while\<close> loop of \<open>remember_receive_group\<close>.\<close>

fun evict_groups :: "u32 \<Rightarrow> u32 list \<Rightarrow> (u32 \<times> recv_group) list \<Rightarrow> u32 list \<times> (u32 \<times> recv_group) list" where
  "evict_groups g [] groups = ([], groups)"
| "evict_groups g (stale # order) groups =
     (if length (stale # order) > kMaxReceiveGroups
      then evict_groups g order (if stale \<noteq> g then AList.delete stale groups else groups)
      else (stale # order, groups))"

definition remember_receive_group :: "fec_codec \<Rightarrow> u32 \<Rightarrow> fec_codec" where
  "remember_receive_group c g =
     (let (order, groups) = evict_groups g (recv_group_order c @ [g]) (recv_groups c)
      in c\<lparr>recv_group_order := order, recv_groups := groups\<rparr>)"

definition pad_to :: "nat \<Rightarrow> bytes \<Rightarrow> bytes" where
  "pad_to n s = s @ replicate (n - length s) 0"

definition present_slots :: "recv_group \<Rightarrow> nat list" where
  "present_slots grp = filter (\<lambda>i. slots grp ! i \<noteq> None) [0..<unat (grp_k grp) + unat (grp_m grp)]"

definition symbol_len :: "recv_group \<Rightarrow> nat" where
  "symbol_len grp = foldl (\<lambda>acc i. max acc (length (the (slots grp ! i)))) 0 (present_slots grp)"

definition recovered_payload :: "recv_group \<Rightarrow> u8 list list \<Rightarrow> nat \<Rightarrow> bytes" where
  "recovered_payload grp vecs i =
     (let orig_len = (if data_lens grp ! i = 0 \<and> vecs ! i = [] then 0 else unat (data_lens grp ! i))
      in take (min orig_len (length (vecs ! i))) (vecs ! i))"

definition try_deliver :: "fec_codec \<Rightarrow> u32 \<Rightarrow> (fec_error + bytes list) \<times> fec_codec" where
  "try_deliver c g =
     (case map_of (recv_groups c) g of
        None \<Rightarrow> (Inr [], c)
      | Some grp \<Rightarrow>
          if delivered grp \<or> received grp < unat (grp_k grp) then (Inr [], c)
          else
            let len = symbol_len grp;
                indices = take (unat (grp_k grp)) (present_slots grp);
                raw_data = map (\<lambda>i. pad_to len (the (slots grp ! i))) indices
            in case gauss_decode c indices raw_data len of
                 Inl e \<Rightarrow> (Inl e, c)
               | Inr vecs \<Rightarrow>
                   if vecs = [] then (Inr [], c)
                   else (Inr (map (recovered_payload grp vecs) [0..<unat (grp_k grp)]),
                         c\<lparr>recv_groups := AList.delete g (recv_groups c)\<rparr>))"

text \<open>The manifest of original lengths at the front of a parity payload.\<close>

definition manifest_lens :: "nat \<Rightarrow> bytes \<Rightarrow> u16 list" where
  "manifest_lens k payload = map (\<lambda>i. from_be16 (payload ! (2 * i)) (payload ! (2 * i + 1))) [0..<k]"

definition put_group :: "fec_codec \<Rightarrow> u32 \<Rightarrow> recv_group \<Rightarrow> fec_codec" where
  "put_group c g grp = c\<lparr>recv_groups := AList.update g grp (recv_groups c)\<rparr>"

definition decode :: "fec_codec \<Rightarrow> bytes \<Rightarrow> (fec_error + bytes list) \<times> fec_codec" where
  "decode c dg =
     (case parse_header dg of
        None \<Rightarrow> (Inr [], c)
      | Some (group_id, seq, num_data, num_roots, data_len) \<Rightarrow>
          if num_data \<noteq> codec_k c \<or> num_roots \<noteq> codec_m c then (Inr [], c)
          else if seq \<ge> num_data + num_roots then (Inr [], c)
          else if length dg < kHeaderSize + unat data_len then (Inr [], c)
          else
            let payload = take (unat data_len) (drop kHeaderSize dg);
                grp = (case map_of (recv_groups c) group_id of None \<Rightarrow> empty_group | Some grp \<Rightarrow> grp);
                c = put_group c group_id grp
            in if delivered grp then (Inr [], c)
               else
                 let fresh = (grp_k grp = 0);
                     grp = (if fresh
                            then grp\<lparr>grp_k := num_data, grp_m := num_roots,
                                     slots := replicate (unat num_data + unat num_roots) None,
                                     data_lens := replicate (unat num_data) 0\<rparr>
                            else grp);
                     c = put_group c group_id grp;
                     c = (if fresh then remember_receive_group c group_id else c)
                 in if seq \<ge> of_nat (length (slots grp)) then (Inr [], c)
                    else if slots grp ! unat seq \<noteq> None then (Inr [], c)
                    else if seq \<ge> num_data then
                      (let manifest_bytes = 2 * unat num_data in
                       if length payload < manifest_bytes then (Inr [], c)
                       else try_deliver
                              (put_group c group_id
                                 (grp\<lparr>data_lens := manifest_lens (unat num_data) payload,
                                      slots := (slots grp)[unat seq := Some (drop manifest_bytes payload)],
                                      received := received grp + 1\<rparr>)) group_id)
                    else try_deliver
                           (put_group c group_id
                              (grp\<lparr>data_lens := (data_lens grp)[unat seq := data_len],
                                   slots := (slots grp)[unat seq := Some payload],
                                   received := received grp + 1\<rparr>)) group_id)"

end
