(* ===== verification/Cauchy_Solve.thy ===== *)
theory Cauchy_Solve
  imports Fec_Codec
begin

text \<open>
  Why decoding works.  First, over any field: a Cauchy system with at least as many
  equations as unknowns has only the zero solution.  Then the elimination of
  \<open>gauss_decode\<close>: every row operation keeps the solutions of the system and adds nothing
  to its kernel, so a system with a trivial kernel is never found singular and the right
  hand side ends up holding the solution.
\<close>

section \<open>Cauchy systems have trivial kernels\<close>

lemma cauchy_term:
  fixes a x0 xi yj yk :: "'a :: field"
  assumes "xi \<noteq> yj" "xi \<noteq> yk"
  shows "a * (x0 - yj) / (xi - yj) - a * (x0 - yk) / (xi - yk)
       = (yj - yk) * (a * (x0 - xi) / (xi - yk) / (xi - yj))"
  using assms by (simp add: divide_simps) (simp add: algebra_simps)

lemma cauchy_eliminate:
  fixes x y v :: "nat \<Rightarrow> 'a :: field"
  assumes fin: "finite I" and i0: "i0 \<notin> I"
    and sep: "\<forall>i\<in>insert i0 I. x i \<noteq> y j \<and> x i \<noteq> y l" and yjl: "y j \<noteq> y l"
    and sj: "(\<Sum>i\<in>insert i0 I. v i / (x i - y j)) = 0"
    and sl: "(\<Sum>i\<in>insert i0 I. v i / (x i - y l)) = 0"
  shows "(\<Sum>i\<in>I. (v i * (x i0 - x i) / (x i - y l)) / (x i - y j)) = 0"
proof -
  let ?I = "insert i0 I"
  have "0 = (\<Sum>i\<in>?I. v i / (x i - y j)) * (x i0 - y j) - (\<Sum>i\<in>?I. v i / (x i - y l)) * (x i0 - y l)"
    by (simp only: sj sl) simp
  also have "\<dots> = (\<Sum>i\<in>?I. v i * (x i0 - y j) / (x i - y j) - v i * (x i0 - y l) / (x i - y l))"
    by (simp only: sum_distrib_right sum_subtractf times_divide_eq_left)
  also have "\<dots> = (\<Sum>i\<in>?I. (y j - y l) * (v i * (x i0 - x i) / (x i - y l) / (x i - y j)))"
    using sep by (intro sum.cong refl cauchy_term) auto
  also have "\<dots> = (y j - y l) * (\<Sum>i\<in>I. v i * (x i0 - x i) / (x i - y l) / (x i - y j))"
    using fin i0 by (simp add: sum_distrib_left)
  finally show ?thesis using yjl by simp
qed

lemma cauchy_kernel:
  fixes x y v :: "nat \<Rightarrow> 'a :: field"
  assumes "finite I" "finite J" "card I \<le> card J" "inj_on x I" "inj_on y J"
    and "\<forall>i\<in>I. \<forall>j\<in>J. x i \<noteq> y j"
    and "\<forall>j\<in>J. (\<Sum>i\<in>I. v i / (x i - y j)) = 0"
  shows "\<forall>i\<in>I. v i = 0"
  using assms
proof (induction I arbitrary: J v rule: finite_induct)
  case empty
  then show ?case by simp
next
  case (insert i0 I)
  have "J \<noteq> {}" using insert.hyps insert.prems(2) by auto
  then obtain l where l: "l \<in> J" by blast
  let ?J = "J - {l}" and ?w = "\<lambda>i. v i * (x i0 - x i) / (x i - y l)"
  have "\<forall>j\<in>?J. (\<Sum>i\<in>I. ?w i / (x i - y j)) = 0"
  proof
    fix j assume j: "j \<in> ?J"
    then have "y j \<noteq> y l" using l insert.prems(4) by (auto simp: inj_on_def)
    with j l insert.hyps insert.prems show "(\<Sum>i\<in>I. ?w i / (x i - y j)) = 0"
      by (intro cauchy_eliminate) auto
  qed
  moreover have "card I \<le> card ?J"
    using l insert.hyps insert.prems(1,2) by simp
  moreover have "inj_on x I" "inj_on y ?J"
    using insert.prems(3,4) by (auto simp: inj_on_def)
  ultimately have "\<forall>i\<in>I. ?w i = 0"
    using insert.prems(1,5) insert.IH [of ?J ?w] by auto
  moreover have "x i0 - x i \<noteq> 0" "x i - y l \<noteq> 0" if "i \<in> I" for i
    using that l insert.hyps insert.prems(3,5) by (auto simp: inj_on_def)
  ultimately have rest: "\<forall>i\<in>I. v i = 0" by fastforce
  have "(\<Sum>i\<in>insert i0 I. v i / (x i - y l)) = 0" using l insert.prems(6) by blast
  then have "v i0 / (x i0 - y l) = 0" using rest insert.hyps by simp
  moreover have "x i0 - y l \<noteq> 0" using l insert.prems(5) by auto
  ultimately show ?case using rest by simp
qed

section \<open>Rows as linear forms over GF(2^8)\<close>

definition rdot :: "nat \<Rightarrow> u8 list \<Rightarrow> (nat \<Rightarrow> gf256) \<Rightarrow> gf256" where
  "rdot k row v = (\<Sum>c<k. GF (row ! c) * v c)"

lemma upd_range_length [simp]: "length (upd_range lo hi f xs) = length xs"
  by (simp add: upd_range_def)

lemma upd_range_nth [simp]:
  "c < length xs \<Longrightarrow> upd_range lo hi f xs ! c = (if lo \<le> c \<and> c < hi then f c (xs ! c) else xs ! c)"
  by (simp add: upd_range_def)

lemma rdot_scale:
  assumes "gf_ok t" "length row = k" "\<forall>c<lo. row ! c = 0" "lo \<le> k"
  shows "rdot k (upd_range lo k (\<lambda>c x. gf_mul t x s) row) v = GF s * rdot k row v"
  using assms unfolding rdot_def sum_distrib_left
  by (intro sum.cong refl) (auto simp: GF_mul algebra_simps not_le)

lemma rdot_elim:
  assumes "gf_ok t" "length row = k" "\<forall>c<lo. p ! c = 0" "lo \<le> k"
  shows "rdot k (upd_range lo k (\<lambda>c x. x XOR gf_mul t f (p ! c)) row) v = rdot k row v + GF f * rdot k p v"
  using assms unfolding rdot_def sum_distrib_left sum.distrib [symmetric]
  by (intro sum.cong refl) (auto simp: GF_mul GF_xor algebra_simps not_le)

section \<open>The elimination invariant\<close>

definition mat_shape :: "nat \<Rightarrow> nat \<Rightarrow> u8 list list \<Rightarrow> u8 list list \<Rightarrow> bool" where
  "mat_shape k len M B \<longleftrightarrow> length M = k \<and> (\<forall>r<k. length (M ! r) = k) \<and> length B = k \<and> (\<forall>r<k. length (B ! r) = len)"

definition solves :: "nat \<Rightarrow> nat \<Rightarrow> u8 list list \<Rightarrow> u8 list list \<Rightarrow> (nat \<Rightarrow> nat \<Rightarrow> gf256) \<Rightarrow> bool" where
  "solves k len M B X \<longleftrightarrow> (\<forall>r<k. \<forall>b<len. rdot k (M ! r) (\<lambda>c. X c b) = GF (B ! r ! b))"

definition kern :: "nat \<Rightarrow> u8 list list \<Rightarrow> (nat \<Rightarrow> gf256) \<Rightarrow> bool" where
  "kern k M v \<longleftrightarrow> (\<forall>r<k. rdot k (M ! r) v = 0)"

definition unit_cols :: "nat \<Rightarrow> nat \<Rightarrow> u8 list list \<Rightarrow> bool" where
  "unit_cols k col M \<longleftrightarrow> (\<forall>c<col. \<forall>r<k. M ! r ! c = (if r = c then 1 else 0))"

definition gj_inv :: "nat \<Rightarrow> nat \<Rightarrow> u8 list list \<Rightarrow> (nat \<Rightarrow> nat \<Rightarrow> gf256) \<Rightarrow> nat \<Rightarrow> u8 list list \<Rightarrow> u8 list list \<Rightarrow> bool" where
  "gj_inv k len M0 X col M B \<longleftrightarrow> mat_shape k len M B \<and> solves k len M B X
     \<and> (\<forall>v. kern k M v \<longrightarrow> kern k M0 v) \<and> unit_cols k col M"

lemmas gj_defs = gj_inv_def mat_shape_def solves_def kern_def unit_cols_def

lemma swap_rows_length [simp]: "length (swap_rows i j xs) = length xs"
  by (simp add: swap_rows_def)

lemma swap_rows_nth:
  "i < length xs \<Longrightarrow> j < length xs \<Longrightarrow> r < length xs \<Longrightarrow>
   swap_rows i j xs ! r = xs ! (if r = j then i else if r = i then j else r)"
  by (auto simp: swap_rows_def nth_list_update)

lemma gj_swap:
  assumes inv: "gj_inv k len M0 X col M B" and p: "col \<le> p" "p < k"
  shows "gj_inv k len M0 X col (swap_rows col p M) (swap_rows col p B)"
proof -
  let ?s = "\<lambda>r. if r = p then col else if r = col then p else r"
  have shape: "length M = k" "length B = k" using inv by (auto simp: gj_defs)
  have nth: "swap_rows col p M ! r = M ! ?s r" "swap_rows col p B ! r = B ! ?s r" if "r < k" for r
    using that p shape by (simp_all add: swap_rows_nth)
  have lt: "?s r < k" if "r < k" for r using that p by auto
  have "kern k (swap_rows col p M) v \<longrightarrow> kern k M v" for v
  proof (unfold kern_def, intro impI allI)
    fix r assume a: "\<forall>r<k. rdot k (swap_rows col p M ! r) v = 0" and r: "r < k"
    have "?s (?s r) = r" by auto
    with a [rule_format, OF lt [OF r]] nth(1) [OF lt [OF r]] show "rdot k (M ! r) v = 0" by (simp split: if_splits)
  qed
  moreover have "solves k len (swap_rows col p M) (swap_rows col p B) X"
    using inv nth lt by (auto simp: gj_inv_def solves_def)
  moreover have "mat_shape k len (swap_rows col p M) (swap_rows col p B)"
    using inv nth lt by (auto simp: gj_inv_def mat_shape_def)
  moreover have "unit_cols k col (swap_rows col p M)"
    using inv nth lt p by (auto simp: gj_inv_def unit_cols_def)
  ultimately show ?thesis using inv by (auto simp: gj_inv_def)
qed

lemma gj_scale:
  assumes t: "gf_ok t" and inv: "gj_inv k len M0 X col M B" and col: "col < k" and s: "s \<noteq> 0"
  shows "gj_inv k len M0 X col
           (M[col := upd_range col k (\<lambda>c x. gf_mul t x s) (M ! col)])
           (B[col := upd_range 0 len (\<lambda>b x. gf_mul t x s) (B ! col)])"
    (is "gj_inv k len M0 X col ?M ?B")
proof -
  have shape: "length M = k" "length B = k" "length (M ! col) = k" "length (B ! col) = len"
    using inv col by (auto simp: gj_defs)
  have z: "\<forall>c<col. M ! col ! c = 0" using inv col by (auto simp: gj_inv_def unit_cols_def)
  have row: "rdot k (?M ! r) v = (if r = col then GF s * rdot k (M ! col) v else rdot k (M ! r) v)"
    if "r < k" for r v
    using that t shape col z by (auto simp: nth_list_update rdot_scale)
  have "kern k ?M v \<longrightarrow> kern k M v" for v
  proof (unfold kern_def, intro impI allI)
    fix r assume a: "\<forall>r<k. rdot k (?M ! r) v = 0" and r: "r < k"
    then show "rdot k (M ! r) v = 0" using row [OF r, of v] s by (auto split: if_splits)
  qed
  moreover have "solves k len ?M ?B X"
    using inv row shape col t by (auto simp: gj_inv_def solves_def nth_list_update GF_mul mult.commute)
  moreover have "mat_shape k len ?M ?B"
    using inv shape col by (auto simp: gj_inv_def mat_shape_def nth_list_update)
  moreover have "unit_cols k col ?M"
    using inv shape col by (auto simp: gj_inv_def unit_cols_def nth_list_update)
  ultimately show ?thesis using inv by (auto simp: gj_inv_def)
qed

lemma gj_elim_row:
  assumes t: "gf_ok t" and inv: "gj_inv k len M0 X col M B" and col: "col < k" and r: "r < k" "r \<noteq> col"
  shows "gj_inv k len M0 X col
           (M[r := upd_range col k (\<lambda>c x. x XOR gf_mul t f (M ! col ! c)) (M ! r)])
           (B[r := upd_range 0 len (\<lambda>b x. x XOR gf_mul t f (B ! col ! b)) (B ! r)])"
    (is "gj_inv k len M0 X col ?M ?B")
proof -
  have shape: "length M = k" "length B = k" "\<forall>r<k. length (M ! r) = k" "\<forall>r<k. length (B ! r) = len"
    using inv by (auto simp: gj_defs)
  have z: "\<forall>c<col. M ! col ! c = 0" using inv col by (auto simp: gj_inv_def unit_cols_def)
  have row: "rdot k (?M ! q) v = (if q = r then rdot k (M ! r) v + GF f * rdot k (M ! col) v else rdot k (M ! q) v)"
    if "q < k" for q v
    using that t shape col z r by (auto simp: nth_list_update rdot_elim)
  have "kern k ?M v \<longrightarrow> kern k M v" for v
  proof (unfold kern_def, intro impI allI)
    fix q assume a: "\<forall>r<k. rdot k (?M ! r) v = 0" and q: "q < k"
    have "rdot k (M ! col) v = 0" using a [rule_format, OF col] row [OF col, of v] r by simp
    then show "rdot k (M ! q) v = 0"
      using a [rule_format, OF q] row [OF q, of v] by (auto split: if_splits)
  qed
  moreover have "solves k len ?M ?B X"
    using inv row shape col r t by (auto simp: gj_inv_def solves_def nth_list_update GF_mul GF_xor)
  moreover have "mat_shape k len ?M ?B"
    using inv shape col r by (auto simp: gj_inv_def mat_shape_def nth_list_update)
  moreover have "unit_cols k col ?M"
    using inv shape col r by (auto simp: gj_inv_def unit_cols_def nth_list_update)
  ultimately show ?thesis using inv by (auto simp: gj_inv_def)
qed

text \<open>The loop over the rows clears column \<open>col\<close> everywhere but in the pivot row.\<close>

lemma gj_elim_fold:
  assumes t: "gf_ok t" and col: "col < k" and n: "n \<le> k"
    and inv: "gj_inv k len M0 X col M B" and piv: "M ! col ! col = 1"
  shows "\<exists>M' B'. foldl (elim_row t k len col) (M, B) [0..<n] = (M', B')
           \<and> gj_inv k len M0 X col M' B' \<and> M' ! col ! col = 1 \<and> (\<forall>r<n. r \<noteq> col \<longrightarrow> M' ! r ! col = 0)"
  using n
proof (induction n)
  case 0
  then show ?case using inv piv by simp
next
  case (Suc n)
  then obtain M' B' where IH: "foldl (elim_row t k len col) (M, B) [0..<n] = (M', B')"
    "gj_inv k len M0 X col M' B'" "M' ! col ! col = 1" "\<forall>r<n. r \<noteq> col \<longrightarrow> M' ! r ! col = 0"
    by auto
  have n: "n < k" using Suc.prems by simp
  show ?case
  proof (cases "n = col \<or> M' ! n ! col = 0")
    case True
    then have "elim_row t k len col (M', B') n = (M', B')" by (auto simp: elim_row_def)
    then show ?thesis using IH True by (auto simp: less_Suc_eq)
  next
    case False
    let ?M = "M'[n := upd_range col k (\<lambda>c x. x XOR gf_mul t (M' ! n ! col) (M' ! col ! c)) (M' ! n)]"
    let ?B = "B'[n := upd_range 0 len (\<lambda>b x. x XOR gf_mul t (M' ! n ! col) (B' ! col ! b)) (B' ! n)]"
    have shape: "length M' = k" "length (M' ! n) = k" using IH(2) n by (auto simp: gj_defs)
    have step: "elim_row t k len col (M', B') n = (?M, ?B)" using False by (simp add: elim_row_def Let_def)
    have "gj_inv k len M0 X col ?M ?B" using False n gj_elim_row [OF t IH(2) col] by auto
    moreover have "?M ! n ! col = 0"
      using shape col n IH(3) gf_mul_1 [OF t, of "M' ! n ! col"] by (simp add: gf_mul_comm)
    moreover have "?M ! col ! col = 1" using False IH(3) by (simp add: nth_list_update_neq)
    moreover have "\<forall>r<n. r \<noteq> col \<longrightarrow> ?M ! r ! col = 0" using IH(4) by (simp add: nth_list_update_neq)
    ultimately show ?thesis using IH(1) step by (auto simp: less_Suc_eq)
  qed
qed

lemma unit_cols_Suc:
  assumes "unit_cols k col M" "M ! col ! col = 1" "\<forall>r<k. r \<noteq> col \<longrightarrow> M ! r ! col = 0"
  shows "unit_cols k (Suc col) M"
  using assms by (auto simp: unit_cols_def less_Suc_eq)

lemma find_pivot_Some:
  "find_pivot M col k = Some p \<Longrightarrow> col \<le> p \<and> p < k \<and> M ! p ! col \<noteq> 0"
  by (auto simp: find_pivot_def find_Some_iff)

lemma find_pivot_None:
  "find_pivot M col k = None \<longleftrightarrow> (\<forall>r. col \<le> r \<and> r < k \<longrightarrow> M ! r ! col = 0)"
  by (auto simp: find_pivot_def find_None_iff)

text \<open>
  No pivot in column \<open>col\<close> means a non-zero vector in the kernel: the unit vector of that
  column, corrected by the columns already reduced.
\<close>

lemma no_pivot_kernel:
  assumes inv: "gj_inv k len M0 X col M B" and col: "col < k" and np: "find_pivot M col k = None"
  shows "kern k M0 (\<lambda>c. if c = col then 1 else if c < col then GF (M ! c ! col) else 0)"
proof -
  let ?v = "\<lambda>c. if c = col then 1 else if c < col then GF (M ! c ! col) else 0"
  have z: "M ! r ! col = 0" if "col \<le> r" "r < k" for r using np that by (simp add: find_pivot_None)
  have u: "M ! r ! c = (if r = c then 1 else 0)" if "c < col" "r < k" for r c
    using inv that by (auto simp: gj_inv_def unit_cols_def)
  have "rdot k (M ! r) ?v = 0" if r: "r < k" for r
  proof -
    have "rdot k (M ! r) ?v = (\<Sum>c<k. (if c = col then GF (M ! r ! col) else 0) + (if c = r \<and> r < col then GF (M ! r ! col) else 0))"
      unfolding rdot_def using r u by (intro sum.cong) auto
    also have "\<dots> = GF (M ! r ! col) + (\<Sum>c<k. if c = r \<and> r < col then GF (M ! r ! col) else 0)"
      using col by (simp add: sum.distrib)
    also have "\<dots> = 0" using r z [of r] by (cases "r < col") (simp_all add: not_less)
    finally show ?thesis .
  qed
  then have "kern k M ?v" by (simp add: kern_def)
  then show ?thesis using inv by (auto simp: gj_inv_def)
qed

lemma gauss_col_ok:
  assumes t: "gf_ok t" and inv: "gj_inv k len M0 X col M B" and col: "col < k"
    and triv: "\<forall>v. kern k M0 v \<longrightarrow> (\<forall>c<k. v c = 0)"
  shows "\<exists>M' B'. gauss_col t k len col M B = Inr (Some (M', B')) \<and> gj_inv k len M0 X (Suc col) M' B'"
proof (cases "find_pivot M col k")
  case None
  from triv [rule_format, OF no_pivot_kernel [OF inv col None] col] have False by simp
  then show ?thesis ..
next
  case (Some p)
  note p = find_pivot_Some [OF Some]
  let ?M = "if p \<noteq> col then swap_rows col p M else M" and ?B = "if p \<noteq> col then swap_rows col p B else B"
  have inv1: "gj_inv k len M0 X col ?M ?B" using gj_swap [OF inv] inv p by simp
  have shape: "length M = k" "length ?M = k" "length (?M ! col) = k" using inv inv1 col by (auto simp: gj_inv_def mat_shape_def)
  have nz: "?M ! col ! col \<noteq> 0" using p col shape by (cases "p = col") (simp_all add: swap_rows_nth)
  then obtain s where s: "gf_inv t (?M ! col ! col) = Some s" using gf_inv_Some by blast
  have s0: "s \<noteq> 0" using gf_inv_mul [OF t s] by auto
  let ?M2 = "?M[col := upd_range col k (\<lambda>c x. gf_mul t x s) (?M ! col)]"
  let ?B2 = "?B[col := upd_range 0 len (\<lambda>b x. gf_mul t x s) (?B ! col)]"
  have inv2: "gj_inv k len M0 X col ?M2 ?B2" by (rule gj_scale [OF t inv1 col s0])
  have one: "?M2 ! col ! col = 1"
    using shape col gf_inv_mul [OF t s] by (simp add: gf_mul_comm)
  obtain M' B' where f: "foldl (elim_row t k len col) (?M2, ?B2) [0..<k] = (M', B')"
    and res: "gj_inv k len M0 X col M' B'" "M' ! col ! col = 1" "\<forall>r<k. r \<noteq> col \<longrightarrow> M' ! r ! col = 0"
    using gj_elim_fold [OF t col le_refl inv2 one] by blast
  have "gj_inv k len M0 X (Suc col) M' B'"
    using res unit_cols_Suc [of k col M'] by (simp add: gj_inv_def)
  moreover have "gauss_col t k len col M B = Inr (Some (M', B'))"
    using Some s f by (simp add: gauss_col_def Let_def)
  ultimately show ?thesis by blast
qed

lemma gauss_loop_ok:
  assumes t: "gf_ok t" and triv: "\<forall>v. kern k M0 v \<longrightarrow> (\<forall>c<k. v c = 0)"
  shows "gj_inv k len M0 X col M B \<Longrightarrow> col \<le> k \<Longrightarrow>
    \<exists>M' B'. gauss_loop t k len [col..<k] M B = Inr B' \<and> gj_inv k len M0 X k M' B'"
proof (induction "k - col" arbitrary: col M B)
  case 0
  then show ?case by auto
next
  case (Suc n)
  then have col: "col < k" by simp
  obtain M1 B1 where 1: "gauss_col t k len col M B = Inr (Some (M1, B1))" "gj_inv k len M0 X (Suc col) M1 B1"
    using gauss_col_ok [OF t Suc.prems(1) col triv] by blast
  then show ?case
    using Suc.hyps(1) [of "Suc col" M1 B1] Suc.hyps(2) col by (simp add: upt_conv_Cons)
qed

lemma unit_matrix_rdot:
  assumes "unit_cols k k M" "r < k"
  shows "rdot k (M ! r) v = v r"
proof -
  have "rdot k (M ! r) v = (\<Sum>c<k. if c = r then v c else 0)"
    unfolding rdot_def using assms by (intro sum.cong) (auto simp: unit_cols_def)
  then show ?thesis using assms(2) by simp
qed

text \<open>
  A solvable system with trivial kernel: the elimination succeeds and returns the solution.
\<close>

lemma gauss_loop_solves:
  assumes t: "gf_ok t" and triv: "\<forall>v. kern k M v \<longrightarrow> (\<forall>c<k. v c = 0)"
    and shape: "mat_shape k len M B" and sol: "solves k len M B (\<lambda>c b. GF (D ! c ! b))"
    and D: "length D = k" "\<forall>r<k. length (D ! r) = len"
  shows "gauss_loop t k len [0..<k] M B = Inr D"
proof -
  let ?X = "\<lambda>c b. GF (D ! c ! b)"
  have "gj_inv k len M ?X 0 M B" using shape sol by (simp add: gj_inv_def unit_cols_def)
  then obtain M' B' where g: "gauss_loop t k len [0..<k] M B = Inr B'" and inv: "gj_inv k len M ?X k M' B'"
    using gauss_loop_ok [OF t triv] by blast
  have "B' ! r ! b = D ! r ! b" if "r < k" "b < len" for r b
    using inv that unit_matrix_rdot [of k M' r] by (auto simp: gj_inv_def solves_def)
  then have "B' = D" using inv D by (intro nth_equalityI) (auto simp: gj_inv_def mat_shape_def intro: nth_equalityI)
  with g show ?thesis by simp
qed

end
