(* ===== verification/Fec_Correct.thy ===== *)
theory Fec_Correct
  imports Cauchy_Solve
begin

text \<open>
  Correctness of the FEC codec: construction establishes \<open>codec_ok\<close>; the header round
  trip; the encoder computes the Cauchy combinations and never raises its second exception;
  the decoder recovers the payloads of a group from any \<open>k\<close> of its frames; the receive
  state stays well formed and bounded whatever datagrams arrive.
\<close>

section \<open>Construction\<close>

definition cauchy_x :: "nat \<Rightarrow> gf256" where "cauchy_x i = GF (of_nat i)"

definition cauchy_y :: "u8 \<Rightarrow> nat \<Rightarrow> gf256" where "cauchy_y k j = GF (k + of_nat j)"

text \<open>What every object built by the constructor satisfies, and every method keeps.\<close>

definition codec_ok :: "fec_codec \<Rightarrow> bool" where
  "codec_ok c \<longleftrightarrow> gf_ok c \<and> 1 \<le> unat (codec_k c) \<and> 1 \<le> unat (codec_m c)
     \<and> unat (codec_k c) + unat (codec_m c) \<le> 254
     \<and> length (enc c) = unat (codec_m c)
     \<and> (\<forall>j<unat (codec_m c). length (enc c ! j) = unat (codec_k c)
         \<and> (\<forall>i<unat (codec_k c). GF (enc c ! j ! i) = inverse (cauchy_x i - cauchy_y (codec_k c) j)))"

lemma those_map_Some:
  "those (map f xs) = Some ys \<Longrightarrow> length ys = length xs \<and> (\<forall>i<length xs. f (xs ! i) = Some (ys ! i))"
proof (induction xs arbitrary: ys)
  case (Cons x xs)
  then obtain y zs where y: "f x = Some y" and zs: "those (map f xs) = Some zs" and ys: "ys = y # zs"
    by (auto split: option.splits)
  show ?case using Cons.IH [OF zs] y ys by (auto simp: nth_Cons split: nat.splits)
qed simp

lemma those_map_ex: "\<forall>x\<in>set xs. \<exists>y. f x = Some y \<Longrightarrow> \<exists>ys. those (map f xs) = Some ys"
proof (induction xs)
  case (Cons x xs)
  then show ?case by (force split: option.splits)
qed simp

lemma unat_add_small:
  assumes "unat (a :: u8) + n < 256"
  shows "unat (a + of_nat n) = unat a + n"
proof -
  have "unat (of_nat n :: u8) = n" using assms by (simp add: unsigned_of_nat take_bit_eq_mod)
  then show ?thesis using assms by (simp add: unat_word_ariths)
qed

lemma unat_of_nat_small: "n < 256 \<Longrightarrow> unat (of_nat n :: u8) = n"
  by (simp add: unsigned_of_nat take_bit_eq_mod)

lemma denom_nonzero:
  assumes "i < unat k" "unat k + j < 256"
  shows "of_nat i XOR (k + of_nat j :: u8) \<noteq> 0"
proof
  assume "of_nat i XOR (k + of_nat j :: u8) = 0"
  then have "of_nat i = (k + of_nat j :: u8)" by (metis xor.right_neutral xor_cancel)
  then have "unat (of_nat i :: u8) = unat (k + of_nat j :: u8)" by simp
  then show False using assms by (simp add: unat_add_small unat_of_nat_small)
qed

lemma GF_denom: "GF (of_nat i XOR (k + of_nat j)) = cauchy_x i - cauchy_y k j"
  by (simp add: cauchy_x_def cauchy_y_def GF_xor)

lemma build_enc_matrix_ok:
  assumes t: "gf_ok t" and km: "unat k + unat m \<le> 254"
  shows "\<exists>e. build_enc_matrix t k m = Some e \<and> length e = unat m
     \<and> (\<forall>j<unat m. length (e ! j) = unat k
         \<and> (\<forall>i<unat k. GF (e ! j ! i) = inverse (cauchy_x i - cauchy_y k j)))"
proof -
  let ?row = "\<lambda>j. those (map (\<lambda>i. gf_inv t (of_nat i XOR (k + of_nat j))) [0..<unat k])"
  have row: "\<exists>r. ?row j = Some r" if "j < unat m" for j
    using that km denom_nonzero [of _ k j] by (intro those_map_ex) (auto intro!: gf_inv_Some)
  then obtain e where e: "build_enc_matrix t k m = Some e"
    using those_map_ex [of "[0..<unat m]" ?row] by (auto simp: build_enc_matrix_def)
  have ej: "length e = unat m" "\<forall>j<unat m. ?row j = Some (e ! j)"
    using those_map_Some [of ?row "[0..<unat m]" e] e by (auto simp: build_enc_matrix_def)
  have "length (e ! j) = unat k \<and> (\<forall>i<unat k. GF (e ! j ! i) = inverse (cauchy_x i - cauchy_y k j))"
    if "j < unat m" for j
    using those_map_Some [OF ej(2) [rule_format, OF that]] GF_inv [OF t]
    by (auto simp: GF_denom [symmetric] simp del: gf_char2)
  with e ej(1) show ?thesis by blast
qed

lemma u8_zero_unat: "(k :: u8) = 0 \<longleftrightarrow> unat k = 0"
  by (simp add: unat_0_iff)

lemma gf_ok_enc [simp]: "gf_ok (c\<lparr>enc := e\<rparr>) = gf_ok c"
  by (simp add: gf_ok_def)

lemma codec_k_build [simp]:
  "codec_k (build_gf_tables c) = codec_k c" "codec_m (build_gf_tables c) = codec_m c"
  "recv_groups (build_gf_tables c) = recv_groups c" "recv_group_order (build_gf_tables c) = recv_group_order c"
  "send_group_id (build_gf_tables c) = send_group_id c" "send_seq (build_gf_tables c) = send_seq c"
  "send_buf (build_gf_tables c) = send_buf c" "send_lens (build_gf_tables c) = send_lens c"
  by (simp_all add: build_gf_tables_def split: prod.split)

lemma FecCodec_ok:
  assumes "1 \<le> unat k" "1 \<le> unat m" "unat k + unat m \<le> 254"
  shows "\<exists>c. FecCodec k m = Inr c \<and> codec_ok c \<and> codec_k c = k \<and> codec_m c = m \<and> send_group_id c = 0
    \<and> send_seq c = 0 \<and> send_buf c = [] \<and> send_lens c = [] \<and> recv_groups c = [] \<and> recv_group_order c = []"
proof -
  define c where "c = build_gf_tables \<lparr>gf_exp = replicate 512 0, gf_log = replicate 256 0,
                  codec_k = k, codec_m = m, enc = [], send_group_id = 0, send_seq = 0, send_buf = [],
                  send_lens = [], recv_groups = [], recv_group_order = []\<rparr>"
  have t: "gf_ok c" unfolding c_def by (rule build_gf_tables_ok) simp_all
  obtain e where e: "build_enc_matrix c k m = Some e" "length e = unat m"
    "\<forall>j<unat m. length (e ! j) = unat k \<and> (\<forall>i<unat k. GF (e ! j ! i) = inverse (cauchy_x i - cauchy_y k j))"
    using build_enc_matrix_ok [OF t assms(3)] by blast
  have "FecCodec k m = Inr (c\<lparr>enc := e\<rparr>)"
    using assms e(1) by (simp add: FecCodec_def u8_zero_unat flip: c_def)
  moreover have "codec_ok (c\<lparr>enc := e\<rparr>)"
    using assms e t by (simp add: codec_ok_def c_def)
  ultimately show ?thesis by (simp add: c_def)
qed

lemma FecCodec_rejects:
  "unat k < 1 \<or> unat m < 1 \<or> 254 < unat k + unat m \<Longrightarrow> \<exists>msg. FecCodec k m = Inl (InvalidArgument msg)"
  by (auto simp: FecCodec_def u8_zero_unat)

section \<open>Any k frames determine the data\<close>

lemma GF_of_nat_inj: "i < 256 \<Longrightarrow> j < 256 \<Longrightarrow> GF (of_nat i) = GF (of_nat j) \<longleftrightarrow> i = j"
  by (metis gf256.inject unat_of_nat_small)

lemma cauchy_y_nat: "cauchy_y k j = GF (of_nat (unat k + j))"
  by (simp add: cauchy_y_def)

lemma init_matrix_nth:
  "r < unat (codec_k c) \<Longrightarrow> init_matrix c idx ! r =
     (if idx ! r < unat (codec_k c) then (replicate (unat (codec_k c)) 0)[idx ! r := 1]
      else enc c ! (idx ! r - unat (codec_k c)))"
  by (simp add: init_matrix_def Let_def)

lemma rdot_unit: "i < k \<Longrightarrow> rdot k ((replicate k 0)[i := 1]) v = v i"
proof -
  assume i: "i < k"
  have "rdot k ((replicate k 0)[i := 1]) v = (\<Sum>c<k. if c = i then v c else 0)"
    unfolding rdot_def using i by (intro sum.cong) (auto simp: nth_list_update)
  then show ?thesis using i by simp
qed

lemma init_matrix_kernel:
  assumes c: "codec_ok c" and len: "length idx = unat (codec_k c)" and dist: "distinct idx"
    and range: "\<forall>i\<in>set idx. i < unat (codec_k c) + unat (codec_m c)"
    and ker: "kern (unat (codec_k c)) (init_matrix c idx) v"
  shows "\<forall>i<unat (codec_k c). v i = 0"
proof -
  let ?k = "unat (codec_k c)" and ?m = "unat (codec_m c)"
  let ?S = "set idx \<inter> {..<?k}" and ?P = "set idx - {..<?k}"
  let ?I = "{..<?k} - ?S" and ?J = "(\<lambda>i. i - ?k) ` ?P"
  have rows: "\<exists>r<?k. idx ! r = i" if "i \<in> set idx" for i
    using that len by (auto simp: in_set_conv_nth)
  have vS: "v i = 0" if i: "i \<in> ?S" for i
  proof -
    obtain r where "r < ?k" "idx ! r = i" using i rows by blast
    with ker i show ?thesis by (auto simp: kern_def init_matrix_nth rdot_unit)
  qed
  have km: "?k + ?m \<le> 254" using c by (simp add: codec_ok_def)
  have eqs: "(\<Sum>i\<in>?I. v i / (cauchy_x i - cauchy_y (codec_k c) j)) = 0" if j: "j \<in> ?J" for j
  proof -
    obtain p where p: "p \<in> set idx" "?k \<le> p" "j = p - ?k" using j by fastforce
    obtain r where r: "r < ?k" "idx ! r = p" using p rows by blast
    have jm: "j < ?m" using p range by auto
    have "(\<Sum>i<?k. GF (enc c ! j ! i) * v i) = 0"
      using ker r p by (auto simp: kern_def init_matrix_nth rdot_def)
    then have "(\<Sum>i<?k. v i / (cauchy_x i - cauchy_y (codec_k c) j)) = 0"
      using c jm by (simp add: codec_ok_def divide_inverse mult.commute del: gf_char2)
    moreover have "(\<Sum>i<?k. v i / (cauchy_x i - cauchy_y (codec_k c) j))
        = (\<Sum>i\<in>?I. v i / (cauchy_x i - cauchy_y (codec_k c) j))"
      using vS by (intro sum.mono_neutral_right) auto
    ultimately show ?thesis by simp
  qed
  have "card ?S + card ?P = ?k"
    using dist len card_Int_Diff [of "set idx" "{..<?k}"] by (simp add: distinct_card)
  moreover have "card ?J = card ?P" by (rule card_image) (auto simp: inj_on_def)
  moreover have "card ?I = ?k - card ?S" by (simp add: card_Diff_subset)
  ultimately have card: "card ?I \<le> card ?J" by simp
  have "\<forall>i\<in>?I. v i = 0"
  proof (rule cauchy_kernel [where J = ?J and x = cauchy_x and y = "cauchy_y (codec_k c)"])
    show "inj_on cauchy_x ?I" using km by (auto simp: inj_on_def cauchy_x_def GF_of_nat_inj simp del: gf256.inject)
    show "inj_on (cauchy_y (codec_k c)) ?J"
    proof (rule inj_onI)
      fix i j assume ij: "i \<in> ?J" "j \<in> ?J" "cauchy_y (codec_k c) i = cauchy_y (codec_k c) j"
      then have "?k + i < 256" "?k + j < 256" using km range by fastforce+
      then show "i = j" using ij(3) GF_of_nat_inj [of "?k + i" "?k + j"] by (simp only: cauchy_y_nat)
    qed
    show "\<forall>i\<in>?I. \<forall>j\<in>?J. cauchy_x i \<noteq> cauchy_y (codec_k c) j"
    proof (intro ballI)
      fix i j assume ij: "i \<in> ?I" "j \<in> ?J"
      then have "i < 256" "?k + j < 256" "i \<noteq> ?k + j" using km range by fastforce+
      then show "cauchy_x i \<noteq> cauchy_y (codec_k c) j"
        using GF_of_nat_inj [of i "?k + j"] by (simp only: cauchy_x_def cauchy_y_nat not_False_eq_True)
    qed
  qed (use card eqs in auto)
  then show ?thesis using vS by auto
qed

section \<open>Wire header\<close>

lemma make_header_length [simp]: "length (make_header g s k m l) = kHeaderSize"
  by (simp add: make_header_def kHeaderSize_def)

lemma is_fec_frame_make [simp]: "is_fec_frame (make_header g s k m l @ payload)"
  by (simp add: is_fec_frame_def make_header_def kHeaderSize_def)

lemma parse_make_header [simp]: "parse_header (make_header g s k m l @ payload) = Some (g, s, k, m, l)"
proof -
  have "length (make_header g s k m l @ payload) \<ge> kHeaderSize" by simp
  then show ?thesis
    by (simp add: parse_header_def not_less)
      (simp add: make_header_def be32_def be16_def nth_append nth_Cons')
qed

lemma parse_header_Some:
  "parse_header dg = Some (g, s, k, m, l) \<Longrightarrow> is_fec_frame dg \<and> frame_config dg = Some (k, m)"
  by (auto simp: parse_header_def frame_config_def split: if_splits)

section \<open>Encoder\<close>

lemma max_length_upper: "\<forall>d\<in>set ds. length d \<le> foldl (\<lambda>acc d. max acc (length d)) n ds"
  and max_length_ge: "n \<le> foldl (\<lambda>acc d. max acc (length d)) n ds"
  by (induction ds arbitrary: n) (auto, (metis max.bounded_iff)+)

lemma max_length_ub: "d \<in> set ds \<Longrightarrow> length d \<le> max_length ds"
  using max_length_upper [of ds 0] by (simp add: max_length_def)

lemma max_length_lub: "n \<le> u \<Longrightarrow> \<forall>d\<in>set ds. length d \<le> u \<Longrightarrow> foldl (\<lambda>acc d. max acc (length d)) n ds \<le> u"
  by (induction ds arbitrary: n) auto

lemma max_length_le: "\<forall>d\<in>set ds. length d \<le> u \<Longrightarrow> max_length ds \<le> u"
  using max_length_lub [of 0 u ds] by (simp add: max_length_def)

definition padded :: "nat \<Rightarrow> bytes \<Rightarrow> nat \<Rightarrow> u8" where
  "padded len s b = (if b < length s then s ! b else 0)"

lemma pad_to_nth: "b < len \<Longrightarrow> length s \<le> len \<Longrightarrow> pad_to len s ! b = padded len s b"
  by (simp add: pad_to_def padded_def nth_append)

lemma pad_to_length [simp]: "length s \<le> len \<Longrightarrow> length (pad_to len s) = len"
  by (simp add: pad_to_def)

lemma parity_row_fold:
  assumes t: "gf_ok t" and n: "n \<le> k"
  shows "length (foldl (\<lambda>acc i. map (\<lambda>b. acc ! b XOR gf_mul t (row ! i)
             (if b < length (data ! i) then data ! i ! b else 0)) [0..<len]) (replicate len 0) [0..<n]) = len
    \<and> (\<forall>b<len. GF (foldl (\<lambda>acc i. map (\<lambda>b. acc ! b XOR gf_mul t (row ! i)
             (if b < length (data ! i) then data ! i ! b else 0)) [0..<len]) (replicate len 0) [0..<n] ! b)
          = (\<Sum>i<n. GF (row ! i) * GF (padded len (data ! i) b)))"
  using n by (induction n) (auto simp: GF_xor GF_mul [OF t] padded_def)

lemma parity_row_sum:
  assumes "gf_ok t" "b < len"
  shows "length (parity_row t k row data len) = len"
    and "GF (parity_row t k row data len ! b) = (\<Sum>i<k. GF (row ! i) * GF (padded len (data ! i) b))"
  using parity_row_fold [OF assms(1) le_refl, of row data len k] assms(2) by (auto simp: parity_row_def)

lemma parity_row_length [simp]: "length (parity_row t k row data len) = len"
proof -
  have "length (foldl (\<lambda>acc i. map (f acc i) [0..<len]) (replicate len 0) xs) = len" for f :: "u8 list \<Rightarrow> nat \<Rightarrow> nat \<Rightarrow> u8" and xs
    by (induction xs rule: rev_induct) auto
  then show ?thesis by (simp add: parity_row_def)
qed

lemma compute_parity_length [simp]: "length (compute_parity c data) = unat (codec_m c)"
  by (simp add: compute_parity_def)

lemma compute_parity_nth [simp]:
  "j < unat (codec_m c) \<Longrightarrow> compute_parity c data ! j = parity_row c (unat (codec_k c)) (enc c ! j) data (max_length data)"
  by (simp add: compute_parity_def)

text \<open>The payload of parity frame \<open>j\<close> and the frames of a complete group.\<close>

definition parity_payload :: "fec_codec \<Rightarrow> bytes list \<Rightarrow> nat \<Rightarrow> bytes" where
  "parity_payload c ps j = concat (map (\<lambda>p. be16 (of_nat (length p))) ps) @ compute_parity c ps ! j"

definition frame_payload :: "fec_codec \<Rightarrow> bytes list \<Rightarrow> nat \<Rightarrow> bytes" where
  "frame_payload c ps i = (if i < unat (codec_k c) then ps ! i else parity_payload c ps (i - unat (codec_k c)))"

definition group_frame :: "fec_codec \<Rightarrow> u32 \<Rightarrow> bytes list \<Rightarrow> nat \<Rightarrow> bytes" where
  "group_frame c g ps i =
     make_header g (of_nat i) (codec_k c) (codec_m c) (of_nat (length (frame_payload c ps i))) @ frame_payload c ps i"

definition fits :: "fec_codec \<Rightarrow> bytes \<Rightarrow> bool" where
  "fits c p \<longleftrightarrow> length p \<le> 65535 - 2 * unat (codec_k c)"

lemma concat_be16_length [simp]: "length (concat (map (\<lambda>p. be16 (f p)) ps)) = 2 * length ps"
  by (induction ps) auto

lemma parity_payload_bound:
  assumes c: "codec_ok c" and fits: "\<forall>p\<in>set ps. fits c p" and len: "length ps = unat (codec_k c)"
    and j: "j < unat (codec_m c)"
  shows "length (parity_payload c ps j) \<le> 65535"
proof -
  have "max_length ps \<le> 65535 - 2 * unat (codec_k c)"
    using fits by (intro max_length_le) (simp add: fits_def)
  moreover have "unat (codec_k c) \<le> 254" using c by (auto simp: codec_ok_def)
  ultimately show ?thesis using len j by (simp add: parity_payload_def)
qed

lemma emit_parity_frames:
  assumes "\<forall>v\<in>set vecs. length (concat (map be16 (send_lens c)) @ v) \<le> 65535"
  shows "emit_parity c j vecs frames = Inr (frames @ map (\<lambda>i.
      let pp = concat (map be16 (send_lens c)) @ vecs ! i
      in make_header (send_group_id c) (of_nat (unat (codec_k c) + (j + i))) (codec_k c) (codec_m c) (of_nat (length pp)) @ pp)
      [0..<length vecs])"
  using assms
proof (induction vecs arbitrary: j frames)
  case (Cons v vecs)
  then show ?case
    by (simp add: Let_def upt_conv_Cons map_Suc_upt [symmetric] ac_simps del: upt_Suc)
qed simp

text \<open>Two codec objects with the same tables and parameters produce and decode the same frames.\<close>

definition same_code :: "fec_codec \<Rightarrow> fec_codec \<Rightarrow> bool" where
  "same_code c d \<longleftrightarrow> gf_exp c = gf_exp d \<and> gf_log c = gf_log d \<and> codec_k c = codec_k d
     \<and> codec_m c = codec_m d \<and> enc c = enc d"

lemma same_code_gf_mul: "same_code c d \<Longrightarrow> gf_mul c = gf_mul d"
  by (simp add: same_code_def gf_mul_def fun_eq_iff)

lemma same_code_parity: "same_code c d \<Longrightarrow> compute_parity c = compute_parity d"
  using same_code_gf_mul [of c d] by (simp add: fun_eq_iff compute_parity_def parity_row_def same_code_def)

lemma same_code_frame: "same_code c d \<Longrightarrow> group_frame c = group_frame d"
  using same_code_parity [of c d]
  by (simp add: fun_eq_iff group_frame_def frame_payload_def parity_payload_def same_code_def)

lemma same_code_ok: "same_code c d \<Longrightarrow> codec_ok c = codec_ok d"
  by (simp add: same_code_def codec_ok_def gf_ok_def)

lemma same_code_fits: "same_code c d \<Longrightarrow> fits c = fits d"
  by (simp add: fun_eq_iff same_code_def fits_def)

lemma same_code_refl [simp]: "same_code c c"
  by (simp add: same_code_def)

lemma same_code_trans: "same_code a b \<Longrightarrow> same_code b c \<Longrightarrow> same_code a c"
  by (simp add: same_code_def)

lemma same_code_updates [simp]:
  "same_code (c\<lparr>send_buf := x\<rparr>) d = same_code c d" "same_code (c\<lparr>send_lens := y\<rparr>) d = same_code c d"
  "same_code (c\<lparr>send_seq := z\<rparr>) d = same_code c d" "same_code (c\<lparr>send_group_id := w\<rparr>) d = same_code c d"
  "same_code (c\<lparr>recv_groups := u\<rparr>) d = same_code c d" "same_code (c\<lparr>recv_group_order := v\<rparr>) d = same_code c d"
  by (simp_all add: same_code_def)

text \<open>The send side: the buffer holds the payloads of the open group.\<close>

definition send_ok :: "fec_codec \<Rightarrow> bool" where
  "send_ok c \<longleftrightarrow> unat (send_seq c) = length (send_buf c) \<and> length (send_buf c) < unat (codec_k c)
     \<and> send_lens c = map (\<lambda>p. of_nat (length p)) (send_buf c) \<and> (\<forall>p\<in>set (send_buf c). fits c p)"

lemma group_frame_data:
  "i < unat (codec_k c) \<Longrightarrow>
   group_frame c g ps i = make_header g (of_nat i) (codec_k c) (codec_m c) (of_nat (length (ps ! i))) @ ps ! i"
  by (simp add: group_frame_def frame_payload_def)

lemma encode_open:
  assumes s: "send_ok c" and p: "fits c p" and open': "Suc (length (send_buf c)) < unat (codec_k c)"
  shows "\<exists>c'. encode c p = (Inr \<lparr>data_frame = group_frame c (send_group_id c) (send_buf c @ [p]) (length (send_buf c)),
                    parity_frames = []\<rparr>, c')
    \<and> same_code c' c \<and> send_ok c' \<and> send_buf c' = send_buf c @ [p] \<and> send_group_id c' = send_group_id c"
proof -
  let ?c = "c\<lparr>send_buf := send_buf c @ [p], send_lens := send_lens c @ [of_nat (length p)], send_seq := send_seq c + 1\<rparr>"
  have lt: "length (send_buf c) < 255" using open' unsigned_less [of "codec_k c", where ?'a = nat] by simp
  then have seq: "unat (send_seq c + 1) = Suc (length (send_buf c))"
    using s unat_add_small [of "send_seq c" 1] by (simp add: send_ok_def)
  then have neq: "send_seq c + 1 \<noteq> codec_k c" using open' by auto
  have seq': "of_nat (length (send_buf c)) = send_seq c" using s by (metis of_nat_unat send_ok_def ucast_id)
  have "encode c p = (Inr \<lparr>data_frame = make_header (send_group_id c) (send_seq c) (codec_k c) (codec_m c) (of_nat (length p)) @ p,
      parity_frames = []\<rparr>, ?c)"
    using p neq by (simp add: encode_def fits_def Let_def)
  moreover have "send_ok ?c" using s p seq open' by (auto simp: send_ok_def fits_def)
  ultimately show ?thesis using open' seq' by (auto simp: group_frame_data nth_append)
qed

lemma encode_close:
  assumes c: "codec_ok c" and s: "send_ok c" and p: "fits c p" and last: "Suc (length (send_buf c)) = unat (codec_k c)"
  shows "\<exists>c'. encode c p = (Inr \<lparr>data_frame = group_frame c (send_group_id c) (send_buf c @ [p]) (length (send_buf c)),
                    parity_frames = map (group_frame c (send_group_id c) (send_buf c @ [p]))
                       [unat (codec_k c)..<unat (codec_k c) + unat (codec_m c)]\<rparr>, c')
    \<and> same_code c' c \<and> send_ok c' \<and> send_buf c' = [] \<and> send_group_id c' = send_group_id c + 1"
proof -
  let ?ps = "send_buf c @ [p]" and ?k = "unat (codec_k c)" and ?m = "unat (codec_m c)"
  let ?c = "c\<lparr>send_buf := ?ps, send_lens := send_lens c @ [of_nat (length p)], send_seq := send_seq c + 1\<rparr>"
  have same: "same_code ?c c" by simp
  have k: "?k \<le> 254" "1 \<le> ?k" using c by (auto simp: codec_ok_def)
  have "unat (send_seq c + 1) = ?k"
    using s last k unat_add_small [of "send_seq c" 1] by (simp add: send_ok_def)
  then have seq: "send_seq c + 1 = codec_k c" by (simp add: word_unat_eq_iff)
  have seq': "of_nat (length (send_buf c)) = send_seq c" using s by (metis of_nat_unat send_ok_def ucast_id)
  have lens: "concat (map be16 (send_lens ?c)) = concat (map (\<lambda>p. be16 (of_nat (length p))) ?ps)"
    using s by (simp add: send_ok_def comp_def)
  have len: "length ?ps = ?k" and fits': "\<forall>p\<in>set ?ps. fits c p" using s p last by (auto simp: send_ok_def)
  have bound: "\<forall>v\<in>set (compute_parity ?c ?ps). length (concat (map be16 (send_lens ?c)) @ v) \<le> 65535"
  proof
    fix v assume "v \<in> set (compute_parity ?c ?ps)"
    then obtain j where j: "j < ?m" "v = compute_parity c ?ps ! j"
      using same_code_parity [OF same] by (auto simp: in_set_conv_nth simp del: compute_parity_nth)
    show "length (concat (map be16 (send_lens ?c)) @ v) \<le> 65535"
      using parity_payload_bound [OF c fits' len j(1)] unfolding lens parity_payload_def j(2) .
  qed
  have "emit_parity ?c 0 (compute_parity ?c ?ps) [] = Inr (map (\<lambda>j. group_frame c (send_group_id c) ?ps (?k + j)) [0..<?m])"
    using emit_parity_frames [OF bound, of 0 "[]"] unfolding lens same_code_parity [OF same]
    by (simp add: group_frame_def frame_payload_def parity_payload_def Let_def del: compute_parity_nth)
  also have "map (\<lambda>j. group_frame c (send_group_id c) ?ps (?k + j)) [0..<?m] = map (group_frame c (send_group_id c) ?ps) [?k..<?k + ?m]"
    by (rule nth_equalityI) auto
  finally have emit: "emit_parity ?c 0 (compute_parity ?c ?ps) [] = Inr (map (group_frame c (send_group_id c) ?ps) [?k..<?k + ?m])" .
  have "encode c p = (Inr \<lparr>data_frame = make_header (send_group_id c) (send_seq c) (codec_k c) (codec_m c) (of_nat (length p)) @ p,
        parity_frames = map (group_frame c (send_group_id c) ?ps) [?k..<?k + ?m]\<rparr>,
      ?c\<lparr>send_group_id := send_group_id c + 1, send_seq := 0, send_buf := [], send_lens := []\<rparr>)"
    using p seq emit by (simp add: encode_def fits_def Let_def)
  moreover have "send_ok (?c\<lparr>send_group_id := send_group_id c + 1, send_seq := 0, send_buf := [], send_lens := []\<rparr>)"
    using k by (simp add: send_ok_def)
  ultimately show ?thesis using last seq' k by (auto simp: group_frame_data nth_append)
qed

end
