(* ===== verification/Fec_Receive.thy ===== *)
theory Fec_Receive
  imports Fec_Correct
begin

text \<open>
  The receive side of the codec.  \<open>grp_inv c ps R grp\<close> says that a receive group holds
  exactly the frames with numbers \<open>R\<close> of the group with payloads \<open>ps\<close>; one decoded frame
  adds its number to \<open>R\<close>, and at \<open>k\<close> frames the payloads come out.
\<close>

section \<open>Delivery of a full group\<close>

definition slot_payload :: "fec_codec \<Rightarrow> bytes list \<Rightarrow> nat \<Rightarrow> bytes" where
  "slot_payload c ps i = (if i < unat (codec_k c) then ps ! i else compute_parity c ps ! (i - unat (codec_k c)))"

definition grp_inv :: "fec_codec \<Rightarrow> bytes list \<Rightarrow> nat set \<Rightarrow> recv_group \<Rightarrow> bool" where
  "grp_inv c ps R grp \<longleftrightarrow> grp_k grp = codec_k c \<and> grp_m grp = codec_m c
     \<and> length (slots grp) = unat (codec_k c) + unat (codec_m c)
     \<and> (\<forall>i<unat (codec_k c) + unat (codec_m c). slots grp ! i = (if i \<in> R then Some (slot_payload c ps i) else None))
     \<and> length (data_lens grp) = unat (codec_k c)
     \<and> (\<forall>i<unat (codec_k c). i \<in> R \<or> (\<exists>p\<in>R. unat (codec_k c) \<le> p) \<longrightarrow> data_lens grp ! i = of_nat (length (ps ! i)))
     \<and> received grp = card R \<and> \<not> delivered grp"

definition valid_group :: "fec_codec \<Rightarrow> bytes list \<Rightarrow> bool" where
  "valid_group c ps \<longleftrightarrow> codec_ok c \<and> length ps = unat (codec_k c) \<and> (\<forall>p\<in>set ps. fits c p)"

lemma present_slots_grp:
  assumes "grp_inv c ps R grp" "R \<subseteq> {..<unat (codec_k c) + unat (codec_m c)}"
  shows "present_slots grp = filter (\<lambda>i. i \<in> R) [0..<unat (codec_k c) + unat (codec_m c)]"
  using assms unfolding present_slots_def by (intro filter_cong) (auto simp: grp_inv_def)

lemma length_filter_set: "R \<subseteq> {..<n} \<Longrightarrow> length (filter (\<lambda>i. i \<in> R) [0..<n]) = card R"
proof -
  assume R: "R \<subseteq> {..<n}"
  have "length (filter (\<lambda>i. i \<in> R) [0..<n]) = card (set (filter (\<lambda>i. i \<in> R) [0..<n]))"
    by (intro distinct_card [symmetric]) simp
  also have "set (filter (\<lambda>i. i \<in> R) [0..<n]) = R" using R by auto
  finally show ?thesis .
qed

lemma fold_max_len:
  "foldl (\<lambda>acc i. max acc (f i)) n xs = (if xs = [] then n else max n (Max (f ` set xs)))" for f :: "nat \<Rightarrow> nat"
proof (induction xs arbitrary: n)
  case (Cons x xs)
  then show ?case by (cases "xs = []") (auto simp: max.assoc)
qed simp

lemma slot_payload_length:
  assumes "valid_group c ps" "i < unat (codec_k c) + unat (codec_m c)"
  shows "length (slot_payload c ps i) \<le> max_length ps"
    and "unat (codec_k c) \<le> i \<Longrightarrow> length (slot_payload c ps i) = max_length ps"
  using assms by (auto simp: slot_payload_def valid_group_def intro: max_length_ub)

lemma max_length_Max: "ps \<noteq> [] \<Longrightarrow> max_length ps = Max (length ` set ps)"
proof (rule antisym)
  assume "ps \<noteq> []"
  then show "Max (length ` set ps) \<le> max_length ps" by (simp add: max_length_ub)
qed (rule max_length_le, simp)

lemma full_cases:
  assumes "R \<subseteq> {..<k + m}" "card R = (k :: nat)"
  shows "(\<exists>p\<in>R. k \<le> p) \<or> R = {..<k}"
proof (rule disjCI)
  assume "R \<noteq> {..<k}"
  show "\<exists>p\<in>R. k \<le> p"
  proof (rule ccontr)
    assume "\<not> (\<exists>p\<in>R. k \<le> p)"
    then have "R \<subseteq> {..<k}" by (auto simp: not_le)
    then have "R = {..<k}" using assms(2) by (intro card_subset_eq) auto
    with \<open>R \<noteq> {..<k}\<close> show False ..
  qed
qed

text \<open>At \<open>k\<close> frames the symbol length is the longest payload of the group.\<close>

lemma symbol_len_full:
  assumes inv: "grp_inv c ps R grp" and v: "valid_group c ps"
    and R: "R \<subseteq> {..<unat (codec_k c) + unat (codec_m c)}" "card R = unat (codec_k c)"
  shows "symbol_len grp = max_length ps"
proof -
  let ?k = "unat (codec_k c)" and ?m = "unat (codec_m c)"
  have k: "1 \<le> ?k" "length ps = ?k" using v by (auto simp: valid_group_def codec_ok_def)
  then have Rne: "R \<noteq> {}" using R(2) by auto
  have fin: "finite R" using R(1) finite_subset by blast
  have ps: "set (present_slots grp) = R" using present_slots_grp [OF inv R(1)] R(1) by auto
  have sl: "length (the (slots grp ! i)) = length (slot_payload c ps i)" if "i \<in> R" for i
    using inv R(1) that by (auto simp: grp_inv_def)
  have "symbol_len grp = Max ((\<lambda>i. length (the (slots grp ! i))) ` R)"
    unfolding symbol_len_def fold_max_len ps using ps Rne by auto
  also have "\<dots> = Max ((\<lambda>i. length (slot_payload c ps i)) ` R)" using sl by (simp cong: image_cong)
  also have "\<dots> = max_length ps"
  proof (rule Max_eqI)
    show "finite ((\<lambda>i. length (slot_payload c ps i)) ` R)" using fin by simp
    show "y \<le> max_length ps" if "y \<in> (\<lambda>i. length (slot_payload c ps i)) ` R" for y
      using that R(1) slot_payload_length(1) [OF v] by auto
    show "max_length ps \<in> (\<lambda>i. length (slot_payload c ps i)) ` R"
      using full_cases [OF R]
    proof
      assume "\<exists>p\<in>R. ?k \<le> p"
      then obtain p where "p \<in> R" "?k \<le> p" by blast
      then show ?thesis using slot_payload_length(2) [OF v, of p] R(1) by (metis image_eqI lessThan_iff subsetD)
    next
      assume "R = {..<?k}"
      moreover have "max_length ps \<in> length ` set ps"
        using k max_length_Max [of ps] Max_in [of "length ` set ps"] by fastforce
      ultimately show ?thesis using k(2) by (auto simp: in_set_conv_nth slot_payload_def image_iff)
    qed
  qed
  finally show ?thesis .
qed

lemma mat_shape_init:
  assumes "codec_ok c" "length idx = unat (codec_k c)" "\<forall>i\<in>set idx. i < unat (codec_k c) + unat (codec_m c)"
    and "length B = unat (codec_k c)" "\<forall>r<unat (codec_k c). length (B ! r) = len"
  shows "mat_shape (unat (codec_k c)) len (init_matrix c idx) B"
proof -
  have "length (init_matrix c idx) = unat (codec_k c)" by (simp add: init_matrix_def Let_def)
  moreover have "length (init_matrix c idx ! r) = unat (codec_k c)" if r: "r < unat (codec_k c)" for r
  proof -
    have "idx ! r < unat (codec_k c) + unat (codec_m c)" using assms(2,3) r by simp
    then show ?thesis using assms(1) r by (auto simp: init_matrix_nth codec_ok_def)
  qed
  ultimately show ?thesis using assms(4,5) by (simp add: mat_shape_def)
qed

text \<open>The received symbols are the code's linear forms of the padded payloads.\<close>

lemma slot_solves:
  assumes v: "valid_group c ps" and i: "i < unat (codec_k c) + unat (codec_m c)" and b: "b < max_length ps"
  shows "rdot (unat (codec_k c))
      (if i < unat (codec_k c) then (replicate (unat (codec_k c)) 0)[i := 1] else enc c ! (i - unat (codec_k c)))
      (\<lambda>j. GF (map (pad_to (max_length ps)) ps ! j ! b))
    = GF (pad_to (max_length ps) (slot_payload c ps i) ! b)"
proof (cases "i < unat (codec_k c)")
  case True
  then show ?thesis using v by (simp add: rdot_unit slot_payload_def valid_group_def)
next
  case False
  let ?k = "unat (codec_k c)" and ?L = "max_length ps"
  have jm: "i - ?k < unat (codec_m c)" using False i by simp
  have c: "gf_ok c" "length ps = ?k" using v by (auto simp: valid_group_def codec_ok_def)
  have pad: "map (pad_to ?L) ps ! j ! b = padded ?L (ps ! j) b" if "j < ?k" for j
    using that c(2) b by (simp add: pad_to_nth max_length_ub)
  have "rdot ?k (enc c ! (i - ?k)) (\<lambda>j. GF (map (pad_to ?L) ps ! j ! b))
      = (\<Sum>j<?k. GF (enc c ! (i - ?k) ! j) * GF (padded ?L (ps ! j) b))"
    unfolding rdot_def using pad by (intro sum.cong) auto
  also have "\<dots> = GF (slot_payload c ps i ! b)"
    using parity_row_sum(2) [OF c(1) b, of ?k "enc c ! (i - ?k)" ps] False jm by (simp add: slot_payload_def)
  also have "slot_payload c ps i ! b = pad_to ?L (slot_payload c ps i) ! b"
    using slot_payload_length(2) [OF v i] False b by (simp add: pad_to_def nth_append)
  finally show ?thesis using False by simp
qed

lemma gauss_decode_recovers:
  assumes v: "valid_group c ps" and idx: "length idx = unat (codec_k c)" "distinct idx"
    "\<forall>i\<in>set idx. i < unat (codec_k c) + unat (codec_m c)"
  shows "gauss_decode c idx (map (\<lambda>i. pad_to (max_length ps) (slot_payload c ps i)) idx) (max_length ps)
       = Inr (map (pad_to (max_length ps)) ps)"
  unfolding gauss_decode_def
proof (rule gauss_loop_solves)
  let ?k = "unat (codec_k c)" and ?L = "max_length ps"
  let ?B = "map (\<lambda>i. pad_to ?L (slot_payload c ps i)) idx"
  have c: "codec_ok c" "length ps = ?k" using v by (auto simp: valid_group_def)
  have i: "idx ! r < ?k + unat (codec_m c)" if "r < ?k" for r using idx that by simp
  show "gf_ok c" using c by (simp add: codec_ok_def)
  show "\<forall>v. kern ?k (init_matrix c idx) v \<longrightarrow> (\<forall>i<?k. v i = 0)"
    using init_matrix_kernel [OF c(1) idx] by blast
  show "mat_shape ?k ?L (init_matrix c idx) ?B"
    using idx i slot_payload_length(1) [OF v] by (intro mat_shape_init [OF c(1) idx(1,3)]) auto
  show "solves ?k ?L (init_matrix c idx) ?B (\<lambda>ca b. GF (map (pad_to ?L) ps ! ca ! b))"
    unfolding solves_def using slot_solves [OF v i] idx by (simp add: init_matrix_nth)
  show "length (map (pad_to ?L) ps) = ?k" using c by simp
  show "\<forall>r<?k. length (map (pad_to ?L) ps ! r) = ?L" using c by (simp add: max_length_ub)
qed

lemma recovered_payload_ok:
  assumes inv: "grp_inv c ps R grp" and v: "valid_group c ps" and i: "i < unat (codec_k c)"
    and R: "R \<subseteq> {..<unat (codec_k c) + unat (codec_m c)}" "card R = unat (codec_k c)"
  shows "recovered_payload grp (map (pad_to (max_length ps)) ps) i = ps ! i"
proof -
  have ps: "length ps = unat (codec_k c)" "fits c (ps ! i)" using v i by (auto simp: valid_group_def)
  have len: "length (ps ! i) \<le> max_length ps" using ps i by (intro max_length_ub) simp
  have "length (ps ! i) < 65536" using ps(2) by (auto simp: fits_def)
  moreover have "data_lens grp ! i = of_nat (length (ps ! i))"
    using full_cases [OF R] inv i by (auto simp: grp_inv_def)
  ultimately have "unat (data_lens grp ! i) = length (ps ! i)"
    by (simp add: unsigned_of_nat take_bit_eq_mod)
  moreover from this have "data_lens grp ! i = 0 \<longleftrightarrow> length (ps ! i) = 0" by (metis unat_0_iff)
  ultimately show ?thesis
    using ps i len by (auto simp: recovered_payload_def Let_def pad_to_def min_def)
qed

lemma try_deliver_full:
  assumes g: "map_of (recv_groups c) g = Some grp" and inv: "grp_inv c ps R grp" and v: "valid_group c ps"
    and R: "R \<subseteq> {..<unat (codec_k c) + unat (codec_m c)}" "card R = unat (codec_k c)"
  shows "try_deliver c g = (Inr ps, c\<lparr>recv_groups := AList.delete g (recv_groups c)\<rparr>)"
proof -
  let ?k = "unat (codec_k c)" and ?L = "max_length ps"
  let ?idx = "filter (\<lambda>i. i \<in> R) [0..<?k + unat (codec_m c)]"
  have idx: "length ?idx = ?k" "distinct ?idx" "\<forall>i\<in>set ?idx. i < ?k + unat (codec_m c)"
    using length_filter_set [OF R(1)] R(2) by auto
  have k: "length ps = ?k" "1 \<le> ?k" using v by (auto simp: valid_group_def codec_ok_def)
  have raw: "map (\<lambda>i. pad_to ?L (the (slots grp ! i))) ?idx = map (\<lambda>i. pad_to ?L (slot_payload c ps i)) ?idx"
    using inv by (auto simp: grp_inv_def)
  have res: "map (recovered_payload grp (map (pad_to ?L) ps)) [0..<?k] = ps"
    using recovered_payload_ok [OF inv v _ R] k by (intro nth_equalityI) auto
  have "take ?k (present_slots grp) = ?idx" using idx(1) by (simp add: present_slots_grp [OF inv R(1)])
  then show ?thesis
    using g inv R(2) k res gauss_decode_recovers [OF v idx] symbol_len_full [OF inv v R]
    by (simp add: try_deliver_def grp_inv_def Let_def raw) auto
qed

lemma try_deliver_early:
  assumes "map_of (recv_groups c) g = Some grp" "grp_inv c ps R grp" "card R < unat (codec_k c)"
  shows "try_deliver c g = (Inr [], c)"
  using assms by (simp add: try_deliver_def grp_inv_def)

section \<open>One frame\<close>

lemma same_code_grp_inv: "same_code c d \<Longrightarrow> grp_inv c = grp_inv d"
  using same_code_parity [of c d] by (simp add: fun_eq_iff grp_inv_def slot_payload_def same_code_def)

lemma same_code_valid: "same_code c d \<Longrightarrow> valid_group c = valid_group d"
  using same_code_ok [of c d] same_code_fits [of c d] by (simp add: fun_eq_iff valid_group_def same_code_def)

lemma evict_groups_lookup: "map_of (snd (evict_groups g order groups)) g = map_of groups g"
  by (induction g order groups rule: evict_groups.induct) (simp_all add: delete_conv')

lemma remember_lookup: "map_of (recv_groups (remember_receive_group c g)) g = map_of (recv_groups c) g"
  using evict_groups_lookup [of g "recv_group_order c @ [g]" "recv_groups c"]
  by (auto simp: remember_receive_group_def split: prod.split)

lemma remember_same_code [simp]: "same_code (remember_receive_group c g) d = same_code c d"
  by (simp add: remember_receive_group_def split: prod.split)

lemma put_group_same_code [simp]: "same_code (put_group c g grp) d = same_code c d"
  by (simp add: put_group_def)

lemma put_group_lookup [simp]: "map_of (recv_groups (put_group c g grp)) g = Some grp"
  by (simp add: put_group_def update_conv')

lemma concat_be16_nth:
  "i < length ls \<Longrightarrow> (concat (map be16 ls) @ v) ! (2 * i) = be16 (ls ! i) ! 0
     \<and> (concat (map be16 ls) @ v) ! (2 * i + 1) = be16 (ls ! i) ! 1"
proof (induction ls arbitrary: i)
  case (Cons l ls)
  then show ?case by (cases i) (auto simp: be16_def)
qed simp

lemma manifest_lens_concat: "length ls = k \<Longrightarrow> manifest_lens k (concat (map be16 ls) @ v) = ls"
  unfolding manifest_lens_def using concat_be16_nth [of _ ls v]
  by (intro nth_equalityI) (auto simp: be16_def)

lemma frame_payload_length:
  assumes v: "valid_group c ps" and i: "i < unat (codec_k c) + unat (codec_m c)"
  shows "unat (of_nat (length (frame_payload c ps i)) :: u16) = length (frame_payload c ps i)"
proof -
  have "length (frame_payload c ps i) \<le> 65535"
  proof (cases "i < unat (codec_k c)")
    case True
    then have "fits c (ps ! i)" using v by (simp add: valid_group_def)
    then show ?thesis using True by (auto simp: frame_payload_def fits_def)
  next
    case False
    then show ?thesis
      using v i parity_payload_bound [of c ps "i - unat (codec_k c)"] by (simp add: frame_payload_def valid_group_def)
  qed
  then show ?thesis by (simp add: unsigned_of_nat take_bit_eq_mod)
qed

text \<open>The group a codec holds for \<open>g\<close>: absent before its first frame.\<close>

definition holds_group :: "fec_codec \<Rightarrow> u32 \<Rightarrow> bytes list \<Rightarrow> nat set \<Rightarrow> bool" where
  "holds_group c g ps R \<longleftrightarrow> (if R = {} then map_of (recv_groups c) g = None
     else \<exists>grp. map_of (recv_groups c) g = Some grp \<and> grp_inv c ps R grp)"

text \<open>The group object before the frame is stored, after the set-up of a fresh group.\<close>

definition opened :: "fec_codec \<Rightarrow> u32 \<Rightarrow> recv_group" where
  "opened c g = (case map_of (recv_groups c) g of
       None \<Rightarrow> empty_group\<lparr>grp_k := codec_k c, grp_m := codec_m c,
                 slots := replicate (unat (codec_k c) + unat (codec_m c)) None,
                 data_lens := replicate (unat (codec_k c)) 0\<rparr>
     | Some grp \<Rightarrow> grp)"

lemma opened_inv:
  assumes "holds_group c g ps R" "codec_ok c"
  shows "grp_inv c ps R (opened c g)"
  using assms by (auto simp: holds_group_def opened_def grp_inv_def empty_group_def split: if_splits)

definition store_frame :: "fec_codec \<Rightarrow> recv_group \<Rightarrow> nat \<Rightarrow> bytes \<Rightarrow> recv_group" where
  "store_frame c grp i payload =
     (if unat (codec_k c) \<le> i
      then grp\<lparr>data_lens := manifest_lens (unat (codec_k c)) payload,
               slots := (slots grp)[i := Some (drop (2 * unat (codec_k c)) payload)], received := received grp + 1\<rparr>
      else grp\<lparr>data_lens := (data_lens grp)[i := of_nat (length payload)],
               slots := (slots grp)[i := Some payload], received := received grp + 1\<rparr>)"

lemma frame_payload_parity:
  assumes "valid_group c ps" "unat (codec_k c) \<le> i"
  shows "frame_payload c ps i = concat (map be16 (map (\<lambda>p. of_nat (length p)) ps)) @ slot_payload c ps i"
  using assms by (simp add: frame_payload_def parity_payload_def slot_payload_def comp_def)

lemma store_frame_inv:
  assumes v: "valid_group c ps" and inv: "grp_inv c ps R grp" and fin: "finite R"
    and i: "i < unat (codec_k c) + unat (codec_m c)" "i \<notin> R"
  shows "grp_inv c ps (insert i R) (store_frame c grp i (frame_payload c ps i))"
proof (cases "unat (codec_k c) \<le> i")
  case True
  let ?k = "unat (codec_k c)"
  have len: "length ps = ?k" using v by (simp add: valid_group_def)
  have man: "manifest_lens ?k (frame_payload c ps i) = map (\<lambda>p. of_nat (length p)) ps"
    unfolding frame_payload_parity [OF v True] by (rule manifest_lens_concat) (simp add: len)
  have dr: "drop (2 * ?k) (frame_payload c ps i) = slot_payload c ps i"
    unfolding frame_payload_parity [OF v True] using len by (simp add: comp_def)
  show ?thesis
    using inv fin i True len by (auto simp: grp_inv_def store_frame_def man dr nth_list_update)
next
  case False
  then have "frame_payload c ps i = ps ! i" "slot_payload c ps i = ps ! i"
    by (simp_all add: frame_payload_def slot_payload_def)
  then show ?thesis
    using inv fin i False by (auto simp: grp_inv_def store_frame_def nth_list_update)
qed

lemma decode_group_frame:
  assumes v: "valid_group c ps" and h: "holds_group c g ps R"
    and R: "R \<subseteq> {..<unat (codec_k c) + unat (codec_m c)}"
    and i: "i < unat (codec_k c) + unat (codec_m c)" "i \<notin> R"
  shows "\<exists>c1. decode c (group_frame c g ps i)
              = try_deliver (put_group c1 g (store_frame c (opened c g) i (frame_payload c ps i))) g
            \<and> same_code c1 c"
proof -
  let ?k = "unat (codec_k c)" and ?m = "unat (codec_m c)"
  have km: "?k + ?m \<le> 254" "1 \<le> ?k" using v by (auto simp: valid_group_def codec_ok_def)
  have k0: "codec_k c \<noteq> 0" using km by (auto simp: u8_zero_unat)
  have ui: "unat (of_nat i :: u8) = i" using i km by (simp add: unat_of_nat_small)
  have sum: "unat (codec_k c + codec_m c) = ?k + ?m" using km by (simp add: unat_word_ariths)
  have inv: "grp_inv c ps R (opened c g)" using h v by (intro opened_inv) (auto simp: valid_group_def)
  have slot: "slots (opened c g) ! i = None" "length (slots (opened c g)) = ?k + ?m" "\<not> delivered (opened c g)"
    using inv i by (auto simp: grp_inv_def)
  have usl: "unat (of_nat (?k + ?m) :: u8) = ?k + ?m" using km by (intro unat_of_nat_small) simp
  have seq: "\<not> codec_k c + codec_m c \<le> (of_nat i :: u8)" "\<not> of_nat (?k + ?m) \<le> (of_nat i :: u8)"
    using i ui sum usl by (simp_all only: word_le_nat_alt)
  have par: "codec_k c \<le> (of_nat i :: u8) \<longleftrightarrow> ?k \<le> i" using ui by (simp add: word_le_nat_alt)
  have man: "2 * ?k \<le> length (frame_payload c ps i)" if "?k \<le> i"
    using that v frame_payload_parity [OF v that] by (simp add: valid_group_def comp_def)
  have grpk: "grp_k grp \<noteq> 0 \<and> \<not> delivered grp" if "map_of (recv_groups c) g = Some grp" for grp
    using h that k0 by (auto simp: holds_group_def grp_inv_def split: if_splits)
  define fresh where "fresh = (map_of (recv_groups c) g = None)"
  define c0 where "c0 = put_group c g (case map_of (recv_groups c) g of None \<Rightarrow> empty_group | Some grp \<Rightarrow> grp)"
  define c1 where "c1 = (if fresh then remember_receive_group (put_group c0 g (opened c g)) g else put_group c0 g (opened c g))"
  have parse: "parse_header (group_frame c g ps i)
      = Some (g, of_nat i, codec_k c, codec_m c, of_nat (length (frame_payload c ps i)))"
    by (simp add: group_frame_def)
  have pl: "take (length (frame_payload c ps i)) (drop kHeaderSize (group_frame c g ps i)) = frame_payload c ps i"
    "length (group_frame c g ps i) = kHeaderSize + length (frame_payload c ps i)"
    by (simp_all add: group_frame_def)
  have "decode c (group_frame c g ps i)
      = try_deliver (put_group c1 g (store_frame c (opened c g) i (frame_payload c ps i))) g"
  proof (cases "map_of (recv_groups c) g")
    case None
    then show ?thesis
      using k0 seq par man slot pl(2)
      by (cases "?k \<le> i") (simp_all add: decode_def parse pl(1) frame_payload_length [OF v i(1)] ui store_frame_def c1_def c0_def fresh_def
          opened_def empty_group_def Let_def not_less)
  next
    case (Some grp)
    then show ?thesis
      using k0 seq par man slot pl(2) grpk [OF Some]
      by (cases "?k \<le> i") (simp_all add: decode_def parse pl(1) frame_payload_length [OF v i(1)] ui store_frame_def c1_def c0_def fresh_def
          opened_def Let_def not_less)
  qed
  moreover have "same_code c1 c" by (simp add: c1_def c0_def)
  ultimately show ?thesis by blast
qed

end
