(* ===== verification/Fec_Robust.thy ===== *)
theory Fec_Robust
  imports Fec_Delivery
begin

text \<open>
  The receive side under arbitrary datagrams: every group a codec holds has the shape of
  its configuration and fewer than \<open>k\<close> frames, the eviction order covers all groups and
  has at most 256 entries, and no datagram makes \<open>decode\<close> raise.
\<close>

section \<open>The invariant\<close>

definition group_shape :: "fec_codec \<Rightarrow> recv_group \<Rightarrow> bool" where
  "group_shape c grp \<longleftrightarrow> grp_k grp = codec_k c \<and> grp_m grp = codec_m c
     \<and> length (slots grp) = unat (codec_k c) + unat (codec_m c) \<and> length (data_lens grp) = unat (codec_k c)
     \<and> received grp = length (filter (\<lambda>s. s \<noteq> None) (slots grp)) \<and> \<not> delivered grp"

definition group_ok :: "fec_codec \<Rightarrow> recv_group \<Rightarrow> bool" where
  "group_ok c grp \<longleftrightarrow> group_shape c grp \<and> received grp < unat (codec_k c)"

text \<open>Well-formed except possibly for the group \<open>g\<close> being worked on.\<close>

definition recv_wf :: "fec_codec \<Rightarrow> u32 \<Rightarrow> bool" where
  "recv_wf c g \<longleftrightarrow> codec_ok c \<and> distinct (map fst (recv_groups c))
     \<and> (\<forall>h grp. map_of (recv_groups c) h = Some grp \<longrightarrow> h \<noteq> g \<longrightarrow> group_ok c grp)
     \<and> dom (map_of (recv_groups c)) \<subseteq> insert g (set (recv_group_order c))
     \<and> length (recv_group_order c) \<le> kMaxReceiveGroups"

definition recv_ok :: "fec_codec \<Rightarrow> bool" where
  "recv_ok c \<longleftrightarrow> codec_ok c \<and> distinct (map fst (recv_groups c))
     \<and> (\<forall>h grp. map_of (recv_groups c) h = Some grp \<longrightarrow> group_ok c grp)
     \<and> dom (map_of (recv_groups c)) \<subseteq> set (recv_group_order c)
     \<and> length (recv_group_order c) \<le> kMaxReceiveGroups"

lemma recv_ok_wf: "recv_ok c \<Longrightarrow> recv_wf c g"
  by (auto simp: recv_ok_def recv_wf_def)

lemma group_ok_cong: "codec_k c = codec_k d \<Longrightarrow> codec_m c = codec_m d \<Longrightarrow> group_ok c = group_ok d"
  by (simp add: fun_eq_iff group_ok_def group_shape_def)

lemma codec_ok_recv [simp]:
  "codec_ok (c\<lparr>recv_groups := u\<rparr>) = codec_ok c" "codec_ok (c\<lparr>recv_group_order := v\<rparr>) = codec_ok c"
  by (simp_all add: codec_ok_def gf_ok_def)

lemma group_ok_recv [simp]:
  "group_ok (c\<lparr>recv_groups := u\<rparr>) = group_ok c" "group_ok (c\<lparr>recv_group_order := v\<rparr>) = group_ok c"
  by (rule group_ok_cong; simp)+

lemma recv_wf_put: "recv_wf c g \<Longrightarrow> recv_wf (put_group c g grp) g"
  by (auto simp: recv_wf_def put_group_def update_conv' distinct_update split: if_splits)

lemma recv_ok_put:
  assumes "recv_wf c g" "group_ok c grp" "g \<in> set (recv_group_order c)"
  shows "recv_ok (put_group c g grp)"
  using assms by (auto simp: recv_wf_def recv_ok_def put_group_def update_conv' distinct_update split: if_splits)

lemma recv_ok_delete: "recv_wf c g \<Longrightarrow> recv_ok (c\<lparr>recv_groups := AList.delete g (recv_groups c)\<rparr>)"
  by (auto simp: recv_wf_def recv_ok_def delete_conv' distinct_delete split: if_splits)

section \<open>Eviction\<close>

lemma evict_groups_ok:
  assumes "evict_groups g order groups = (order', groups')" "order \<noteq> []" "last order = g"
    "distinct (map fst groups)" "dom (map_of groups) \<subseteq> set order"
  shows "distinct (map fst groups') \<and> dom (map_of groups') \<subseteq> set order' \<and> length order' \<le> kMaxReceiveGroups
    \<and> map_of groups' \<subseteq>\<^sub>m map_of groups \<and> g \<in> set order'"
  using assms
proof (induction g order groups arbitrary: order' groups' rule: evict_groups.induct)
  case (2 g stale order groups)
  show ?case
  proof (cases "length (stale # order) > kMaxReceiveGroups")
    case True
    then have ne: "order \<noteq> []" by (auto simp: kMaxReceiveGroups_def)
    then have l: "last order = g" using "2.prems"(3) by simp
    let ?G = "if stale \<noteq> g then AList.delete stale groups else groups"
    have "g \<in> set order" using ne l by auto
    then have dom: "dom (map_of ?G) \<subseteq> set order" using "2.prems"(5) by (auto simp: delete_conv' split: if_splits)
    have dist: "distinct (map fst ?G)" using "2.prems"(4) by (simp add: distinct_delete)
    have sub: "map_of ?G \<subseteq>\<^sub>m map_of groups" by (auto simp: delete_conv' map_le_def)
    show ?thesis
      using "2.IH" [OF True _ ne l dist dom, of order' groups'] "2.prems"(1) True map_le_trans [OF _ sub] by simp
  next
    case False
    then show ?thesis using "2.prems" by auto
  qed
qed simp

lemma recv_wf_remember:
  assumes "recv_wf c g"
  shows "recv_wf (remember_receive_group c g) g \<and> g \<in> set (recv_group_order (remember_receive_group c g))"
proof -
  obtain order groups where e: "evict_groups g (recv_group_order c @ [g]) (recv_groups c) = (order, groups)" by force
  have "distinct (map fst groups) \<and> dom (map_of groups) \<subseteq> set order \<and> length order \<le> kMaxReceiveGroups
    \<and> map_of groups \<subseteq>\<^sub>m map_of (recv_groups c) \<and> g \<in> set order"
    using evict_groups_ok [OF e] assms by (auto simp: recv_wf_def)
  moreover have "group_ok c grp" if "map_of groups h = Some grp" "map_of groups \<subseteq>\<^sub>m map_of (recv_groups c)" "h \<noteq> g" for h grp
    using that assms by (auto simp: recv_wf_def map_le_def dom_def)
  ultimately show ?thesis
    using assms by (auto simp: remember_receive_group_def e recv_wf_def)
qed

section \<open>Delivery\<close>

lemma present_slots_shape:
  assumes "group_shape c grp"
  shows "length (present_slots grp) = received grp"
proof -
  have "present_slots grp = filter (\<lambda>i. slots grp ! i \<noteq> None) [0..<length (slots grp)]"
    using assms by (simp add: present_slots_def group_shape_def)
  moreover have "filter (\<lambda>s. s \<noteq> None) (map ((!) (slots grp)) [0..<length (slots grp)])
      = map ((!) (slots grp)) (filter (\<lambda>i. slots grp ! i \<noteq> None) [0..<length (slots grp)])"
    by (simp only: filter_map comp_def)
  ultimately show ?thesis using assms by (simp add: group_shape_def map_nth)
qed

lemma try_deliver_total:
  assumes wf: "recv_wf c g" and ord: "g \<in> set (recv_group_order c)"
    and grp: "map_of (recv_groups c) g = Some grp" "group_shape c grp"
  shows "\<exists>out c'. try_deliver c g = (Inr out, c') \<and> recv_ok c' \<and> same_code c' c
    \<and> (out = [] \<or> length out = unat (codec_k c))"
proof (cases "received grp < unat (codec_k c)")
  case True
  then have "group_ok c grp" using grp by (simp add: group_ok_def)
  then have "group_ok c grp'" if "map_of (recv_groups c) h = Some grp'" for h grp'
    using wf grp that by (cases "h = g") (auto simp: recv_wf_def)
  then have "recv_ok c" using wf ord by (auto simp: recv_wf_def recv_ok_def)
  then show ?thesis using True grp by (simp add: try_deliver_def group_shape_def)
next
  case False
  let ?k = "unat (codec_k c)"
  let ?idx = "take ?k (present_slots grp)"
  have idx: "length ?idx = ?k" "distinct ?idx" "\<forall>i\<in>set ?idx. i < ?k + unat (codec_m c)"
    using False present_slots_shape [OF grp(2)] grp(2)
    by (auto simp: present_slots_def group_shape_def dest!: in_set_takeD)
  have c: "codec_ok c" using wf by (simp add: recv_wf_def)
  obtain D where D: "gauss_decode c ?idx (map (\<lambda>i. pad_to (symbol_len grp) (the (slots grp ! i))) ?idx) (symbol_len grp) = Inr D"
      "length D = ?k"
    using gauss_decode_total [OF c idx] idx(1) by (metis length_map)
  then have "D \<noteq> []" using c by (auto simp: codec_ok_def)
  then show ?thesis
    using D False grp recv_ok_delete [OF wf] by (simp add: try_deliver_def group_shape_def Let_def)
qed

lemma filter_Some_update:
  "i < length xs \<Longrightarrow> xs ! i = None \<Longrightarrow>
   length (filter (\<lambda>s. s \<noteq> None) (xs[i := Some v])) = Suc (length (filter (\<lambda>s. s \<noteq> None) xs))"
proof (induction xs arbitrary: i)
  case (Cons x xs)
  then show ?case by (cases i) auto
qed simp

lemma group_shape_store:
  assumes "group_shape c grp" "i < length (slots grp)" "slots grp ! i = None" "length dl = unat (codec_k c)"
  shows "group_shape c (grp\<lparr>data_lens := dl, slots := (slots grp)[i := Some v], received := Suc (received grp)\<rparr>)"
  using assms by (simp add: group_shape_def filter_Some_update del: not_None_eq)

section \<open>Decoding an arbitrary datagram\<close>

text \<open>The group for \<open>g\<close> looked up or set up, as the first half of \<open>decode\<close> leaves it.\<close>

definition ready_group :: "fec_codec \<Rightarrow> u32 \<Rightarrow> fec_codec" where
  "ready_group c g =
     (let c1 = put_group c g (case map_of (recv_groups c) g of None \<Rightarrow> empty_group | Some grp \<Rightarrow> grp);
          c2 = put_group c1 g (opened c g)
      in if map_of (recv_groups c) g = None then remember_receive_group c2 g else c2)"

lemma ready_group_ok:
  assumes "recv_ok c"
  shows "recv_wf (ready_group c g) g" "g \<in> set (recv_group_order (ready_group c g))"
    and "map_of (recv_groups (ready_group c g)) g = Some (opened c g)" "group_ok c (opened c g)"
    and "same_code (ready_group c g) c"
proof -
  show "recv_wf (ready_group c g) g"
    using recv_ok_wf [OF assms] recv_wf_put recv_wf_remember by (simp add: ready_group_def Let_def)
  show "g \<in> set (recv_group_order (ready_group c g))"
  proof (cases "map_of (recv_groups c) g")
    case None
    then show ?thesis using recv_ok_wf [OF assms] recv_wf_put recv_wf_remember by (simp add: ready_group_def Let_def)
  next
    case (Some grp)
    then have "g \<in> set (recv_group_order c)" using assms by (auto simp: recv_ok_def)
    then show ?thesis using Some by (simp add: ready_group_def Let_def put_group_def)
  qed
  show "map_of (recv_groups (ready_group c g)) g = Some (opened c g)"
    by (simp add: ready_group_def Let_def remember_lookup)
  have k: "codec_ok c" using assms by (simp add: recv_ok_def)
  show "group_ok c (opened c g)"
  proof (cases "map_of (recv_groups c) g")
    case None
    then show ?thesis using k by (simp add: opened_def empty_group_def group_ok_def group_shape_def codec_ok_def)
  next
    case (Some grp)
    then show ?thesis using assms by (simp add: opened_def recv_ok_def)
  qed
  show "same_code (ready_group c g) c" by (simp add: ready_group_def Let_def)
qed

lemma decode_ready:
  assumes c: "recv_ok c" and hd: "parse_header dg = Some (g, seq, codec_k c, codec_m c, data_len)"
    and seq: "\<not> seq \<ge> codec_k c + codec_m c" and len: "\<not> length dg < kHeaderSize + unat data_len"
  shows "decode c dg = (Inr [], ready_group c g)
    \<or> (\<exists>dl v. length dl = unat (codec_k c) \<and> unat seq < length (slots (opened c g)) \<and> slots (opened c g) ! unat seq = None
        \<and> decode c dg = try_deliver (put_group (ready_group c g) g ((opened c g)\<lparr>data_lens := dl,
             slots := (slots (opened c g))[unat seq := Some v], received := received (opened c g) + 1\<rparr>)) g)"
proof -
  let ?k = "unat (codec_k c)" and ?m = "unat (codec_m c)"
  have km: "?k + ?m \<le> 254" "1 \<le> ?k" using c by (auto simp: recv_ok_def codec_ok_def)
  have k0: "codec_k c \<noteq> 0" using km by (auto simp: u8_zero_unat)
  have "unat (codec_k c + codec_m c) = ?k + ?m" using km by (simp add: unat_word_ariths)
  then have us: "unat seq < ?k + ?m" using seq by (simp add: word_le_nat_alt not_le)
  have grp: "group_ok c (opened c g)" by (rule ready_group_ok(4) [OF c])
  then have sh: "length (slots (opened c g)) = ?k + ?m" "length (data_lens (opened c g)) = ?k" "\<not> delivered (opened c g)"
    by (auto simp: group_ok_def group_shape_def)
  have old: "\<not> delivered grp \<and> grp_k grp \<noteq> 0" if "map_of (recv_groups c) g = Some grp" for grp
    using grp that k0 by (simp add: opened_def group_ok_def group_shape_def)
  define mode where "mode = (if codec_k c \<le> seq then manifest_lens ?k (take (unat data_len) (drop kHeaderSize dg))
     else (data_lens (opened c g))[unat seq := data_len])"
  have "length mode = ?k" using sh by (simp add: mode_def manifest_lens_def)
  moreover have "decode c dg = (Inr [], ready_group c g)
     \<or> slots (opened c g) ! unat seq = None \<and> (\<exists>v. decode c dg = try_deliver (put_group (ready_group c g) g
          ((opened c g)\<lparr>data_lens := mode, slots := (slots (opened c g))[unat seq := Some v],
             received := received (opened c g) + 1\<rparr>)) g)"
    using hd seq len k0 old
    by (cases "map_of (recv_groups c) g"; cases "codec_k c \<le> seq")
       (auto simp: decode_def Let_def ready_group_def opened_def empty_group_def mode_def)
  ultimately show ?thesis using us sh by auto
qed

lemma decode_total:
  assumes c: "recv_ok c"
  shows "\<exists>out c'. decode c dg = (Inr out, c') \<and> recv_ok c' \<and> same_code c' c \<and> (out = [] \<or> length out = unat (codec_k c))"
proof (cases "\<exists>g seq data_len. parse_header dg = Some (g, seq, codec_k c, codec_m c, data_len)
    \<and> \<not> seq \<ge> codec_k c + codec_m c \<and> \<not> length dg < kHeaderSize + unat data_len")
  case False
  then have "decode c dg = (Inr [], c)" by (auto simp: decode_def split: option.split)
  then show ?thesis using c by simp
next
  case True
  then obtain g seq data_len where h: "parse_header dg = Some (g, seq, codec_k c, codec_m c, data_len)"
    "\<not> seq \<ge> codec_k c + codec_m c" "\<not> length dg < kHeaderSize + unat data_len" by blast
  let ?c = "ready_group c g"
  note r = ready_group_ok [OF c, of g]
  have kk: "codec_k ?c = codec_k c" "codec_m ?c = codec_m c" using r(5) by (simp_all add: same_code_def)
  have ok: "group_ok ?c = group_ok c" "group_shape ?c = group_shape c"
    using kk by (simp_all add: fun_eq_iff group_ok_def group_shape_def)
  from decode_ready [OF c h] show ?thesis
  proof
    assume d: "decode c dg = (Inr [], ?c)"
    have "group_ok ?c grp" if "map_of (recv_groups ?c) h = Some grp" for h grp
      using r(1,3,4) that ok by (cases "h = g") (auto simp: recv_wf_def)
    then have "recv_ok ?c" using r(1,2) by (auto simp: recv_wf_def recv_ok_def)
    with d r(5) show ?thesis by simp
  next
    assume "\<exists>dl v. length dl = unat (codec_k c) \<and> unat seq < length (slots (opened c g)) \<and> slots (opened c g) ! unat seq = None
        \<and> decode c dg = try_deliver (put_group ?c g ((opened c g)\<lparr>data_lens := dl,
             slots := (slots (opened c g))[unat seq := Some v], received := received (opened c g) + 1\<rparr>)) g"
    then obtain grp where d: "decode c dg = try_deliver (put_group ?c g grp) g" and grp: "group_shape c grp"
      using group_shape_store [of c "opened c g" "unat seq"] r(4) by (auto simp: group_ok_def)
    have sh: "group_shape (put_group ?c g grp) grp" using grp kk by (simp add: group_shape_def put_group_def)
    have "g \<in> set (recv_group_order (put_group ?c g grp))" using r(2) by (simp add: put_group_def)
    from try_deliver_total [OF recv_wf_put [OF r(1)] this put_group_lookup sh] show ?thesis
      using d r(5) same_code_trans [of _ "put_group ?c g grp" c] kk by (auto simp: put_group_def)
  qed
qed

end
