(* ===== verification/Fec_Theorems.thy ===== *)
theory Fec_Theorems
  imports Fec_Robust
begin

text \<open>
  The properties of the FEC codec, stated for codecs as the constructor makes them and for
  any history of calls.
\<close>

section \<open>Histories\<close>

lemma FecCodec_Inr:
  assumes "FecCodec k m = Inr c"
  shows "codec_ok c" "codec_k c = k" "codec_m c = m" "send_ok c" "send_buf c = []" "recv_ok c" "recv_groups c = []"
proof -
  have "\<not> (unat k < 1 \<or> unat m < 1 \<or> 254 < unat k + unat m)"
    using assms FecCodec_rejects [of k m] by fastforce
  then have "1 \<le> unat k" "1 \<le> unat m" "unat k + unat m \<le> 254" by linarith+
  then show "codec_ok c" "codec_k c = k" "codec_m c = m" "send_ok c" "send_buf c = []" "recv_ok c" "recv_groups c = []"
    using FecCodec_ok [of k m] assms by (auto simp: send_ok_def recv_ok_def codec_ok_def)
qed

lemma encode_reject:
  "\<not> fits c p \<Longrightarrow> encode c p = (Inl (InvalidArgument ''FEC payload is too large for the UDP FEC frame format''), c)"
  by (simp add: encode_def fits_def)

lemma encode_fits:
  assumes "codec_ok c" "send_ok c" "fits c p"
  shows "\<exists>r c'. encode c p = (Inr r, c') \<and> same_code c' c \<and> send_ok c'"
proof (cases "Suc (length (send_buf c)) < unat (codec_k c)")
  case True
  then show ?thesis using encode_open [OF assms(2,3)] by auto
next
  case False
  then have "Suc (length (send_buf c)) = unat (codec_k c)" using assms(2) by (simp add: send_ok_def)
  then show ?thesis using encode_close [OF assms] by auto
qed

lemma send_all_inv:
  "codec_ok c \<Longrightarrow> send_ok c \<Longrightarrow> same_code (snd (send_all c ps)) c \<and> send_ok (snd (send_all c ps))"
proof (induction ps arbitrary: c)
  case (Cons p ps)
  obtain r c1 where e: "encode c p = (r, c1)" by force
  have "same_code c1 c \<and> send_ok c1"
    using encode_fits [OF Cons.prems, of p] encode_reject [of c p] Cons.prems e by (cases "fits c p") auto
  then show ?case
    using Cons.IH [of c1] Cons.prems same_code_ok [of c1 c] same_code_trans [of _ c1 c] e
    by (auto split: prod.split)
qed simp

lemma receive_all_inv:
  "recv_ok c \<Longrightarrow> recv_ok (snd (receive_all c ds)) \<and> same_code (snd (receive_all c ds)) c"
proof (induction ds arbitrary: c)
  case (Cons d ds)
  obtain out c1 where d: "decode c d = (Inr out, c1)" "recv_ok c1" "same_code c1 c"
    using decode_total [OF Cons.prems, of d] by blast
  then show ?case using Cons.IH [of c1] same_code_trans [of _ c1 c] by (auto split: prod.split)
qed simp

lemma receive_all_append:
  "receive_all c (ds @ es) = (let (rs, c1) = receive_all c ds; (ss, c2) = receive_all c1 es in (rs @ ss, c2))"
  by (induction ds arbitrary: c) (auto split: prod.split)

lemma recv_ok_bounded:
  assumes "recv_ok c"
  shows "length (recv_groups c) \<le> 256"
proof -
  have "length (recv_groups c) = card (set (map fst (recv_groups c)))"
    using assms by (metis recv_ok_def distinct_card length_map)
  also have "set (map fst (recv_groups c)) = dom (map_of (recv_groups c))"
    by (simp add: dom_map_of_conv_image_fst)
  also have "card (dom (map_of (recv_groups c))) \<le> card (set (recv_group_order c))"
    using assms by (intro card_mono) (auto simp: recv_ok_def)
  also have "\<dots> \<le> length (recv_group_order c)" by (rule card_length)
  finally show ?thesis using assms by (simp add: recv_ok_def kMaxReceiveGroups_def)
qed

lemma link_facts:
  assumes "FecCodec k m = Inr c" "length ps = unat k" "\<forall>p\<in>set ps. length p \<le> 65535 - 2 * unat k"
  shows "valid_group (snd (send_all c earlier)) ps" "codec_ok (snd (send_all c earlier))" "send_ok (snd (send_all c earlier))"
    and "codec_k (snd (send_all c earlier)) = k" "codec_m (snd (send_all c earlier)) = m"
    and "same_code (snd (receive_all c noise)) (snd (send_all c earlier))"
proof -
  note c = FecCodec_Inr [OF assms(1)]
  let ?s = "snd (send_all c earlier)"
  have s: "same_code ?s c" "send_ok ?s" using send_all_inv [OF c(1,4)] by auto
  then show "codec_ok ?s" "send_ok ?s" "codec_k ?s = k" "codec_m ?s = m"
    using c same_code_ok [OF s(1)] by (auto simp: same_code_def)
  then show "valid_group ?s ps" using assms(2,3) by (simp add: valid_group_def fits_def)
  have "same_code (snd (receive_all c noise)) c" using receive_all_inv [OF c(6)] by simp
  then show "same_code (snd (receive_all c noise)) ?s" using s(1) by (simp add: same_code_def)
qed

lemma any_k_frames_deliver:
  assumes "FecCodec k m = Inr c" "length ps = unat k" "\<forall>p\<in>set ps. length p \<le> 65535 - 2 * unat k"
    and "send_buf (snd (send_all c earlier)) = []"
    and "map_of (recv_groups (snd (receive_all c noise))) (send_group_id (snd (send_all c earlier))) = None"
    and "distinct idx" "set idx \<subseteq> {..<unat k + unat m}" "length idx = unat k"
  shows "let wire = on_wire (fst (send_all (snd (send_all c earlier)) ps)) in
         length wire = unat k + unat m
       \<and> fst (receive_all (snd (receive_all c noise)) (map ((!) wire) idx)) = replicate (unat k - 1) (Inr []) @ [Inr ps]"
proof -
  let ?s = "snd (send_all c earlier)" and ?r = "snd (receive_all c noise)" and ?g = "send_group_id (snd (send_all c earlier))"
  note f = link_facts(1-5) [OF assms(1-3), of earlier] link_facts(6) [OF assms(1-3), of noise earlier]
  obtain rs s' where s: "send_all ?s ps = (rs, s')" "on_wire rs = map (group_frame ?s ?g ps) [0..<unat k + unat m]"
    using send_group [OF f(2,3) assms(4) f(1)] f(4,5) by auto
  have r: "group_frame ?r = group_frame ?s" "valid_group ?r ps" "codec_k ?r = k" "codec_m ?r = m"
    using same_code_group_frame [OF f(6)] same_code_valid [OF f(6)] f by (auto simp: same_code_def)
  have w: "map ((!) (on_wire rs)) idx = map (group_frame ?r ?g ps) idx" "length (on_wire rs) = unat k + unat m"
    using assms(7) s(2) r(1) by auto
  have "fst (receive_all ?r (map (group_frame ?r ?g ps) idx)) = replicate (unat k - 1) (Inr []) @ [Inr ps]"
    using receive_group [OF r(2) assms(5,6)] assms(7,8) r(3,4) by auto
  then show ?thesis unfolding Let_def s(1) fst_conv using w by metis
qed

section \<open>Properties\<close>

text \<open>
  C1.  Any \<open>k\<close> of the \<open>k + m\<close> frames recover a group.  A sender at a group boundary, after
  any earlier calls, encodes \<open>k\<close> payloads of admissible size; \<open>idx\<close> picks any \<open>k\<close> different
  frames of the \<open>k + m\<close> it put on the wire, in any order.  A receiver that has decoded any
  earlier datagrams, and holds no frames under this group number, returns nothing for the
  first \<open>k - 1\<close> of them and exactly the payloads, in order, for the last.
\<close>

theorem fec_any_k_frames_deliver:
  assumes "FecCodec k m = Inr c" "length ps = unat k" "\<forall>p\<in>set ps. length p \<le> 65535 - 2 * unat k"
    and "send_buf (snd (send_all c earlier)) = []"
    and "map_of (recv_groups (snd (receive_all c noise))) (send_group_id (snd (send_all c earlier))) = None"
    and "distinct idx" "set idx \<subseteq> {..<unat k + unat m}" "length idx = unat k"
  shows "let wire = on_wire (fst (send_all (snd (send_all c earlier)) ps)) in
         length wire = unat k + unat m
       \<and> fst (receive_all (snd (receive_all c noise)) (map ((!) wire) idx)) = replicate (unat k - 1) (Inr []) @ [Inr ps]"
  by (rule any_k_frames_deliver [OF assms])

theorem fec_any_k_frames_deliver_witness:
  "\<exists>c. FecCodec 2 1 = Inr c
     \<and> fst (receive_all c (map ((!) (on_wire (fst (send_all c [[7], [1, 2, 3]])))) [2, 0])) = [Inr [], Inr [[7], [1, 2, 3]]]"
proof -
  obtain c where c: "FecCodec 2 1 = Inr c" "send_buf c = []" "recv_groups c = []"
    using FecCodec_ok [of 2 1] by auto
  have l: "Suc (Suc 0) \<le> 65531" "Suc (Suc (Suc 0)) \<le> 65531" by linarith+
  show ?thesis
    using fec_any_k_frames_deliver [OF c(1), of "[[7], [1, 2, 3]]" "[]" "[]" "[2, 0]"] c l by (auto simp: Let_def)
qed

text \<open>
  C18.  No datagram can harm the receiver.  Whatever datagrams a codec has decoded before,
  decoding any further byte string raises nothing, returns either nothing or a whole group
  of \<open>k\<close> payloads, and leaves at most 256 groups in memory, each with fewer than \<open>k\<close> frames.
\<close>

theorem fec_decode_safe_and_bounded:
  assumes "FecCodec k m = Inr c"
  shows "\<exists>out c'. decode (snd (receive_all c history)) dg = (Inr out, c')
    \<and> (out = [] \<or> length out = unat k) \<and> length (recv_groups c') \<le> 256
    \<and> (\<forall>(g, grp)\<in>set (recv_groups c'). received grp < unat k)"
proof -
  let ?c = "snd (receive_all c history)"
  have c: "recv_ok ?c" "same_code ?c c" using receive_all_inv FecCodec_Inr(6) [OF assms] by auto
  obtain out c' where d: "decode ?c dg = (Inr out, c')" "recv_ok c'" "same_code c' ?c" "out = [] \<or> length out = unat (codec_k ?c)"
    using decode_total [OF c(1)] by blast
  have k: "codec_k c' = k" "codec_k ?c = k" using c(2) d(3) FecCodec_Inr(2) [OF assms] by (auto simp: same_code_def)
  have "received grp < unat k" if "(g, grp) \<in> set (recv_groups c')" for g grp
    using that d(2) k(1) map_of_is_SomeI [of "recv_groups c'" g grp] by (auto simp: recv_ok_def group_ok_def)
  then show ?thesis using d k recv_ok_bounded [OF d(2)] by auto
qed

theorem fec_decode_safe_and_bounded_witness:
  "\<exists>c out c'. FecCodec 3 2 = Inr c \<and> decode (snd (receive_all c [[1, 2], []])) [0x4D, 0x46] = (Inr out, c')
     \<and> length (recv_groups c') \<le> 256"
proof -
  obtain c where c: "FecCodec 3 2 = Inr c" using FecCodec_ok [of 3 2] by auto
  show ?thesis using fec_decode_safe_and_bounded [OF c, of "[[1, 2], []]" "[0x4D, 0x46]"] c by blast
qed

text \<open>
  The constructor accepts exactly the configurations with at least one data packet, at
  least one parity packet and at most 254 in total; for these the matrix is built without
  a failed assertion, and the others raise \<open>invalid_argument\<close>.
\<close>

lemma fec_constructor_accepts:
  "(if 1 \<le> unat k \<and> 1 \<le> unat m \<and> unat k + unat m \<le> 254
    then \<exists>c. FecCodec k m = Inr c \<and> codec_k c = k \<and> codec_m c = m \<and> length (enc c) = unat m
    else \<exists>msg. FecCodec k m = Inl (InvalidArgument msg))"
proof (cases "1 \<le> unat k \<and> 1 \<le> unat m \<and> unat k + unat m \<le> 254")
  case True
  then show ?thesis using FecCodec_ok [of k m] by (auto simp: codec_ok_def)
next
  case False
  then have "unat k < 1 \<or> unat m < 1 \<or> 254 < unat k + unat m" by linarith
  then show ?thesis using FecCodec_rejects [of k m] False by (simp only: if_False)
qed

text \<open>
  C19.  The encoder fails only at its size check, and then changes nothing: after any
  earlier calls a payload of at most \<open>65535 - 2 k\<close> bytes is encoded, so the second
  exception, for an oversized parity payload, is never raised.
\<close>

theorem fec_encode_fails_only_on_size:
  assumes "FecCodec k m = Inr c"
  shows "(if length p \<le> 65535 - 2 * unat k then \<exists>r s'. encode (snd (send_all c earlier)) p = (Inr r, s')
    else \<exists>msg. encode (snd (send_all c earlier)) p = (Inl (InvalidArgument msg), snd (send_all c earlier)))"
proof -
  let ?s = "snd (send_all c earlier)"
  note c = FecCodec_Inr [OF assms]
  have s: "same_code ?s c" "send_ok ?s" using send_all_inv [OF c(1,4)] by auto
  have ok: "codec_ok ?s" "codec_k ?s = k" using c same_code_ok [OF s(1)] s(1) by (auto simp: same_code_def)
  then have "fits ?s p \<longleftrightarrow> length p \<le> 65535 - 2 * unat k" by (simp add: fits_def)
  then show ?thesis using encode_fits [OF ok(1) s(2), of p] encode_reject [of ?s p] by auto
qed

theorem fec_encode_fails_only_on_size_witness:
  "\<exists>c r s'. FecCodec 2 1 = Inr c \<and> encode (snd (send_all c [[1]])) [2, 3] = (Inr r, s')"
proof -
  obtain c where c: "FecCodec 2 1 = Inr c" using FecCodec_ok [of 2 1] by auto
  have "Suc (Suc 0) \<le> 65531" by linarith
  then show ?thesis using fec_encode_fails_only_on_size [OF c, of "[2, 3]" "[[1]]"] c by auto
qed

text \<open>
  C20.  A delivered group is forgotten, so it can be delivered again: two choices of \<open>k\<close>
  frames of one group, received one after the other, return the payloads twice.  The
  second choice may repeat frames of the first (duplicated datagrams) or, with at least
  as many parity as data packets, be the frames the first left over.
\<close>

theorem fec_group_delivered_twice:
  assumes "FecCodec k m = Inr c" "length ps = unat k" "\<forall>p\<in>set ps. length p \<le> 65535 - 2 * unat k"
    and "distinct idx" "set idx \<subseteq> {..<unat k + unat m}" "length idx = unat k"
    and "distinct jdx" "set jdx \<subseteq> {..<unat k + unat m}" "length jdx = unat k"
  shows "let wire = on_wire (fst (send_all c ps)) in
    fst (receive_all c (map ((!) wire) (idx @ jdx)))
      = replicate (unat k - 1) (Inr []) @ [Inr ps] @ replicate (unat k - 1) (Inr []) @ [Inr ps]"
proof -
  note c = FecCodec_Inr [OF assms(1)] and f = link_facts(1-3) [OF assms(1-3), of "[]"]
  have v: "valid_group c ps" using f(1) by simp
  obtain rs s' where s: "send_all c ps = (rs, s')" "on_wire rs = map (group_frame c (send_group_id c) ps) [0..<unat k + unat m]"
    using send_group [OF c(1,4,5) v] c(2,3) by auto
  have w: "map ((!) (on_wire rs)) xs = map (group_frame c (send_group_id c) ps) xs" if "set xs \<subseteq> {..<unat k + unat m}" for xs
    using that s(2) by auto
  obtain c1 where c1: "receive_all c (map (group_frame c (send_group_id c) ps) idx) = (replicate (unat k - 1) (Inr []) @ [Inr ps], c1)"
    "same_code c1 c" "map_of (recv_groups c1) (send_group_id c) = None"
    using receive_group [OF v _ assms(4)] assms(5,6) c by auto
  have "valid_group c1 ps" "group_frame c1 = group_frame c" "codec_k c1 = k" "codec_m c1 = m"
    using same_code_valid [OF c1(2)] same_code_group_frame [OF c1(2)] v c(2,3) c1(2) by (auto simp: same_code_def)
  then obtain c2 where "receive_all c1 (map (group_frame c (send_group_id c) ps) jdx) = (replicate (unat k - 1) (Inr []) @ [Inr ps], c2)"
    using receive_group [of c1 ps "send_group_id c" jdx] c1(3) assms(7-9) by auto
  with c1(1) show ?thesis
    unfolding Let_def s(1) fst_conv map_append w [OF assms(5)] w [OF assms(8)] by (simp add: receive_all_append)
qed

theorem fec_group_delivered_twice_witness:
  "\<exists>c. FecCodec 1 1 = Inr c
     \<and> fst (receive_all c (map ((!) (on_wire (fst (send_all c [[42]])))) ([0] @ [1]))) = [Inr [[42]], Inr [[42]]]"
proof -
  obtain c where c: "FecCodec 1 1 = Inr c" using FecCodec_ok [of 1 1] by auto
  have "Suc 0 \<le> 65533" by linarith
  then show ?thesis using fec_group_delivered_twice [OF c, of "[[42]]" "[0]" "[1]"] c by (auto simp: Let_def)
qed

text \<open>
  C21.  The frame header is parsed back field by field, and a frame is recognised, whatever
  payload follows it.
\<close>

theorem fec_header_roundtrip:
  "parse_header (make_header g seq k m len @ payload) = Some (g, seq, k, m, len)
   \<and> frame_config (make_header g seq k m len @ payload) = Some (k, m)"
  using parse_make_header [of g seq k m len payload]
  by (auto simp: frame_config_def parse_header_def split: if_splits)

text \<open>
  C22.  The logarithm tables compute the field product: for tables as the constructor
  builds them, \<open>gf_mul\<close> is the product of polynomials over GF(2) modulo \<open>0x11D\<close> (the
  shift-and-add definition \<open>gmul\<close>), and \<open>gf_inv\<close> gives the inverse of every non-zero byte.
\<close>

theorem fec_tables_compute_field:
  assumes "FecCodec k m = Inr c"
  shows "gf_mul c a b = gmul a b \<and> (a \<noteq> 0 \<longrightarrow> (\<exists>i. gf_inv c a = Some i \<and> gmul a i = 1))"
proof -
  have ok: "gf_ok c" using FecCodec_Inr(1) [OF assms] by (simp add: codec_ok_def)
  then show ?thesis using gf_mul_gmul [OF ok] gf_inv_Some [of a c] by (metis gf_inv_mul gf_mul_comm)
qed

theorem fec_tables_compute_field_witness:
  "\<exists>c. FecCodec 4 2 = Inr c \<and> gf_mul c 0x80 2 = gmul 0x80 2 \<and> (\<exists>i. gf_inv c 7 = Some i \<and> gmul 7 i = 1)"
proof -
  obtain c where c: "FecCodec 4 2 = Inr c" using FecCodec_ok [of 4 2] by auto
  show ?thesis using fec_tables_compute_field [OF c] c by auto
qed

end
