(* ===== verification/Text_Utils.thy ===== *)
theory Text_Utils
  imports Mesh_Prelude
begin

text \<open>
  The text helpers: \<^verbatim>\<open>to_hex\<close> of \<^verbatim>\<open>utils/StringUtils.cpp\<close>, which turns packet ids into map keys, and
  \<^verbatim>\<open>parse_connect_args\<close> of \<^verbatim>\<open>utils/CommandUtils.cpp\<close> with the part of \<^verbatim>\<open>std::from_chars\<close> it relies on.
\<close>

section \<open>Fresh identifiers\<close>

text \<open>
  \<^verbatim>\<open>generate_uuid_bytes\<close> and \<^verbatim>\<open>write_uuid_bytes\<close> of \<^verbatim>\<open>utils/MessageUtils.cpp\<close>; \<open>u\<close> is what the random generator returns.  The
  comparison converts the length \<open>len\<close>, an \<^verbatim>\<open>int\<close>, to the unsigned \<^verbatim>\<open>size_t\<close>.
\<close>

definition generate_uuid_bytes :: "bytes \<Rightarrow> int \<Rightarrow> bytes" where
  "generate_uuid_bytes u len = take (if nat (len mod 2 ^ 64) > length u then length u else nat len) u"

definition write_uuid_bytes :: "bytes \<Rightarrow> int \<Rightarrow> bytes \<Rightarrow> bytes" where
  "write_uuid_bytes u len out_buffer = u"

lemma generate_uuid_whole:
  assumes "length u = 16" "16 \<le> len \<or> len < 0" "- (2 ^ 31) \<le> len" "len < 2 ^ 31"
  shows "generate_uuid_bytes u len = u"
proof (cases "len < 0")
  case True
  have "len mod 2 ^ 64 = (len + 2 ^ 64) mod 2 ^ 64" by simp
  also have "\<dots> = len + 2 ^ 64" using True assms(3) by (intro mod_pos_pos_trivial) simp_all
  finally have "len mod 2 ^ 64 > 16" using assms(3) by simp
  then show ?thesis using assms(1) by (simp add: generate_uuid_bytes_def)
qed (use assms in \<open>auto simp: generate_uuid_bytes_def\<close>)

section \<open>Hexadecimal identifiers\<close>

definition hex_digit :: "nat \<Rightarrow> char" where
  "hex_digit n = ''0123456789abcdef'' ! n"

text \<open>Two digits per byte: \<^verbatim>\<open>std::setw(2)\<close> with fill character \<open>0\<close>.\<close>

definition hex_byte :: "u8 \<Rightarrow> string" where
  "hex_byte c = [hex_digit (unat c div 16), hex_digit (unat c mod 16)]"

definition to_hex :: "bytes \<Rightarrow> string" where
  "to_hex input = concat (map hex_byte input)"

lemma hex_digit_inj: "m < 16 \<Longrightarrow> n < 16 \<Longrightarrow> hex_digit m = hex_digit n \<longleftrightarrow> m = n"
  unfolding hex_digit_def by (rule nth_eq_iff_index_eq) simp_all

lemma hex_byte_inj: "hex_byte a = hex_byte b \<longleftrightarrow> a = b"
proof
  assume h: "hex_byte a = hex_byte b"
  have lt: "unat a < 256" "unat b < 256" using unsigned_less [of a, where ?'a = nat] unsigned_less [of b, where ?'a = nat] by simp_all
  have "unat a div 16 = unat b div 16" "unat a mod 16 = unat b mod 16"
    using h lt by (auto simp: hex_byte_def hex_digit_inj less_mult_imp_div_less)
  then have "unat a = unat b" by (metis div_mult_mod_eq)
  then show "a = b" by (simp add: word_unat_eq_iff)
qed simp

lemma to_hex_simps [simp]: "to_hex [] = []" "to_hex (b # bs) = hex_byte b @ to_hex bs"
  by (simp_all add: to_hex_def)

lemma hex_byte_length [simp]: "length (hex_byte b) = 2"
  by (simp add: hex_byte_def)

lemma to_hex_inj: "to_hex a = to_hex b \<longleftrightarrow> a = b"
proof (induction a arbitrary: b)
  case Nil
  then show ?case by (cases b) (auto simp: hex_byte_def)
next
  case (Cons x a)
  then show ?case
  proof (cases b)
    case (Cons y c)
    then show ?thesis using Cons.IH [of c] hex_byte_inj [of x y] by (auto simp: append_eq_append_conv)
  qed (simp add: hex_byte_def)
qed

lemma inj_to_hex: "inj to_hex"
  using to_hex_inj by (auto intro: injI)

section \<open>The connect command\<close>

definition is_digit :: "char \<Rightarrow> bool" where
  "is_digit c \<longleftrightarrow> 48 \<le> (of_char c :: nat) \<and> (of_char c :: nat) \<le> 57"

definition digit_val :: "char \<Rightarrow> int" where
  "digit_val c = of_char c - 48"

definition digits_val :: "string \<Rightarrow> int" where
  "digits_val ds = foldl (\<lambda>acc c. 10 * acc + digit_val c) 0 ds"

text \<open>
  \<^verbatim>\<open>std::from_chars(begin, end, int&)\<close> in base 10: an optional minus sign and the longest run of
  digits.  \<open>Inl\<close> is the error code, \<open>Inr\<close> the value with the unread rest.
\<close>

datatype errc = invalid_argument | result_out_of_range

definition from_chars :: "string \<Rightarrow> errc + int \<times> string" where
  "from_chars s =
     (let neg = (s \<noteq> [] \<and> hd s = CHR ''-'');
          t = (if neg then tl s else s);
          ds = takeWhile is_digit t;
          v = (if neg then - digits_val ds else digits_val ds)
      in if ds = [] then Inl invalid_argument
         else if v < - (2 ^ 31) \<or> v > 2 ^ 31 - 1 then Inl result_out_of_range
         else Inr (v, dropWhile is_digit t))"

definition parse_connect_args :: "string list \<Rightarrow> string + string \<times> int" where
  "parse_connect_args args =
     (if length args \<noteq> 2 then Inl ''Usage: connect <host> <port>''
      else let host = args ! 0 in
      if host = [] then Inl ''connect host must not be empty''
      else case from_chars (args ! 1) of
             Inl ec \<Rightarrow> Inl ''connect port must be a number''
           | Inr (port, rest) \<Rightarrow>
               if rest \<noteq> [] then Inl ''connect port must be a number''
               else if port < 1 \<or> port > 65535 then Inl ''connect port must be between 1 and 65535''
               else Inr (host, port))"

lemma digit_val_ge_0: "is_digit c \<Longrightarrow> 0 \<le> digit_val c"
  unfolding is_digit_def digit_val_def by (metis diff_ge_0_iff_ge of_nat_le_iff of_nat_numeral of_nat_of_char)

lemma digits_val_snoc: "digits_val (ds @ [c]) = 10 * digits_val ds + digit_val c"
  by (simp add: digits_val_def)

lemma digits_val_ge_0: "\<forall>c\<in>set ds. is_digit c \<Longrightarrow> 0 \<le> digits_val ds"
  by (induction ds rule: rev_induct) (auto simp: digits_val_snoc digit_val_ge_0, simp add: digits_val_def)

lemma minus_no_digit: "\<not> is_digit (CHR ''-'')"
  by (simp add: is_digit_def)

lemma dropWhile_nil: "dropWhile P xs = [] \<longleftrightarrow> (\<forall>x\<in>set xs. P x)"
  by (induction xs) auto

lemma from_chars_digits:
  assumes "s \<noteq> []" "\<forall>c\<in>set s. is_digit c" "digits_val s \<le> 65535"
  shows "from_chars s = Inr (digits_val s, [])"
proof -
  have "hd s \<noteq> CHR ''-''" using assms(1,2) minus_no_digit by (metis hd_in_set)
  moreover have w: "takeWhile is_digit s = s" "dropWhile is_digit s = []"
    using assms(2) by (auto simp: takeWhile_eq_all_conv dropWhile_nil)
  ultimately show ?thesis using assms(1,3) digits_val_ge_0 [OF assms(2)] by (simp add: from_chars_def Let_def w)
qed

lemma from_chars_positive:
  assumes "from_chars s = Inr (p, [])" "1 \<le> p"
  shows "s \<noteq> [] \<and> (\<forall>c\<in>set s. is_digit c) \<and> p = digits_val s"
proof -
  have neg: "\<not> (s \<noteq> [] \<and> hd s = CHR ''-'')"
  proof
    assume n: "s \<noteq> [] \<and> hd s = CHR ''-''"
    then have "p = - digits_val (takeWhile is_digit (tl s))"
      using assms(1) by (auto simp: from_chars_def Let_def split: if_splits)
    moreover have "0 \<le> digits_val (takeWhile is_digit (tl s))"
      by (rule digits_val_ge_0) (auto dest: set_takeWhileD)
    ultimately show False using assms(2) by simp
  qed
  then have "takeWhile is_digit s \<noteq> []" "p = digits_val (takeWhile is_digit s)" "dropWhile is_digit s = []"
    using assms(1) by (auto simp: from_chars_def Let_def split: if_splits)
  moreover from this(3) have "takeWhile is_digit s = s" by (metis append_Nil2 takeWhile_dropWhile_id)
  ultimately show ?thesis by (auto simp: dropWhile_nil)
qed

section \<open>Decimal numbers\<close>

text \<open>\<^verbatim>\<open>std::to_string\<close>\<close>

fun nat_text :: "nat \<Rightarrow> string" where
  "nat_text n = (if n < 10 then [char_of (48 + n)] else nat_text (n div 10) @ [char_of (48 + n mod 10)])"

declare nat_text.simps [simp del]

definition to_string :: "int \<Rightarrow> string" where
  "to_string i = (if i < 0 then ''-'' @ nat_text (nat (- i)) else nat_text (nat i))"

lemma digit_char: "d < 10 \<Longrightarrow> is_digit (char_of (48 + d :: nat)) \<and> digit_val (char_of (48 + d :: nat)) = int d"
proof -
  assume d: "d < 10"
  then have o: "(of_char (char_of (48 + d :: nat) :: char) :: nat) = 48 + d" by simp
  then have "(of_char (char_of (48 + d :: nat) :: char) :: int) = 48 + int d" by (metis of_nat_add of_nat_numeral of_nat_of_char)
  then show ?thesis using o d by (simp add: is_digit_def digit_val_def)
qed

lemma nat_text_digits: "c \<in> set (nat_text n) \<Longrightarrow> is_digit c"
proof (induction n rule: nat_text.induct)
  case (1 n)
  then show ?case using digit_char by (subst (asm) nat_text.simps) (auto split: if_splits)
qed

lemma digits_val_nat_text: "digits_val (nat_text n) = int n"
proof (induction n rule: nat_text.induct)
  case (1 n)
  show ?case
  proof (cases "n < 10")
    case True
    then show ?thesis using digit_char [of n] by (subst nat_text.simps) (simp add: digits_val_def)
  next
    case False
    then have "digits_val (nat_text n) = 10 * int (n div 10) + int (n mod 10)"
      using 1 digit_char [of "n mod 10"] by (subst nat_text.simps) (simp add: digits_val_snoc)
    then show ?thesis by (metis mult_div_mod_eq of_nat_add of_nat_mult of_nat_numeral)
  qed
qed

lemma nat_text_inj [simp]: "nat_text m = nat_text n \<longleftrightarrow> m = n"
  by (metis digits_val_nat_text of_nat_eq_iff)

lemma separator_no_digit: "\<not> is_digit (CHR '':'')" "\<not> is_digit (CHR ''/'')"
  by (simp_all add: is_digit_def)

text \<open>A number after a separator can be read off from the right.\<close>

lemma suffix_number_inj:
  assumes "a @ sep # nat_text m = b @ sep # nat_text n" "\<not> is_digit sep"
  shows "a = b \<and> m = n"
proof -
  have ns: "sep \<notin> set (nat_text k)" for k using assms(2) nat_text_digits by blast
  have "takeWhile (\<lambda>c. c \<noteq> sep) (rev (x @ sep # nat_text k)) = rev (nat_text k)" for x k
    using ns [of k] by (subst rev_append, subst rev.simps) (simp add: takeWhile_append takeWhile_eq_all_conv)
  then have "rev (nat_text m) = rev (nat_text n)" using assms(1) by metis
  then have "m = n" by simp
  then show ?thesis using assms(1) by simp
qed

text \<open>
  C35.  Exactly the intended commands are accepted: \<^verbatim>\<open>connect\<close> takes a non-empty host and a
  port written in decimal digits only, with a value between 1 and 65535, and returns both
  unchanged; every other argument list is an error.
\<close>

theorem connect_args_accepted:
  "parse_connect_args args = Inr (host, port) \<longleftrightarrow>
     (\<exists>ds. args = [host, ds] \<and> host \<noteq> [] \<and> ds \<noteq> [] \<and> list_all is_digit ds
       \<and> port = digits_val ds \<and> port \<in> {1..65535})"
  (is "?L \<longleftrightarrow> ?R")
proof
  assume l: ?L
  then have "length args = 2" by (auto simp: parse_connect_args_def split: if_splits)
  then obtain h ds where a: "args = [h, ds]" by (auto simp: length_Suc_conv numeral_2_eq_2)
  with l have "from_chars ds = Inr (port, [])" "h = host" "host \<noteq> []" "1 \<le> port" "port \<le> 65535"
    by (auto simp: parse_connect_args_def Let_def split: if_splits sum.splits)
  then show ?R using a from_chars_positive [of ds port] by (auto simp: list_all_iff)
next
  assume ?R
  then show ?L using from_chars_digits by (auto simp: parse_connect_args_def list_all_iff)
qed

end
