(* ===== verification/Packets.thy ===== *)
theory Packets
  imports Text_Utils
begin

text \<open>
  The messages: the protobuf types of \<^verbatim>\<open>proto/envelope.proto\<close> and \<^verbatim>\<open>proto/packet.proto\<close> as records
  and the constructors of \<^verbatim>\<open>proto_types/EnvelopeUtils.cpp\<close> and \<^verbatim>\<open>proto_types/RoutedPacketUtils.cpp\<close>.

  A message whose fields are unset is the default instance, as in proto3.  The enumerations
  of proto3 are open: a value read from the wire that has no name stays as it is, which the
  extra constructors represent.  Wire formats are not code of the repository: serialisation,
  parsing and the random UUID generator are the fields of \<open>mesh_lib\<close>, an argument of every
  definition that uses them.
\<close>

section \<open>Envelopes\<close>

datatype envelope_type = HANDSHAKE | HEARTBEAT | DATA | EnvelopeOther int

record peer_ip =
  ip :: string
  tcp_port :: int
  udp_port :: int

record peer_record =
  rec_peer_id :: peer_id
  rec_peer_ip :: peer_ip

record handshake =
  proto_version :: string
  hs_peer_record :: peer_record

record envelope =
  msg_id :: bytes
  env_from :: peer_ip
  env_to :: peer_ip
  env_type :: envelope_type
  env_payload :: bytes
  env_expect_response :: bool

definition default_ip :: peer_ip where
  "default_ip = \<lparr>ip = [], tcp_port = 0, udp_port = 0\<rparr>"

definition default_envelope :: envelope where
  "default_envelope = \<lparr>msg_id = [], env_from = default_ip, env_to = default_ip, env_type = HANDSHAKE,
     env_payload = [], env_expect_response = False\<rparr>"

section \<open>Routed packets\<close>

datatype transport_protocol = TCP | UDP | TransportOther int

datatype packet_type = ROUTING_UPDATE | TEXT | BINARY | PacketOther int

type_synonym route_costs = "(peer_id \<times> u32) list"

datatype payload_variant = NoPayload | TextPayload string | RouteTable route_costs | BinaryData bytes
  | EncryptedPayload bytes

record routed_packet =
  pkt_id :: bytes
  from_peer_id :: peer_id
  to_peer_id :: peer_id
  ttl :: u32
  pkt_type :: packet_type
  transport :: transport_protocol
  subtype :: string
  expect_response :: bool
  signature :: bytes
  encrypted_session_key :: bytes
  payload_variant :: payload_variant

definition default_packet :: routed_packet where
  "default_packet = \<lparr>pkt_id = [], from_peer_id = [], to_peer_id = [], ttl = 0, pkt_type = ROUTING_UPDATE,
     transport = TCP, subtype = [], expect_response = False, signature = [], encrypted_session_key = [],
     payload_variant = NoPayload\<rparr>"

text \<open>The accessors of the \<open>oneof\<close>: another variant reads as the default value.\<close>

definition route_table :: "routed_packet \<Rightarrow> route_costs" where
  "route_table p = (case payload_variant p of RouteTable t \<Rightarrow> t | _ \<Rightarrow> [])"

definition binary_data :: "routed_packet \<Rightarrow> bytes" where
  "binary_data p = (case payload_variant p of BinaryData b \<Rightarrow> b | _ \<Rightarrow> [])"

definition encrypted_payload :: "routed_packet \<Rightarrow> bytes" where
  "encrypted_payload p = (case payload_variant p of EncryptedPayload b \<Rightarrow> b | _ \<Rightarrow> [])"

definition has_encrypted_payload :: "routed_packet \<Rightarrow> bool" where
  "has_encrypted_payload p = (case payload_variant p of EncryptedPayload b \<Rightarrow> True | _ \<Rightarrow> False)"

text \<open>What the program uses of protobuf and of the UUID generator.  \<open>uuid n\<close> is the \<open>n\<close>th draw.\<close>

record mesh_lib =
  packet_bytes :: "routed_packet \<Rightarrow> bytes"
  parse_packet :: "bytes \<Rightarrow> routed_packet option"
  envelope_bytes :: "envelope \<Rightarrow> bytes"
  parse_envelope :: "bytes \<Rightarrow> envelope option"
  handshake_bytes :: "handshake \<Rightarrow> bytes"
  parse_handshake :: "bytes \<Rightarrow> handshake option"
  uuid :: "nat \<Rightarrow> bytes"

section \<open>Constructors of envelopes\<close>

text \<open>The argument \<open>u\<close> of a constructor is the UUID it draws.\<close>

definition MeshVersion :: string where
  "MeshVersion = ''1.0.0''"

definition MakePeerIP :: "string \<Rightarrow> int \<Rightarrow> int \<Rightarrow> peer_ip" where
  "MakePeerIP addr tcp udp = \<lparr>ip = addr, tcp_port = tcp, udp_port = udp\<rparr>"

definition MakeCustomText :: "bytes \<Rightarrow> peer_ip \<Rightarrow> peer_ip \<Rightarrow> bytes \<Rightarrow> envelope" where
  "MakeCustomText u from to payload = default_envelope\<lparr>env_from := from, env_to := to, msg_id := u,
     env_payload := payload, env_type := DATA, env_expect_response := False\<rparr>"

definition handshake_for :: "peer_ip \<Rightarrow> peer_id \<Rightarrow> handshake" where
  "handshake_for from peer = \<lparr>proto_version = MeshVersion,
     hs_peer_record = \<lparr>rec_peer_id = peer, rec_peer_ip = from\<rparr>\<rparr>"

definition MakeHandshakeRequest :: "mesh_lib \<Rightarrow> bytes \<Rightarrow> peer_ip \<Rightarrow> peer_ip \<Rightarrow> peer_id \<Rightarrow> envelope" where
  "MakeHandshakeRequest L u from to peer = default_envelope\<lparr>msg_id := u, env_from := from, env_to := to,
     env_type := HANDSHAKE, env_payload := handshake_bytes L (handshake_for from peer), env_expect_response := True\<rparr>"

definition MakeHandshakeResponse :: "mesh_lib \<Rightarrow> bytes \<Rightarrow> peer_ip \<Rightarrow> peer_ip \<Rightarrow> peer_id \<Rightarrow> envelope" where
  "MakeHandshakeResponse L u from to peer = default_envelope\<lparr>env_from := from, env_to := to, msg_id := u,
     env_type := HANDSHAKE, env_payload := handshake_bytes L (handshake_for from peer), env_expect_response := False\<rparr>"

definition MakeHeartbeatRequest :: "bytes \<Rightarrow> peer_ip \<Rightarrow> peer_ip \<Rightarrow> envelope" where
  "MakeHeartbeatRequest u from to = default_envelope\<lparr>msg_id := u, env_from := from, env_to := to,
     env_payload := [], env_type := HEARTBEAT, env_expect_response := True\<rparr>"

definition MakeHeartbeatResponse :: "bytes \<Rightarrow> peer_ip \<Rightarrow> peer_ip \<Rightarrow> envelope" where
  "MakeHeartbeatResponse u from to = default_envelope\<lparr>msg_id := u, env_from := from, env_to := to,
     env_payload := [], env_type := HEARTBEAT, env_expect_response := False\<rparr>"

definition MakeGenericData :: "bytes \<Rightarrow> bytes \<Rightarrow> envelope" where
  "MakeGenericData u payload = default_envelope\<lparr>msg_id := u, env_payload := payload, env_type := DATA,
     env_expect_response := False\<rparr>"

section \<open>Constructors of routed packets\<close>

definition decodeRoutedPacket :: "mesh_lib \<Rightarrow> bytes \<Rightarrow> routed_packet option" where
  "decodeRoutedPacket L payload = parse_packet L payload"

definition MakeTextRoutedPacket :: "bytes \<Rightarrow> peer_id \<Rightarrow> peer_id \<Rightarrow> u32 \<Rightarrow> string \<Rightarrow> bool \<Rightarrow> routed_packet" where
  "MakeTextRoutedPacket u from to hops payload expect = default_packet\<lparr>pkt_id := u, from_peer_id := from,
     to_peer_id := to, ttl := hops, pkt_type := TEXT, payload_variant := TextPayload payload,
     expect_response := expect\<rparr>"

definition MakeBinaryRoutedPacket :: "bytes \<Rightarrow> peer_id \<Rightarrow> peer_id \<Rightarrow> u32 \<Rightarrow> string \<Rightarrow> transport_protocol
    \<Rightarrow> bytes \<Rightarrow> bool \<Rightarrow> routed_packet" where
  "MakeBinaryRoutedPacket u from to hops sub proto raw expect = default_packet\<lparr>pkt_id := u, from_peer_id := from,
     to_peer_id := to, ttl := hops, pkt_type := BINARY, subtype := sub, transport := proto,
     payload_variant := BinaryData raw, expect_response := expect\<rparr>"

definition MakeRoutingTableRoutedPacket :: "bytes \<Rightarrow> peer_id \<Rightarrow> peer_id \<Rightarrow> u32 \<Rightarrow> route_costs \<Rightarrow> routed_packet" where
  "MakeRoutingTableRoutedPacket u from to hops rt = default_packet\<lparr>pkt_id := u, from_peer_id := from,
     to_peer_id := to, ttl := hops, pkt_type := ROUTING_UPDATE, payload_variant := RouteTable rt\<rparr>"

end
