(* ===== verification/Dedup_Set.thy ===== *)
theory Dedup_Set
  imports Mesh_Prelude
begin

text \<open>
  \<^verbatim>\<open>TimedDedupSet\<close> of \<^verbatim>\<open>utils/DedeupSet.h\<close>: a set of keys with the queue of their insertion times, from
  which old keys are dropped by \<open>cleanup\<close>.  Every operation takes its lock for its whole body,
  so operations are atomic.  The clock reading is the argument \<open>now\<close>.

  \<open>seen_set\<close> is the contract a client relies on to let every key pass once.
\<close>

record 'k timed_dedup =
  max_age :: time_ms
  key_set :: "'k set"
  time_queue :: "(time_ms \<times> 'k) list"

definition new_dedup :: "time_ms \<Rightarrow> 'k timed_dedup" where
  "new_dedup age = \<lparr>max_age = age, key_set = {}, time_queue = []\<rparr>"

definition dedup_insert :: "time_ms \<Rightarrow> 'k \<Rightarrow> 'k timed_dedup \<Rightarrow> bool \<times> 'k timed_dedup" where
  "dedup_insert now v d =
     (if v \<in> key_set d then (False, d)
      else (True, d\<lparr>key_set := insert v (key_set d), time_queue := time_queue d @ [(now, v)]\<rparr>))"

definition dedup_contains :: "'k timed_dedup \<Rightarrow> 'k \<Rightarrow> bool" where
  "dedup_contains d v \<longleftrightarrow> v \<in> key_set d"

fun drop_expired :: "time_ms \<Rightarrow> time_ms \<Rightarrow> (time_ms \<times> 'k) list \<Rightarrow> 'k set \<Rightarrow> (time_ms \<times> 'k) list \<times> 'k set" where
  "drop_expired age now [] S = ([], S)"
| "drop_expired age now ((t, v) # q) S =
     (if now - t > age then drop_expired age now q (S - {v}) else ((t, v) # q, S))"

definition dedup_cleanup :: "time_ms \<Rightarrow> 'k timed_dedup \<Rightarrow> 'k timed_dedup" where
  "dedup_cleanup now d =
     (let (q, S) = drop_expired (max_age d) now (time_queue d) (key_set d)
      in d\<lparr>time_queue := q, key_set := S\<rparr>)"

definition dedup_size :: "'k timed_dedup \<Rightarrow> nat" where
  "dedup_size d = card (key_set d)"

definition dedup_clear :: "'k timed_dedup \<Rightarrow> 'k timed_dedup" where
  "dedup_clear d = d\<lparr>key_set := {}, time_queue := []\<rparr>"

section \<open>Invariant\<close>

text \<open>The queue lists the keys of the set once each, oldest first, none inserted after \<open>now\<close>.\<close>

definition dedup_ok :: "time_ms \<Rightarrow> 'k timed_dedup \<Rightarrow> bool" where
  "dedup_ok now d \<longleftrightarrow> key_set d = snd ` set (time_queue d) \<and> distinct (map snd (time_queue d))
     \<and> sorted (map fst (time_queue d)) \<and> (\<forall>(t, v)\<in>set (time_queue d). t \<le> now)"

lemma dedup_insert_max_age [simp]: "max_age (snd (dedup_insert t v d)) = max_age d"
  by (simp add: dedup_insert_def)

lemma new_dedup_ok: "dedup_ok now (new_dedup age)"
  by (simp add: dedup_ok_def new_dedup_def)

lemma dedup_ok_later: "dedup_ok now d \<Longrightarrow> now \<le> later \<Longrightarrow> dedup_ok later d"
  by (force simp: dedup_ok_def)

lemma dedup_insert_ok: "dedup_ok now d \<Longrightarrow> dedup_ok now (snd (dedup_insert now v d))"
  by (force simp: dedup_ok_def dedup_insert_def sorted_append image_iff)

lemma drop_expired_eq:
  assumes "distinct (map snd q)" "S = A \<union> snd ` set q" "A \<inter> snd ` set q = {}"
  shows "drop_expired age now q S = (dropWhile (\<lambda>(t, v). now - t > age) q,
            A \<union> snd ` set (dropWhile (\<lambda>(t, v). now - t > age) q))"
  using assms
proof (induction q arbitrary: S)
  case (Cons e q)
  obtain t v where e: "e = (t, v)" by force
  have "S - {v} = A \<union> snd ` set q" using Cons.prems e by auto
  then show ?case using Cons.IH [of "S - {v}"] Cons.prems e by simp
qed simp

lemma dedup_cleanup_eq:
  assumes "dedup_ok now d"
  shows "dedup_cleanup now d = d\<lparr>time_queue := dropWhile (\<lambda>(t, v). now - t > max_age d) (time_queue d),
           key_set := snd ` set (dropWhile (\<lambda>(t, v). now - t > max_age d) (time_queue d))\<rparr>"
  using assms drop_expired_eq [of "time_queue d" "key_set d" "{}" "max_age d" now]
  by (simp add: dedup_cleanup_def dedup_ok_def)

lemma dropWhile_sorted:
  assumes "sorted (map fst q)"
  shows "set (dropWhile (\<lambda>(t, v). now - t > (age :: int)) q) = {(t, v) \<in> set q. now - t \<le> age}"
  using assms
proof (induction q)
  case (Cons e q)
  obtain t v where e: "e = (t, v)" by force
  show ?case
  proof (cases "now - t > age")
    case True
    then show ?thesis using Cons e by auto
  next
    case False
    then have "\<forall>(u, w)\<in>set q. now - u \<le> age" using Cons.prems e by (fastforce simp: not_less)
    then show ?thesis using False e by auto
  qed
qed simp

lemma dedup_cleanup_contains:
  assumes "dedup_ok now d"
  shows "dedup_contains (dedup_cleanup now d) v \<longleftrightarrow> (\<exists>t. (t, v) \<in> set (time_queue d) \<and> now - t \<le> max_age d)"
  using assms dropWhile_sorted [of "time_queue d", where now = now and age = "max_age d"]
  by (force simp: dedup_cleanup_eq dedup_contains_def dedup_ok_def image_iff)

lemma dedup_cleanup_ok:
  assumes "dedup_ok now d"
  shows "dedup_ok now (dedup_cleanup now d)"
proof -
  let ?q = "dropWhile (\<lambda>(t, v). now - t > max_age d) (time_queue d)"
  have s: "\<exists>p. time_queue d = p @ ?q" by (metis takeWhile_dropWhile_id)
  then have "distinct (map snd ?q)" "sorted (map fst ?q)" "set ?q \<subseteq> set (time_queue d)"
    using assms by (auto simp: dedup_ok_def sorted_append dest: set_dropWhileD) (metis distinct_append map_append sorted_append)+
  then show ?thesis using assms by (auto simp: dedup_cleanup_eq dedup_ok_def)
qed

section \<open>The contract: every key passes once\<close>

locale seen_set =
  fixes mem :: "'s \<Rightarrow> 'k \<Rightarrow> bool" and ins :: "time_ms \<Rightarrow> 'k \<Rightarrow> 's \<Rightarrow> 's"
  assumes mem_ins: "mem (ins t k s) k' \<longleftrightarrow> k' = k \<or> mem s k'"
begin

text \<open>The keys a client lets pass that checks membership and then inserts.\<close>

fun admit :: "'s \<Rightarrow> (time_ms \<times> 'k) list \<Rightarrow> 'k list \<times> 's" where
  "admit s [] = ([], s)"
| "admit s ((t, k) # es) =
     (if mem s k then admit s es
      else let (ks, s') = admit (ins t k s) es in (k # ks, s'))"

lemma admit_once: "distinct (fst (admit s es)) \<and> set (fst (admit s es)) = {k \<in> snd ` set es. \<not> mem s k}"
proof (induction es arbitrary: s)
  case (Cons e es)
  obtain t k where e: "e = (t, k)" by force
  show ?case
    using Cons.IH [of s] Cons.IH [of "ins t k s"] e by (force simp: mem_ins split: prod.split)
qed simp

lemma admit_mem: "mem (snd (admit s es)) k \<longleftrightarrow> mem s k \<or> k \<in> snd ` set es"
proof (induction es arbitrary: s)
  case (Cons e es)
  obtain t k where e: "e = (t, k)" by force
  show ?case
    using Cons.IH [of s] Cons.IH [of "ins t k s"] e by (auto simp: mem_ins split: prod.split)
qed simp

end

interpretation dedup: seen_set dedup_contains "\<lambda>t k d. snd (dedup_insert t k d)"
  by unfold_locales (auto simp: dedup_contains_def dedup_insert_def)

lemmas dedup_contains_insert [simp] = dedup.mem_ins

section \<open>Properties\<close>

text \<open>A history of insertions and cleanups with the times at which they happen.\<close>

datatype 'k dedup_op = Insert 'k | Cleanup

fun apply_op :: "'k timed_dedup \<Rightarrow> time_ms \<times> 'k dedup_op \<Rightarrow> 'k timed_dedup" where
  "apply_op d (t, Insert v) = snd (dedup_insert t v d)"
| "apply_op d (t, Cleanup) = dedup_cleanup t d"

definition run_ops :: "time_ms \<Rightarrow> (time_ms \<times> 'k dedup_op) list \<Rightarrow> 'k timed_dedup" where
  "run_ops age ops = foldl apply_op (new_dedup age) ops"

lemma apply_op_ok: "dedup_ok t d \<Longrightarrow> dedup_ok t (apply_op d (t, p))"
  by (cases p) (simp_all add: dedup_insert_ok dedup_cleanup_ok)

lemma apply_op_max_age [simp]: "max_age (apply_op d e) = max_age d"
  by (cases "(d, e)" rule: apply_op.cases) (auto simp: dedup_insert_def dedup_cleanup_def split: prod.split)

lemma apply_op_queue:
  assumes "dedup_ok t d"
  shows "set (time_queue (apply_op d (t, p))) \<subseteq> set (time_queue d) \<union> {(t, v) |v. p = Insert v}"
  using assms by (cases p) (auto simp: dedup_insert_def dedup_cleanup_eq dest: set_dropWhileD)

lemma apply_op_keeps:
  assumes "dedup_ok t d" "(u, v) \<in> set (time_queue d)" "t - u \<le> max_age d"
  shows "(u, v) \<in> set (time_queue (apply_op d (t, p)))"
  using assms dropWhile_sorted [of "time_queue d", where now = t and age = "max_age d"]
  by (cases p) (auto simp: dedup_insert_def dedup_cleanup_eq dedup_ok_def)

lemma run_ops_ok:
  assumes "sorted (map fst ops)" "\<forall>e\<in>set ops. fst e \<le> now"
  shows "dedup_ok now (run_ops age ops) \<and> max_age (run_ops age ops) = age
    \<and> (\<forall>(t, v)\<in>set (time_queue (run_ops age ops)). (t, Insert v) \<in> set ops)"
  using assms
proof (induction ops arbitrary: now rule: rev_induct)
  case Nil
  show ?case by (simp add: run_ops_def new_dedup_ok) (simp add: new_dedup_def)
next
  case (snoc e ops)
  obtain t p where e: "e = (t, p)" by force
  let ?d = "run_ops age ops"
  have ih: "dedup_ok t ?d" "max_age ?d = age" "\<forall>(t, v)\<in>set (time_queue ?d). (t, Insert v) \<in> set ops"
    using snoc.IH [of t] snoc.prems e by (auto simp: sorted_append)
  have "run_ops age (ops @ [e]) = apply_op ?d (t, p)" by (simp add: run_ops_def e)
  moreover have "dedup_ok now (apply_op ?d (t, p))"
    using apply_op_ok [OF ih(1)] snoc.prems(2) e by (auto intro: dedup_ok_later)
  ultimately show ?case using ih apply_op_queue [OF ih(1), of p] e by fastforce
qed

lemma run_ops_keeps:
  assumes "dedup_ok t d" "(u, v) \<in> set (time_queue d)" "sorted (t # map fst ops)" "\<forall>e\<in>set ops. fst e - u \<le> max_age d"
  shows "(u, v) \<in> set (time_queue (foldl apply_op d ops)) \<and> (\<exists>now. dedup_ok now (foldl apply_op d ops))"
  using assms
proof (induction ops arbitrary: d t)
  case (Cons e ops)
  obtain s p where e: "e = (s, p)" by force
  have ok: "dedup_ok s d" using Cons.prems(1,3) e by (auto intro: dedup_ok_later)
  have "(u, v) \<in> set (time_queue (apply_op d (s, p)))"
    using apply_op_keeps [OF ok Cons.prems(2)] Cons.prems(4) e by simp
  then show ?case
    using Cons.IH [OF apply_op_ok [OF ok]] Cons.prems(3,4) e by simp
qed auto

text \<open>
  C33.  The duplicate filter remembers a key for \<open>max_age\<close> and no longer.  In any history with
  a clock that does not run backwards: a key inserted while absent is still contained as
  long as no operation happens more than \<open>max_age\<close> after that insertion; and right after a
  cleanup at time \<open>T\<close> every contained key was inserted at most \<open>max_age\<close> before \<open>T\<close>.
\<close>

theorem dedup_remembers_for_max_age:
  fixes v :: 'k
  shows "(sorted (map fst (before @ (t, Insert v) # after)) \<and> \<not> dedup_contains (run_ops age before) v
      \<and> 0 \<le> age \<and> (\<forall>e\<in>set after. fst e - t \<le> age)
      \<longrightarrow> dedup_contains (run_ops age (before @ (t, Insert v) # after)) v)
    \<and> (sorted (map fst (before @ [(T, Cleanup)])) \<and> dedup_contains (run_ops age (before @ [(T, Cleanup)])) v
      \<longrightarrow> (\<exists>u. (u, Insert v) \<in> set before \<and> T - u \<le> age))"
proof (intro conjI impI)
  assume a: "sorted (map fst (before @ (t, Insert v) # after)) \<and> \<not> dedup_contains (run_ops age before) v
      \<and> 0 \<le> age \<and> (\<forall>e\<in>set after. fst e - t \<le> age)"
  let ?d = "run_ops age before"
  have d: "dedup_ok t ?d" "max_age ?d = age" using a run_ops_ok [of before t age] by (auto simp: sorted_append)
  have "(t, v) \<in> set (time_queue (apply_op ?d (t, Insert v)))"
    using a by (simp add: dedup_insert_def dedup_contains_def)
  from run_ops_keeps [OF apply_op_ok [OF d(1)] this, of after] a d(2)
  have "(t, v) \<in> set (time_queue (run_ops age (before @ (t, Insert v) # after)))
      \<and> (\<exists>now. dedup_ok now (run_ops age (before @ (t, Insert v) # after)))"
    by (simp add: run_ops_def sorted_append)
  then show "dedup_contains (run_ops age (before @ (t, Insert v) # after)) v"
    by (force simp: dedup_contains_def dedup_ok_def)
next
  assume a: "sorted (map fst (before @ [(T, Cleanup)])) \<and> dedup_contains (run_ops age (before @ [(T, Cleanup)])) v"
  let ?d = "run_ops age before"
  have d: "dedup_ok T ?d" "max_age ?d = age" "\<forall>(t, v)\<in>set (time_queue ?d). (t, Insert v) \<in> set before"
    using a run_ops_ok [of before T age] by (auto simp: sorted_append)
  have "dedup_contains (dedup_cleanup T ?d) v" using a by (simp add: run_ops_def)
  then show "\<exists>u. (u, Insert v) \<in> set before \<and> T - u \<le> age"
    using d dedup_cleanup_contains [OF d(1), of v] by auto
qed

theorem dedup_remembers_for_max_age_witness:
  "dedup_contains (run_ops 30000 ([(0, Insert ''a'')] @ (10, Insert ''b'') # [(30010, Cleanup)])) ''b''"
  using dedup_remembers_for_max_age [of "[(0, Insert ''a'')]" 10 "''b''" "[(30010, Cleanup)]" 30000 0]
  by (simp add: run_ops_def new_dedup_def dedup_insert_def dedup_contains_def)

end
