(* ===== verification/Thread_Queue.thy ===== *)
theory Thread_Queue
  imports Mesh_Prelude
begin

text \<open>
  \<^verbatim>\<open>ThreadSafeQueue\<close> of \<^verbatim>\<open>utils/ThreadSafeQueue.h\<close>.  Each method holds the lock for its whole body, so
  it is one atomic step; a waiting \<open>pop\<close> or \<open>pop_for\<close> is modelled at the moment its condition
  variable lets it go on (or times out).  \<open>fifo\<close> is the contract of the queue.
\<close>

record 'a thread_queue =
  queue :: "'a list"
  stop_requested :: bool

definition new_queue :: "'a thread_queue" where
  "new_queue = \<lparr>queue = [], stop_requested = False\<rparr>"

definition push :: "'a \<Rightarrow> 'a thread_queue \<Rightarrow> 'a thread_queue" where
  "push v q = q\<lparr>queue := queue q @ [v]\<rparr>"

text \<open>\<open>None\<close>: the caller keeps waiting.\<close>

definition pop :: "'a thread_queue \<Rightarrow> ('a option \<times> 'a thread_queue) option" where
  "pop q = (if \<not> (queue q \<noteq> [] \<or> stop_requested q) then None
     else if stop_requested q \<and> queue q = [] then Some (None, q)
     else Some (Some (hd (queue q)), q\<lparr>queue := tl (queue q)\<rparr>))"

text \<open>The predicate of \<^verbatim>\<open>wait_for\<close> is evaluated when the wait ends.\<close>

definition pop_for :: "'a thread_queue \<Rightarrow> 'a option \<times> 'a thread_queue" where
  "pop_for q =
     (let success = (queue q \<noteq> [] \<or> stop_requested q) in
      if stop_requested q \<and> queue q = [] then (None, q)
      else if \<not> success then (None, q)
      else (Some (hd (queue q)), q\<lparr>queue := tl (queue q)\<rparr>))"

definition queue_empty :: "'a thread_queue \<Rightarrow> bool" where
  "queue_empty q \<longleftrightarrow> queue q = []"

definition queue_size :: "'a thread_queue \<Rightarrow> nat" where
  "queue_size q = length (queue q)"

definition queue_stop :: "'a thread_queue \<Rightarrow> 'a thread_queue" where
  "queue_stop q = q\<lparr>stop_requested := True\<rparr>"

section \<open>The contract\<close>

text \<open>Any number of threads use the queue; the lock makes their calls one sequence.  The results of the pops are collected.\<close>

datatype 'a queue_op = Push 'a | Pop | Stop

fun run_queue :: "('a \<Rightarrow> 'q \<Rightarrow> 'q) \<Rightarrow> ('q \<Rightarrow> 'a option \<times> 'q) \<Rightarrow> ('q \<Rightarrow> 'q) \<Rightarrow> 'a queue_op list \<Rightarrow> 'q \<Rightarrow> 'a option list \<times> 'q" where
  "run_queue enq deq halt [] q = ([], q)"
| "run_queue enq deq halt (Push v # ops) q = run_queue enq deq halt ops (enq v q)"
| "run_queue enq deq halt (Pop # ops) q = (let (r, q) = deq q; (rs, q) = run_queue enq deq halt ops q in (r # rs, q))"
| "run_queue enq deq halt (Stop # ops) q = run_queue enq deq halt ops (halt q)"

fun pushed :: "'a queue_op list \<Rightarrow> 'a list" where
  "pushed [] = []"
| "pushed (Push v # ops) = v # pushed ops"
| "pushed (_ # ops) = pushed ops"

fun popped :: "'a option list \<Rightarrow> 'a list" where
  "popped [] = []"
| "popped (None # rs) = popped rs"
| "popped (Some v # rs) = v # popped rs"

text \<open>The plain queue of values, as the specification.\<close>

definition front :: "'a list \<Rightarrow> 'a option \<times> 'a list" where
  "front vs = (case vs of [] \<Rightarrow> (None, []) | v # vs \<Rightarrow> (Some v, vs))"

lemma front_simps [simp]: "front [] = (None, [])" "front (v # vs) = (Some v, vs)"
  by (simp_all add: front_def)

locale fifo =
  fixes enq :: "'a \<Rightarrow> 'q \<Rightarrow> 'q" and deq :: "'q \<Rightarrow> 'a option \<times> 'q" and halt :: "'q \<Rightarrow> 'q" and items :: "'q \<Rightarrow> 'a list"
  assumes items_enq: "items (enq v q) = items q @ [v]"
    and deq_nil: "items q = [] \<Longrightarrow> deq q = (None, q)"
    and deq_cons: "items q = v # vs \<Longrightarrow> fst (deq q) = Some v \<and> items (snd (deq q)) = vs"
    and items_halt: "items (halt q) = items q"
begin

lemma deq_front: "front (items q) = (fst (deq q), items (snd (deq q)))"
  using deq_nil [of q] deq_cons [of q] by (cases "items q") (simp_all add: front_def)

lemma run_refines:
  "run_queue enq deq halt ops q = (rs, q') \<Longrightarrow> run_queue (\<lambda>v vs. vs @ [v]) front id ops (items q) = (rs, items q')"
proof (induction ops arbitrary: q rs)
  case (Cons op ops)
  show ?case
  proof (cases op)
    case Pop
    then obtain rs' where "run_queue enq deq halt ops (snd (deq q)) = (rs', q')" "rs = fst (deq q) # rs'"
      using Cons.prems by (auto simp: case_prod_unfold Let_def prod_eq_iff)
    then show ?thesis using Cons.IH Pop by (auto simp: deq_front)
  next
    case (Push v)
    then show ?thesis using Cons.prems Cons.IH [of "enq v q"] by (simp add: items_enq)
  next
    case Stop
    then show ?thesis using Cons.prems Cons.IH [of "halt q"] by (simp add: items_halt)
  qed
qed simp

end

text \<open>The values a plain queue hands out are the first ones it was given.\<close>

lemma plain_queue_order:
  "run_queue (\<lambda>v vs. vs @ [v]) front id ops vs = (rs, vs') \<Longrightarrow> vs @ pushed ops = popped rs @ vs'"
proof (induction ops arbitrary: vs rs)
  case (Cons op ops)
  show ?case
  proof (cases op)
    case Pop
    then show ?thesis using Cons.prems Cons.IH [of "[]"] Cons.IH [of "tl vs"] by (cases vs) (auto split: prod.splits)
  next
    case (Push v)
    then show ?thesis using Cons.prems Cons.IH [of "vs @ [v]"] by simp
  qed (use Cons in simp)
qed simp

interpretation tsq: fifo push pop_for queue_stop queue
  by unfold_locales (auto simp: push_def pop_for_def queue_stop_def Let_def)

text \<open>
  C34.  The queue is first in, first out, for every mix of pushes, timed pops and requests to stop: each pop returns what a plain
  queue of values would return at that moment (the front, or nothing only if the queue is empty then, whether a stop was requested or not),
  so the values returned are those pushed, each once and in the order of the pushes, and the rest is still in the
  queue.  A pop without a time limit returns the same as a timed one, except that it waits while the queue is empty and no stop was requested.
\<close>

theorem queue_first_in_first_out:
  assumes "run_queue push pop_for queue_stop ops q = (rs, q')"
  shows "run_queue (\<lambda>v vs. vs @ [v]) front id ops (queue q) = (rs, queue q') \<and> queue q @ pushed ops = popped rs @ queue q' \<and>
    pop q' = (if queue q' = [] \<and> \<not> stop_requested q' then None else Some (pop_for q'))"
  using tsq.run_refines [OF assms] plain_queue_order [OF tsq.run_refines [OF assms]] by (auto simp: pop_def pop_for_def Let_def)

theorem queue_first_in_first_out_witness:
  "\<exists>q. run_queue push pop_for queue_stop [Push 1, Pop, Pop, Push 2, Push (3 :: nat), Stop, Pop] new_queue = ([Some 1, None, Some 2], q) \<and> queue q = [3]"
  using queue_first_in_first_out [of "[Push 1, Pop, Pop, Push 2, Push (3 :: nat), Stop, Pop]" new_queue
      "fst (run_queue push pop_for queue_stop [Push 1, Pop, Pop, Push 2, Push (3 :: nat), Stop, Pop] new_queue)"
      "snd (run_queue push pop_for queue_stop [Push 1, Pop, Pop, Push 2, Push (3 :: nat), Stop, Pop] new_queue)"]
  by (simp add: new_queue_def front_def push_def pop_for_def queue_stop_def)

end
