(* ===== verification/Router.thy ===== *)
theory Router
  imports Packets Dedup_Set Thread_Queue
begin

text \<open>
  \<^verbatim>\<open>MeshRouter\<close> of \<^verbatim>\<open>routing/MeshRouter.cpp\<close>: a distance vector router with poison reverse.  The
  record \<open>router\<close> holds the fields of the class; \<open>calls\<close> is the sequence of calls the router makes
  on its transport and of packets it hands to its callback, and \<open>uuid_count\<close> counts the draws
  from the UUID generator.  The clock is read once per operation (the argument \<open>now\<close>).

  The callback \<^verbatim>\<open>on_packet_for_me\<close> gets the packet by reference and runs on the thread of the
  router, so it maps a packet and a state to a packet and a state.  The record is extensible:
  a node adds its own fields and its callback may change them and the router.
\<close>

section \<open>State\<close>

definition INF_COST :: u32 where "INF_COST = 16"
definition DEFAULT_TTL :: u32 where "DEFAULT_TTL = 10"
definition ROUTE_TIMEOUT :: time_ms where "ROUTE_TIMEOUT = 180000"
definition UPDATE_INTERVAL :: time_ms where "UPDATE_INTERVAL = 10000"
definition TRIGGER_DEBOUNCE :: time_ms where "TRIGGER_DEBOUNCE = 100"

record route_entry =
  next_hop :: peer_id
  cost :: u32
  dirty :: bool
  last_updated :: time_ms

record neighbor_view =
  advertised_routes :: "(peer_id \<times> u32) list"
  last_heard_from :: time_ms

datatype router_event = PACKET_RECEIVED peer_id routed_packet | PEER_CONNECTED peer_id | PEER_DISCONNECTED peer_id

datatype transport_call = SendTcp peer_id envelope | SendUdp peer_id routed_packet | PacketForMe routed_packet

record router =
  self_id :: peer_id
  forwarding_table :: "(peer_id \<times> route_entry) list"
  neighbor_views :: "(peer_id \<times> neighbor_view) list"
  seen_packet_ids :: "(string \<times> bool) timed_dedup"
  event_queue :: "router_event thread_queue"
  last_periodic_update :: time_ms
  trigger_deadline :: time_ms
  trigger_pending :: bool
  running :: bool
  has_transport :: bool
  uuid_count :: nat
  calls :: "transport_call list"

type_synonym 'z packet_cb = "routed_packet \<Rightarrow> 'z router_scheme \<Rightarrow> routed_packet \<times> 'z router_scheme"

definition MeshRouter :: "time_ms \<Rightarrow> peer_id \<Rightarrow> bool \<Rightarrow> router" where
  "MeshRouter now self tr = \<lparr>self_id = self,
     forwarding_table = [(self, \<lparr>next_hop = self, cost = 0, dirty = False, last_updated = 0\<rparr>)],
     neighbor_views = [], seen_packet_ids = new_dedup 30000, event_queue = new_queue,
     last_periodic_update = now, trigger_deadline = 0, trigger_pending = False, running = False,
     has_transport = tr, uuid_count = 0, calls = []\<rparr>"

definition router_start :: "'z router_scheme \<Rightarrow> 'z router_scheme" where
  "router_start s = (if running s then s else s\<lparr>running := True\<rparr>)"

definition router_stop :: "'z router_scheme \<Rightarrow> 'z router_scheme" where
  "router_stop s = s\<lparr>running := False\<rparr>"

definition set_transport :: "bool \<Rightarrow> 'z router_scheme \<Rightarrow> 'z router_scheme" where
  "set_transport tr s = s\<lparr>has_transport := tr\<rparr>"

definition call :: "transport_call \<Rightarrow> 'z router_scheme \<Rightarrow> 'z router_scheme" where
  "call x s = s\<lparr>calls := calls s @ [x]\<rparr>"

definition draw_uuid :: "mesh_lib \<Rightarrow> 'z router_scheme \<Rightarrow> bytes \<times> 'z router_scheme" where
  "draw_uuid L s = (uuid L (uuid_count s), s\<lparr>uuid_count := Suc (uuid_count s)\<rparr>)"

section \<open>Messages from the transport\<close>

definition push_data_bytes :: "mesh_lib \<Rightarrow> peer_id \<Rightarrow> bytes \<Rightarrow> 'z router_scheme \<Rightarrow> 'z router_scheme" where
  "push_data_bytes L from_peer payload s =
     (case decodeRoutedPacket L payload of
        None \<Rightarrow> s
      | Some pkt \<Rightarrow> s\<lparr>event_queue := push (PACKET_RECEIVED from_peer pkt) (event_queue s)\<rparr>)"

definition on_peer_connected :: "peer_id \<Rightarrow> 'z router_scheme \<Rightarrow> 'z router_scheme" where
  "on_peer_connected p s = s\<lparr>event_queue := push (PEER_CONNECTED p) (event_queue s)\<rparr>"

definition on_peer_disconnected :: "peer_id \<Rightarrow> 'z router_scheme \<Rightarrow> 'z router_scheme" where
  "on_peer_disconnected p s = s\<lparr>event_queue := push (PEER_DISCONNECTED p) (event_queue s)\<rparr>"

section \<open>The forwarding table\<close>

definition direct_routes :: "time_ms \<Rightarrow> 'z router_scheme \<Rightarrow> (peer_id \<times> route_entry) list" where
  "direct_routes now s =
     foldl (\<lambda>tbl (nb, view). AList.update nb \<lparr>next_hop = nb, cost = 1, dirty = True, last_updated = now\<rparr> tbl)
       [(self_id s, \<lparr>next_hop = self_id s, cost = 0, dirty = False, last_updated = now\<rparr>)] (neighbor_views s)"

definition offer :: "peer_id \<Rightarrow> time_ms \<Rightarrow> peer_id \<Rightarrow> (peer_id \<times> route_entry) list \<Rightarrow> peer_id \<times> u32
    \<Rightarrow> (peer_id \<times> route_entry) list" where
  "offer self now nb tbl adv =
     (let (dest, remote_cost) = adv; total_cost = remote_cost + 1;
          e = \<lparr>next_hop = nb, cost = total_cost, dirty = True, last_updated = now\<rparr> in
      if dest = self then tbl
      else if total_cost \<ge> INF_COST then tbl
      else case map_of tbl dest of
             None \<Rightarrow> AList.update dest e tbl
           | Some old \<Rightarrow> if total_cost < cost old then AList.update dest e tbl else tbl)"

definition new_table :: "time_ms \<Rightarrow> 'z router_scheme \<Rightarrow> (peer_id \<times> route_entry) list" where
  "new_table now s =
     foldl (\<lambda>tbl (nb, view). foldl (offer (self_id s) now nb) tbl (advertised_routes view))
       (direct_routes now s) (neighbor_views s)"

definition merge_entry :: "time_ms \<Rightarrow> (peer_id \<times> route_entry) list \<times> bool \<Rightarrow> peer_id \<times> route_entry
    \<Rightarrow> (peer_id \<times> route_entry) list \<times> bool" where
  "merge_entry now tc de =
     (let (ft, changed) = tc; (dest, entry) = de in
      case map_of ft dest of
        None \<Rightarrow> (AList.update dest (entry\<lparr>dirty := True, last_updated := now\<rparr>) ft, True)
      | Some old \<Rightarrow>
          if cost old \<noteq> cost entry \<or> next_hop old \<noteq> next_hop entry
          then (AList.update dest (old\<lparr>cost := cost entry, next_hop := next_hop entry,
                  last_updated := now, dirty := True\<rparr>) ft, True)
          else (ft, changed))"

definition is_lost :: "(peer_id \<times> route_entry) list \<Rightarrow> peer_id \<times> route_entry \<Rightarrow> bool" where
  "is_lost tbl de \<longleftrightarrow> map_of tbl (fst de) = None \<and> cost (snd de) < INF_COST"

definition mark_lost :: "time_ms \<Rightarrow> (peer_id \<times> route_entry) list \<Rightarrow> peer_id \<times> route_entry \<Rightarrow> peer_id \<times> route_entry" where
  "mark_lost now tbl de =
     (if is_lost tbl de then (fst de, (snd de)\<lparr>cost := INF_COST, dirty := True, last_updated := now\<rparr>) else de)"

definition recalculate_forwarding_table_locked :: "time_ms \<Rightarrow> 'z router_scheme \<Rightarrow> 'z router_scheme" where
  "recalculate_forwarding_table_locked now s =
     (let tbl = new_table now s;
          (ft, changed) = foldl (merge_entry now) (forwarding_table s, False) tbl;
          table_changed = (changed \<or> list_ex (is_lost tbl) ft);
          s1 = s\<lparr>forwarding_table := map (mark_lost now tbl) ft\<rparr>
      in if table_changed \<and> \<not> trigger_pending s1
         then s1\<lparr>trigger_pending := True, trigger_deadline := now + TRIGGER_DEBOUNCE\<rparr>
         else s1)"

definition learn_cost :: "(peer_id \<times> u32) list \<Rightarrow> peer_id \<times> u32 \<Rightarrow> (peer_id \<times> u32) list" where
  "learn_cost routes dc =
     (if snd dc \<ge> INF_COST then AList.delete (fst dc) routes else AList.update (fst dc) (snd dc) routes)"

text \<open>\<^verbatim>\<open>neighbor_views_[id]\<close>: a missing view is created empty.\<close>

definition view_of :: "'z router_scheme \<Rightarrow> peer_id \<Rightarrow> neighbor_view" where
  "view_of s p = (case map_of (neighbor_views s) p of
     None \<Rightarrow> \<lparr>advertised_routes = [], last_heard_from = 0\<rparr> | Some v \<Rightarrow> v)"

definition process_routing_update_locked :: "time_ms \<Rightarrow> peer_id \<Rightarrow> route_costs \<Rightarrow> 'z router_scheme \<Rightarrow> 'z router_scheme" where
  "process_routing_update_locked now nb costs s =
     recalculate_forwarding_table_locked now
       (s\<lparr>neighbor_views := AList.update nb
            \<lparr>advertised_routes = foldl learn_cost (advertised_routes (view_of s nb)) costs, last_heard_from = now\<rparr>
            (neighbor_views s)\<rparr>)"

section \<open>Forwarding\<close>

definition get_direct_neighbors :: "'z router_scheme \<Rightarrow> peer_id list" where
  "get_direct_neighbors s = filter (\<lambda>p. p \<noteq> self_id s) (map fst (neighbor_views s))"

definition get_peers_in_network :: "'z router_scheme \<Rightarrow> peer_id list" where
  "get_peers_in_network s = map fst (forwarding_table s)"

definition determine_next_hop :: "peer_id \<Rightarrow> 'z router_scheme \<Rightarrow> peer_id list" where
  "determine_next_hop dest s =
     (if dest = [] then get_direct_neighbors s
      else case map_of (forwarding_table s) dest of
             None \<Rightarrow> []
           | Some e \<Rightarrow> if cost e \<ge> INF_COST then [] else [next_hop e])"

definition forward_to :: "mesh_lib \<Rightarrow> peer_id \<Rightarrow> routed_packet \<Rightarrow> 'z router_scheme \<Rightarrow> peer_id \<Rightarrow> 'z router_scheme" where
  "forward_to L src pkt s p =
     (if p = src then s
      else if p = self_id s then s
      else let forward_pkt = pkt\<lparr>ttl := ttl pkt - 1\<rparr> in
      if ttl forward_pkt \<le> 0 then s
      else if \<not> has_transport s then s
      else case transport forward_pkt of
             TCP \<Rightarrow> (let (u, s) = draw_uuid L s in call (SendTcp p (MakeGenericData u (packet_bytes L forward_pkt))) s)
           | UDP \<Rightarrow> call (SendUdp p forward_pkt) s
           | _ \<Rightarrow> s)"

definition deliver_local :: "'z packet_cb option \<Rightarrow> routed_packet \<Rightarrow> 'z router_scheme \<Rightarrow> routed_packet \<times> 'z router_scheme" where
  "deliver_local cb pkt s =
     (case cb of
        None \<Rightarrow> (pkt, s)
      | Some f \<Rightarrow> if from_peer_id pkt = self_id s then (pkt, s) else f pkt (call (PacketForMe pkt) s))"

definition dedup_and_forward :: "mesh_lib \<Rightarrow> time_ms \<Rightarrow> peer_id \<Rightarrow> peer_id \<Rightarrow> string \<Rightarrow> routed_packet
    \<Rightarrow> 'z router_scheme \<Rightarrow> 'z router_scheme" where
  "dedup_and_forward L now src dest pid pkt s =
     (let key = (pid, expect_response pkt) in
      if src \<noteq> self_id s \<and> dedup_contains (seen_packet_ids s) key then s
      else let s1 = s\<lparr>seen_packet_ids := snd (dedup_insert now key (seen_packet_ids s))\<rparr>
           in foldl (forward_to L src pkt) s1 (determine_next_hop dest s1))"

definition route_data_packet :: "mesh_lib \<Rightarrow> 'z packet_cb option \<Rightarrow> time_ms \<Rightarrow> peer_id \<Rightarrow> peer_id \<Rightarrow> string
    \<Rightarrow> routed_packet \<Rightarrow> 'z router_scheme \<Rightarrow> 'z router_scheme" where
  "route_data_packet L cb now src dest pid pkt s =
     (let is_broadcast = (dest = []); is_only_for_me = (dest = self_id s);
          (pkt, s) = (if is_broadcast \<or> is_only_for_me then deliver_local cb pkt s else (pkt, s))
      in if is_only_for_me then s else dedup_and_forward L now src dest pid pkt s)"

definition send_packet :: "mesh_lib \<Rightarrow> 'z packet_cb option \<Rightarrow> time_ms \<Rightarrow> routed_packet \<Rightarrow> 'z router_scheme \<Rightarrow> 'z router_scheme" where
  "send_packet L cb now pkt s = route_data_packet L cb now (self_id s) (to_peer_id pkt) (to_hex (pkt_id pkt)) pkt s"

definition handle_packet :: "mesh_lib \<Rightarrow> 'z packet_cb option \<Rightarrow> time_ms \<Rightarrow> peer_id \<Rightarrow> routed_packet
    \<Rightarrow> 'z router_scheme \<Rightarrow> 'z router_scheme" where
  "handle_packet L cb now src pkt s =
     (if src = self_id s \<or> from_peer_id pkt = self_id s then s
      else
        let s = (case map_of (neighbor_views s) src of
                   None \<Rightarrow> s
                 | Some v \<Rightarrow> s\<lparr>neighbor_views := AList.update src (v\<lparr>last_heard_from := now\<rparr>) (neighbor_views s)\<rparr>)
        in if pkt_type pkt = ROUTING_UPDATE then process_routing_update_locked now src (route_table pkt) s
           else route_data_packet L cb now src (to_peer_id pkt) (to_hex (pkt_id pkt)) pkt s)"

section \<open>Updates to the neighbours\<close>

definition send_update :: "mesh_lib \<Rightarrow> u32 \<Rightarrow> peer_id \<Rightarrow> route_costs \<Rightarrow> 'z router_scheme \<Rightarrow> 'z router_scheme" where
  "send_update L hops nb costs s =
     (let (u, s) = draw_uuid L s;
          pkt = MakeRoutingTableRoutedPacket u (self_id s) nb hops costs;
          env = default_envelope\<lparr>env_type := DATA, env_payload := packet_bytes L pkt\<rparr>
      in if has_transport s then call (SendTcp nb env) s else s)"

definition triggered_costs :: "(peer_id \<times> route_entry) list \<Rightarrow> route_costs \<Rightarrow> peer_id \<Rightarrow> route_costs" where
  "triggered_costs ft routes nb =
     map (\<lambda>(dest, c). (dest, case map_of ft dest of
            Some e \<Rightarrow> if next_hop e = nb then INF_COST else c | None \<Rightarrow> c)) routes"

definition send_triggered_updates :: "mesh_lib \<Rightarrow> 'z router_scheme \<Rightarrow> 'z router_scheme" where
  "send_triggered_updates L s =
     (let pick = (\<lambda>(dest, e). dirty e \<or> cost e \<ge> INF_COST);
          routes_to_send = map (\<lambda>(dest, e). (dest, cost e)) (filter pick (forwarding_table s));
          s1 = s\<lparr>forwarding_table := map (\<lambda>(dest, e). (dest, if pick (dest, e) then e\<lparr>dirty := False\<rparr> else e)) (forwarding_table s)\<rparr>
      in if routes_to_send = [] then s1
         else foldl (\<lambda>s (nb, view). send_update L DEFAULT_TTL nb (triggered_costs (forwarding_table s) routes_to_send nb) s)
                s1 (neighbor_views s1))"

definition full_costs :: "(peer_id \<times> route_entry) list \<Rightarrow> peer_id \<Rightarrow> route_costs" where
  "full_costs ft nb = map (\<lambda>(dest, e). (dest, if next_hop e = nb then INF_COST else cost e)) ft"

definition broadcast_full_table :: "mesh_lib \<Rightarrow> 'z router_scheme \<Rightarrow> 'z router_scheme" where
  "broadcast_full_table L s =
     foldl (\<lambda>s (nb, view). send_update L 15 nb (full_costs (forwarding_table s) nb) s) s (neighbor_views s)"

section \<open>The routing thread\<close>

definition run_periodic_maintenance :: "mesh_lib \<Rightarrow> time_ms \<Rightarrow> 'z router_scheme \<Rightarrow> 'z router_scheme" where
  "run_periodic_maintenance L now s =
     (let expired = (\<lambda>(p, v). now - last_heard_from v > ROUTE_TIMEOUT);
          has_expired_neighbor = list_ex expired (neighbor_views s);
          s = s\<lparr>neighbor_views := filter (\<lambda>pv. \<not> expired pv) (neighbor_views s)\<rparr>;
          s = (if has_expired_neighbor then recalculate_forwarding_table_locked now s else s);
          s = (if trigger_pending s \<and> now \<ge> trigger_deadline s
               then (send_triggered_updates L s)\<lparr>trigger_pending := False\<rparr> else s);
          s = (if now - last_periodic_update s > UPDATE_INTERVAL
               then (broadcast_full_table L s)\<lparr>last_periodic_update := now\<rparr> else s);
          s = s\<lparr>forwarding_table := filter (\<lambda>(dest, e). \<not> (cost e \<ge> INF_COST \<and> now - last_updated e > 15000)) (forwarding_table s)\<rparr>
      in s\<lparr>seen_packet_ids := dedup_cleanup now (seen_packet_ids s)\<rparr>)"

definition process_event :: "mesh_lib \<Rightarrow> 'z packet_cb option \<Rightarrow> time_ms \<Rightarrow> router_event \<Rightarrow> 'z router_scheme \<Rightarrow> 'z router_scheme" where
  "process_event L cb now ev s =
     (case ev of
        PEER_CONNECTED p \<Rightarrow>
          recalculate_forwarding_table_locked now
            (s\<lparr>neighbor_views := AList.update p ((view_of s p)\<lparr>last_heard_from := now\<rparr>) (neighbor_views s)\<rparr>)
      | PEER_DISCONNECTED p \<Rightarrow>
          recalculate_forwarding_table_locked now (s\<lparr>neighbor_views := AList.delete p (neighbor_views s)\<rparr>)
      | PACKET_RECEIVED p pkt \<Rightarrow> handle_packet L cb now p pkt s)"

text \<open>One round of \<^verbatim>\<open>processing_loop\<close>; the first component is \<^verbatim>\<open>next_maintenance_time\<close>.\<close>

definition processing_round :: "mesh_lib \<Rightarrow> 'z packet_cb option \<Rightarrow> time_ms \<Rightarrow> time_ms \<times> 'z router_scheme \<Rightarrow> time_ms \<times> 'z router_scheme" where
  "processing_round L cb now ns =
     (let (next, s) = ns; (ev, q) = pop_for (event_queue s); s = s\<lparr>event_queue := q\<rparr>;
          s = (case ev of None \<Rightarrow> s | Some ev \<Rightarrow> process_event L cb now ev s)
      in if now \<ge> next then (now + 100, run_periodic_maintenance L now s) else (next, s))"

end
