(* ===== verification/Router_Table.thy ===== *)
theory Router_Table
  imports Router
begin

text \<open>
  The forwarding table.  \<open>live s d\<close> is the route the router uses for \<open>d\<close>; \<open>best_route s d\<close> says
  which route it should be, given what the neighbours advertise: a neighbour is reached
  directly, and any other peer through a neighbour that offers the least cost below
  \<open>INF_COST\<close>.  The recalculation establishes \<open>best_route\<close>, and every operation keeps it.
\<close>

section \<open>Specification\<close>

definition route_of :: "route_entry \<Rightarrow> peer_id \<times> u32" where
  "route_of e = (next_hop e, cost e)"

definition live :: "'z router_scheme \<Rightarrow> peer_id \<Rightarrow> (peer_id \<times> u32) option" where
  "live s d = (case map_of (forwarding_table s) d of
     None \<Rightarrow> None | Some e \<Rightarrow> if cost e < INF_COST then Some (route_of e) else None)"

definition neighbors :: "'z router_scheme \<Rightarrow> peer_id set" where
  "neighbors s = fst ` set (neighbor_views s)"

definition offered :: "'z router_scheme \<Rightarrow> peer_id \<Rightarrow> (peer_id \<times> u32) set" where
  "offered s d = {(nb, c + 1) |nb view c. (nb, view) \<in> set (neighbor_views s)
     \<and> (d, c) \<in> set (advertised_routes view) \<and> c + 1 < INF_COST}"

definition best_route :: "'z router_scheme \<Rightarrow> peer_id \<Rightarrow> (peer_id \<times> u32) option \<Rightarrow> bool" where
  "best_route s d r \<longleftrightarrow>
     (if d \<in> neighbors s then r = Some (d, 1)
      else if d = self_id s then r = Some (d, 0)
      else case r of None \<Rightarrow> offered s d = {}
           | Some (nh, c) \<Rightarrow> (nh, c) \<in> offered s d \<and> (\<forall>(nb, c')\<in>offered s d. c \<le> c'))"

definition costs_ok :: "(peer_id \<times> u32) list \<Rightarrow> bool" where
  "costs_ok r \<longleftrightarrow> distinct (map fst r) \<and> (\<forall>x\<in>set r. snd x < INF_COST)"

definition views_ok :: "'z router_scheme \<Rightarrow> bool" where
  "views_ok s \<longleftrightarrow> distinct (map fst (neighbor_views s)) \<and> (\<forall>x\<in>set (neighbor_views s). costs_ok (advertised_routes (snd x)))"

definition table_ok :: "'z router_scheme \<Rightarrow> bool" where
  "table_ok s \<longleftrightarrow> distinct (map fst (forwarding_table s)) \<and> (\<forall>(d, e)\<in>set (forwarding_table s). cost e \<le> INF_COST)"

section \<open>The new table\<close>

lemma direct_routes_lookup:
  "map_of (foldl (\<lambda>tbl (nb, view). AList.update nb (f nb) tbl) t vs) d
     = (if d \<in> fst ` set vs then Some (f d) else map_of t d)"
proof (induction vs arbitrary: t)
  case (Cons v vs)
  then show ?case by (cases v) (auto simp: update_conv')
qed simp

lemma direct_routes_distinct:
  "distinct (map fst t) \<Longrightarrow> distinct (map fst (foldl (\<lambda>tbl (nb, view). AList.update nb (f nb) tbl) t vs))"
proof (induction vs arbitrary: t)
  case (Cons v vs)
  then show ?case by (cases v) (simp add: distinct_update)
qed simp

definition offers :: "'z router_scheme \<Rightarrow> (peer_id \<times> peer_id \<times> u32) list" where
  "offers s = concat (map (\<lambda>(nb, view). map (Pair nb) (advertised_routes view)) (neighbor_views s))"

lemma set_offers: "(nb, d, c) \<in> set (offers s) \<longleftrightarrow> (\<exists>view. (nb, view) \<in> set (neighbor_views s) \<and> (d, c) \<in> set (advertised_routes view))"
  by (force simp: offers_def)

lemma foldl_nested:
  "foldl (\<lambda>t (nb, view). foldl (f nb) t (g view)) t vs = foldl (\<lambda>t (nb, a). f nb t a) t (concat (map (\<lambda>(nb, view). map (Pair nb) (g view)) vs))"
proof (induction vs arbitrary: t)
  case (Cons v vs)
  have "foldl (f nb) t xs = foldl (\<lambda>t (nb, a). f nb t a) t (map (Pair nb) xs)" for nb t xs
    by (induction xs arbitrary: t) simp_all
  then show ?case using Cons by (cases v) simp
qed simp

lemma new_table_offers:
  "new_table now s = foldl (\<lambda>t (nb, a). offer (self_id s) now nb t a) (direct_routes now s) (offers s)"
  unfolding new_table_def offers_def by (rule foldl_nested)

text \<open>What the loop over the offers leaves for one destination.\<close>

definition offer_for :: "peer_id \<Rightarrow> peer_id \<Rightarrow> peer_id \<times> peer_id \<times> u32 \<Rightarrow> bool" where
  "offer_for self d x \<longleftrightarrow> fst (snd x) = d \<and> d \<noteq> self \<and> snd (snd x) + 1 < INF_COST"

definition chosen :: "peer_id \<Rightarrow> peer_id \<Rightarrow> (peer_id \<times> u32) option \<Rightarrow> (peer_id \<times> peer_id \<times> u32) list \<Rightarrow> (peer_id \<times> u32) option \<Rightarrow> bool" where
  "chosen self d r0 xs r \<longleftrightarrow>
     (case r of
        None \<Rightarrow> r0 = None \<and> (\<forall>x\<in>set xs. \<not> offer_for self d x)
      | Some (nh, c) \<Rightarrow> (r0 = Some (nh, c) \<or> (\<exists>x\<in>set xs. offer_for self d x \<and> nh = fst x \<and> c = snd (snd x) + 1)
             \<and> (\<forall>nh0 c0. r0 = Some (nh0, c0) \<longrightarrow> c < c0))
          \<and> (\<forall>x\<in>set xs. offer_for self d x \<longrightarrow> c \<le> snd (snd x) + 1))"

definition better :: "peer_id \<Rightarrow> peer_id \<Rightarrow> peer_id \<times> peer_id \<times> u32 \<Rightarrow> (peer_id \<times> u32) option \<Rightarrow> (peer_id \<times> u32) option" where
  "better self d x r =
     (if offer_for self d x
      then (case r of None \<Rightarrow> Some (fst x, snd (snd x) + 1)
            | Some (nh, c) \<Rightarrow> if snd (snd x) + 1 < c then Some (fst x, snd (snd x) + 1) else r)
      else r)"

lemma chosen_snoc:
  assumes "chosen self d r0 xs r"
  shows "chosen self d r0 (xs @ [x]) (better self d x r)"
proof (cases r)
  case None
  then show ?thesis using assms by (auto simp: chosen_def better_def)
next
  case (Some nc)
  obtain nh c where "nc = (nh, c)" by force
  then show ?thesis using assms Some by (auto simp: chosen_def better_def not_less intro: less_imp_le order_trans order.strict_trans)
qed

lemma offer_lookup:
  "map_option route_of (map_of (offer self now nb t a) d) = better self d (nb, a) (map_option route_of (map_of t d))"
  by (cases a) (auto simp: offer_def better_def offer_for_def update_conv' route_of_def Let_def not_less split: option.split)

lemma offer_distinct: "distinct (map fst t) \<Longrightarrow> distinct (map fst (offer self now nb t a))"
  by (auto simp: offer_def Let_def distinct_update split: prod.split option.split)

lemma offers_chosen:
  "chosen self d (map_option route_of (map_of t d)) xs
     (map_option route_of (map_of (foldl (\<lambda>t (nb, a). offer self now nb t a) t xs) d))"
proof (induction xs rule: rev_induct)
  case Nil
  show ?case by (auto simp: chosen_def split: option.split)
next
  case (snoc x xs)
  then show ?case using chosen_snoc [OF snoc, of x] by (cases x) (simp add: offer_lookup)
qed

lemma new_table_distinct: "distinct (map fst (new_table now s))"
proof -
  have "distinct (map fst (foldl (\<lambda>t (nb, a). offer (self_id s) now nb t a) t xs))" if "distinct (map fst t)" for t xs
    using that by (induction xs arbitrary: t) (auto simp: offer_distinct)
  then show ?thesis unfolding new_table_offers direct_routes_def by (simp add: direct_routes_distinct)
qed

lemma direct_routes_route:
  "map_option route_of (map_of (direct_routes now s) d) =
     (if d \<in> neighbors s then Some (d, 1) else if d = self_id s then Some (d, 0) else None)"
  unfolding direct_routes_def direct_routes_lookup by (auto simp: neighbors_def route_of_def)

lemma offered_iff:
  "(nh, c) \<in> offered s d \<longleftrightarrow> (\<exists>b. (nh, d, b) \<in> set (offers s) \<and> c = b + 1 \<and> b + 1 < INF_COST)"
  by (auto simp: offered_def set_offers)

lemma add_one_ge_1: "c < INF_COST \<Longrightarrow> 1 \<le> c + 1"
  by (simp add: INF_COST_def word_le_nat_alt word_less_nat_alt unat_word_ariths)

lemma new_table_best:
  assumes "views_ok s"
  shows "best_route s d (map_option route_of (map_of (new_table now s) d))"
proof -
  let ?r = "map_option route_of (map_of (new_table now s) d)"
  have ch: "chosen (self_id s) d (map_option route_of (map_of (direct_routes now s) d)) (offers s) ?r"
    unfolding new_table_offers by (rule offers_chosen)
  have pos: "1 \<le> c + 1" if "(nb, d, c) \<in> set (offers s)" for nb c
    using that assms by (intro add_one_ge_1) (force simp: set_offers views_ok_def costs_ok_def)
  show ?thesis
  proof (cases "d \<in> neighbors s")
    case True
    have "\<not> c + 1 < 1" if "(nb, d, c) \<in> set (offers s)" for nb c using pos [OF that] by (simp only: not_less)
    then show ?thesis
      using ch True by (cases ?r) (fastforce simp: best_route_def chosen_def direct_routes_route offer_for_def)+
  next
    case False
    then show ?thesis
      using ch by (cases "d = self_id s")
        (fastforce simp: best_route_def chosen_def direct_routes_route offer_for_def offered_iff split: option.splits)+
  qed
qed

lemma new_table_cost:
  assumes "map_of (new_table now s) d = Some e"
  shows "cost e < INF_COST"
proof -
  have "chosen (self_id s) d (map_option route_of (map_of (direct_routes now s) d)) (offers s) (Some (route_of e))"
    using offers_chosen [of "self_id s" d "direct_routes now s" "offers s" now] assms unfolding new_table_offers by simp
  then show ?thesis
    by (auto simp: chosen_def direct_routes_route route_of_def offer_for_def INF_COST_def split: if_splits)
qed

section \<open>Merging the new table\<close>

definition merged :: "time_ms \<Rightarrow> route_entry \<Rightarrow> route_entry option \<Rightarrow> route_entry" where
  "merged now e old =
     (case old of
        None \<Rightarrow> e\<lparr>dirty := True, last_updated := now\<rparr>
      | Some old \<Rightarrow> if route_of old \<noteq> route_of e
          then old\<lparr>cost := cost e, next_hop := next_hop e, last_updated := now, dirty := True\<rparr> else old)"

lemma merge_entry_lookup:
  "map_of (fst (merge_entry now (ft, b) (d', e))) d = (if d = d' then Some (merged now e (map_of ft d)) else map_of ft d)"
  by (auto simp: merge_entry_def merged_def update_conv' route_of_def split: option.split)

lemma merge_entry_distinct: "distinct (map fst (fst tc)) \<Longrightarrow> distinct (map fst (fst (merge_entry now tc de)))"
  by (auto simp: merge_entry_def Let_def distinct_update split: prod.split option.split)

lemma merge_lookup:
  assumes "distinct (map fst tbl)"
  shows "map_of (fst (foldl (merge_entry now) tc tbl)) d =
    (case map_of tbl d of None \<Rightarrow> map_of (fst tc) d | Some e \<Rightarrow> Some (merged now e (map_of (fst tc) d)))"
  using assms
proof (induction tbl arbitrary: tc)
  case (Cons de tbl)
  obtain d' e where de: "de = (d', e)" by force
  have "d = d' \<Longrightarrow> map_of tbl d = None" using Cons.prems de by (simp add: map_of_eq_None_iff)
  then show ?case
    using Cons.IH [of "merge_entry now tc de"] Cons.prems merge_entry_lookup [of now "fst tc" "snd tc" d' e d] de
    by (auto split: option.split)
qed simp

lemma merge_distinct:
  "distinct (map fst (fst tc)) \<Longrightarrow> distinct (map fst (fst (foldl (merge_entry now) tc tbl)))"
  by (induction tbl arbitrary: tc) (simp_all add: merge_entry_distinct)

lemma mark_lost_fst [simp]: "fst (mark_lost now tbl de) = fst de"
  by (simp add: mark_lost_def)

lemma map_of_mark_lost: "map_of (map (mark_lost now tbl) ft) d = map_option (\<lambda>e. snd (mark_lost now tbl (d, e))) (map_of ft d)"
  by (induction ft) (auto simp: mark_lost_def)

lemma recalculate_fields [simp]:
  "neighbor_views (recalculate_forwarding_table_locked now s) = neighbor_views s"
  "self_id (recalculate_forwarding_table_locked now s) = self_id s"
  "calls (recalculate_forwarding_table_locked now s) = calls s"
  "seen_packet_ids (recalculate_forwarding_table_locked now s) = seen_packet_ids s"
  "event_queue (recalculate_forwarding_table_locked now s) = event_queue s"
  "has_transport (recalculate_forwarding_table_locked now s) = has_transport s"
  by (simp_all add: recalculate_forwarding_table_locked_def Let_def split: prod.split)

lemma recalculate_lookup:
  "map_of (forwarding_table (recalculate_forwarding_table_locked now s)) d =
     (case map_of (new_table now s) d of
        Some e \<Rightarrow> Some (merged now e (map_of (forwarding_table s) d))
      | None \<Rightarrow> map_option (\<lambda>e. if cost e < INF_COST then e\<lparr>cost := INF_COST, dirty := True, last_updated := now\<rparr> else e)
                  (map_of (forwarding_table s) d))"
proof -
  let ?tbl = "new_table now s" and ?m = "foldl (merge_entry now) (forwarding_table s, False) (new_table now s)"
  have "forwarding_table (recalculate_forwarding_table_locked now s) = map (mark_lost now ?tbl) (fst ?m)"
    by (simp add: recalculate_forwarding_table_locked_def Let_def split: prod.split)
  then show ?thesis
    using merge_lookup [OF new_table_distinct, of now "(forwarding_table s, False)" now s d]
    by (cases "map_of (new_table now s) d"; cases "map_of (forwarding_table s) d")
      (auto simp: map_of_mark_lost mark_lost_def is_lost_def)
qed

lemma merged_route: "route_of (merged now e old) = route_of e"
  by (auto simp: merged_def route_of_def split: option.split)

text \<open>The live part of the recalculated table is the new table.\<close>

lemma recalculate_live: "live (recalculate_forwarding_table_locked now s) d = map_option route_of (map_of (new_table now s) d)"
proof (cases "map_of (new_table now s) d")
  case None
  then show ?thesis by (auto simp: live_def recalculate_lookup split: option.split)
next
  case (Some e)
  have "cost (merged now e old) = cost e" for old using merged_route [of now e old] by (simp add: route_of_def)
  then show ?thesis using Some new_table_cost [OF Some] by (simp add: live_def recalculate_lookup merged_route)
qed

lemma recalculate_best: "views_ok s \<Longrightarrow> best_route s d (live (recalculate_forwarding_table_locked now s) d)"
  unfolding recalculate_live by (rule new_table_best)

end
