(* ===== verification/Router_Invariant.thy ===== *)
theory Router_Invariant
  imports Router_Table
begin

text \<open>
  The invariant of the router over all its operations: the tables are well-formed and the
  live routes are the best ones for what the neighbours currently advertise.  The step
  relation has one rule for each way the program calls the router.
\<close>

definition router_inv :: "'z router_scheme \<Rightarrow> bool" where
  "router_inv s \<longleftrightarrow> views_ok s \<and> table_ok s \<and> (\<forall>d. best_route s d (live s d))"

text \<open>What a neighbour advertises, without the time it was last heard.\<close>

definition adverts :: "'z router_scheme \<Rightarrow> (peer_id \<times> (peer_id \<times> u32) list) list" where
  "adverts s = map (map_prod id advertised_routes) (neighbor_views s)"

lemma views_ok_adverts:
  "views_ok s \<longleftrightarrow> distinct (map fst (adverts s)) \<and> (\<forall>x\<in>set (adverts s). costs_ok (snd x))"
  by (simp add: views_ok_def adverts_def comp_def)

lemma neighbors_adverts: "neighbors s = fst ` set (adverts s)"
  by (force simp: neighbors_def adverts_def)

lemma offered_adverts: "offered s d = {(nb, c + 1) |nb r c. (nb, r) \<in> set (adverts s) \<and> (d, c) \<in> set r \<and> c + 1 < INF_COST}"
proof -
  have "(\<exists>r. (nb, r) \<in> set (adverts s) \<and> (d, c) \<in> set r)
      \<longleftrightarrow> (\<exists>view. (nb, view) \<in> set (neighbor_views s) \<and> (d, c) \<in> set (advertised_routes view))" for nb c
    unfolding adverts_def by (auto simp: rev_image_eqI) (metis id_apply map_prod_simp rev_image_eqI)
  then show ?thesis unfolding offered_def by blast
qed

lemma best_route_cong:
  "adverts s = adverts s' \<Longrightarrow> self_id s = self_id s' \<Longrightarrow> best_route s d r = best_route s' d r"
  unfolding best_route_def neighbors_adverts offered_adverts by (simp only:)

text \<open>Steps that leave the advertised routes and the live routes alone.\<close>

lemma router_inv_cong:
  assumes "adverts s' = adverts s" "self_id s' = self_id s" "table_ok s \<Longrightarrow> table_ok s' \<and> live s' = live s"
  shows "router_inv s \<Longrightarrow> router_inv s'"
proof -
  have "best_route s' d r = best_route s d r" for d r using assms(1,2) by (rule best_route_cong)
  moreover have "views_ok s' = views_ok s" unfolding views_ok_adverts assms(1) ..
  ultimately show "router_inv s \<Longrightarrow> router_inv s'" using assms(3) by (simp add: router_inv_def)
qed

lemma router_inv_same:
  assumes "neighbor_views s' = neighbor_views s" "self_id s' = self_id s" "forwarding_table s' = forwarding_table s"
  shows "router_inv s' = router_inv s"
proof -
  have "adverts s' = adverts s" "live s' = live s" "table_ok s' = table_ok s"
    using assms by (simp_all add: adverts_def live_def table_ok_def fun_eq_iff)
  then show ?thesis using assms(2) router_inv_cong [of s' s] router_inv_cong [of s s'] by auto
qed

section \<open>Recalculation\<close>

lemma recalculate_table_ok:
  assumes "table_ok s"
  shows "table_ok (recalculate_forwarding_table_locked now s)"
proof -
  let ?s = "recalculate_forwarding_table_locked now s" and ?m = "fst (foldl (merge_entry now) (forwarding_table s, False) (new_table now s))"
  have ft: "forwarding_table ?s = map (mark_lost now (new_table now s)) ?m"
    by (simp add: recalculate_forwarding_table_locked_def Let_def split: prod.split)
  have dist: "distinct (map fst (forwarding_table ?s))"
    using merge_distinct [of "(forwarding_table s, False)"] assms unfolding ft by (simp add: table_ok_def comp_def)
  have "cost e \<le> INF_COST" if "(d, e) \<in> set (forwarding_table ?s)" for d e
  proof -
    have "map_of (forwarding_table ?s) d = Some e" using that dist by simp
    moreover have "cost (merged now x old) = cost x" for x old using merged_route [of now x old] by (simp add: route_of_def)
    moreover have "cost x \<le> INF_COST" if "map_of (forwarding_table s) d = Some x" for x
      using that assms by (auto simp: table_ok_def dest!: map_of_SomeD)
    ultimately show ?thesis
      by (auto simp: recalculate_lookup dest: new_table_cost split: option.splits if_splits)
  qed
  then show ?thesis using dist by (auto simp: table_ok_def)
qed

lemma recalculate_inv:
  assumes "views_ok s" "table_ok s"
  shows "router_inv (recalculate_forwarding_table_locked now s)"
proof -
  let ?s = "recalculate_forwarding_table_locked now s"
  have a: "adverts ?s = adverts s" by (simp add: adverts_def)
  have "best_route ?s d (live ?s d)" for d
    using recalculate_best [OF assms(1)] best_route_cong [OF a, of d] by simp
  moreover have "views_ok ?s" using assms(1) unfolding views_ok_adverts a .
  ultimately show ?thesis using recalculate_table_ok [OF assms(2)] by (simp add: router_inv_def)
qed

section \<open>Events\<close>

lemma learn_cost_ok: "costs_ok r \<Longrightarrow> costs_ok (foldl learn_cost r cs)"
proof (induction cs arbitrary: r)
  case (Cons dc cs)
  have "costs_ok (learn_cost r dc)"
    using Cons.prems alist_update_subset [of "fst dc" "snd dc" r] alist_delete_subset [of "fst dc" r]
    by (force simp: costs_ok_def learn_cost_def distinct_update distinct_delete)
  then show ?case using Cons.IH by simp
qed simp

lemma views_ok_update:
  assumes "views_ok s" "costs_ok (advertised_routes v)"
  shows "views_ok (s\<lparr>neighbor_views := AList.update p v (neighbor_views s)\<rparr>)"
  using assms alist_update_subset [of p v "neighbor_views s"] by (auto simp: views_ok_def distinct_update)

lemma views_ok_delete: "views_ok s \<Longrightarrow> views_ok (s\<lparr>neighbor_views := AList.delete p (neighbor_views s)\<rparr>)"
  using alist_delete_subset [of p "neighbor_views s"] by (auto simp: views_ok_def distinct_delete)

lemma views_ok_filter: "views_ok s \<Longrightarrow> views_ok (s\<lparr>neighbor_views := filter P (neighbor_views s)\<rparr>)"
  by (auto simp: views_ok_def distinct_fst_filter)

lemma view_of_ok: "views_ok s \<Longrightarrow> costs_ok (advertised_routes (view_of s p))"
  by (auto simp: view_of_def views_ok_def dest!: map_of_SomeD split: option.split) (simp add: costs_ok_def)

lemma table_ok_views [simp]: "table_ok (s\<lparr>neighbor_views := vs\<rparr>) = table_ok s"
  by (simp add: table_ok_def)

lemma process_routing_update_inv:
  assumes "router_inv s"
  shows "router_inv (process_routing_update_locked now nb costs s)"
proof -
  have v: "views_ok s" "table_ok s" using assms by (auto simp: router_inv_def)
  show ?thesis
    unfolding process_routing_update_locked_def
    using learn_cost_ok [OF view_of_ok [OF v(1)]] v by (intro recalculate_inv views_ok_update) auto
qed

text \<open>The parts of the state the routes depend on.\<close>

definition same_routes :: "'z router_scheme \<Rightarrow> 'z router_scheme \<Rightarrow> bool" where
  "same_routes s' s \<longleftrightarrow> neighbor_views s' = neighbor_views s \<and> self_id s' = self_id s \<and> forwarding_table s' = forwarding_table s"

lemma same_routes_refl [simp]: "same_routes s s"
  by (simp add: same_routes_def)

lemma same_routes_trans: "same_routes a b \<Longrightarrow> same_routes b c \<Longrightarrow> same_routes a c"
  by (simp add: same_routes_def)

lemma same_routes_inv: "same_routes s' s \<Longrightarrow> router_inv s' = router_inv s"
  unfolding same_routes_def by (rule router_inv_same) auto

lemma same_routes_fold: "(\<And>s x. same_routes (f s x) s) \<Longrightarrow> same_routes (foldl f s xs) s"
  by (induction xs arbitrary: s) (auto intro: same_routes_trans)

lemma call_fields [simp]:
  "self_id (call x s) = self_id s" "forwarding_table (call x s) = forwarding_table s"
  "neighbor_views (call x s) = neighbor_views s" "has_transport (call x s) = has_transport s"
  "seen_packet_ids (call x s) = seen_packet_ids s" "calls (call x s) = calls s @ [x]" "uuid_count (call x s) = uuid_count s"
  by (simp_all add: call_def)

lemma forward_to_same: "same_routes (forward_to L src pkt s p) s"
  by (auto simp: forward_to_def draw_uuid_def same_routes_def Let_def split: transport_protocol.split)

lemma dedup_and_forward_same: "same_routes (dedup_and_forward L now src dest pid pkt s) s"
  unfolding dedup_and_forward_def Let_def
  by (auto intro!: same_routes_trans [OF same_routes_fold [OF forward_to_same]]) (simp_all add: same_routes_def)

text \<open>A callback that does not touch the routes.\<close>

definition cb_keeps_routes :: "'z packet_cb option \<Rightarrow> bool" where
  "cb_keeps_routes cb \<longleftrightarrow> (\<forall>f pkt s. cb = Some f \<longrightarrow> same_routes (snd (f pkt s)) s)"

lemma deliver_local_same:
  assumes "cb_keeps_routes cb"
  shows "same_routes (snd (deliver_local cb pkt s)) s"
proof (cases cb)
  case (Some f)
  then have "same_routes (snd (f pkt (call (PacketForMe pkt) s))) (call (PacketForMe pkt) s)"
    using assms by (simp add: cb_keeps_routes_def)
  then show ?thesis using Some by (auto simp: deliver_local_def same_routes_def)
qed (simp add: deliver_local_def)

lemma route_data_packet_same:
  assumes "cb_keeps_routes cb"
  shows "same_routes (route_data_packet L cb now src dest pid pkt s) s"
proof -
  obtain p1 s1 where d: "(if dest = [] \<or> dest = self_id s then deliver_local cb pkt s else (pkt, s)) = (p1, s1)" by force
  then have "same_routes s1 s" using deliver_local_same [OF assms, of pkt s] by (auto split: if_splits)
  then show ?thesis
    unfolding route_data_packet_def Let_def d using dedup_and_forward_same [THEN same_routes_trans] by auto
qed

lemma handle_packet_inv:
  assumes "cb_keeps_routes cb" "router_inv s"
  shows "router_inv (handle_packet L cb now src pkt s)"
proof -
  define s1 where "s1 = (case map_of (neighbor_views s) src of None \<Rightarrow> s
     | Some v \<Rightarrow> s\<lparr>neighbor_views := AList.update src (v\<lparr>last_heard_from := now\<rparr>) (neighbor_views s)\<rparr>)"
  have "adverts s1 = adverts s"
  proof (cases "map_of (neighbor_views s) src")
    case (Some v)
    then have "map (map_prod id advertised_routes) (AList.update src (v\<lparr>last_heard_from := now\<rparr>) vs)
        = map (map_prod id advertised_routes) vs" if "map_of vs src = Some v" for vs
      using that by (induction vs) auto
    then show ?thesis using Some by (simp add: s1_def adverts_def)
  qed (simp add: s1_def)
  moreover have "self_id s1 = self_id s" "table_ok s \<Longrightarrow> table_ok s1 \<and> live s1 = live s"
    by (auto simp: s1_def live_def fun_eq_iff split: option.split)
  ultimately have "router_inv s1" using router_inv_cong assms(2) by blast
  then show ?thesis
    unfolding handle_packet_def Let_def s1_def [symmetric]
    using assms process_routing_update_inv same_routes_inv [OF route_data_packet_same [OF assms(1)]] by auto
qed

section \<open>Updates and maintenance\<close>

lemma send_update_same: "same_routes (send_update L hops nb costs s) s"
  by (simp add: send_update_def draw_uuid_def same_routes_def Let_def)

lemma broadcast_full_table_same: "same_routes (broadcast_full_table L s) s"
  unfolding broadcast_full_table_def by (rule same_routes_fold) (auto simp: send_update_same split: prod.split)

lemma clear_dirty_inv:
  fixes s :: "'z router_scheme"
  assumes "router_inv s"
  shows "router_inv (s\<lparr>forwarding_table := map (\<lambda>(d, e). (d, if P (d, e) then e\<lparr>dirty := False\<rparr> else e)) (forwarding_table s)\<rparr>)"
    (is "router_inv ?s")
proof (rule router_inv_cong [OF _ _ _ assms])
  have l: "map_of (forwarding_table ?s) d = map_option (\<lambda>e. if P (d, e) then e\<lparr>dirty := False\<rparr> else e) (map_of (forwarding_table s) d)" for d
    using map_of_map_snd [of "\<lambda>d e. if P (d, e) then e\<lparr>dirty := False\<rparr> else e" "forwarding_table s" d] by simp
  have "live ?s d = live s d" for d
    unfolding live_def l by (cases "map_of (forwarding_table s) d") (simp_all add: route_of_def)
  then show "table_ok s \<Longrightarrow> table_ok ?s \<and> live ?s = live s"
    by (auto simp: table_ok_def comp_def split_beta)
qed (simp_all add: adverts_def)

lemma send_triggered_updates_inv:
  assumes "router_inv s"
  shows "router_inv (send_triggered_updates L s)"
proof -
  define s1 where "s1 = s\<lparr>forwarding_table := map (\<lambda>(d, e). (d, if dirty e \<or> cost e \<ge> INF_COST then e\<lparr>dirty := False\<rparr> else e)) (forwarding_table s)\<rparr>"
  have i: "router_inv s1" using clear_dirty_inv [OF assms, of "\<lambda>(d, e). dirty e \<or> cost e \<ge> INF_COST"] by (simp add: s1_def)
  have "same_routes (send_triggered_updates L s) s1"
    unfolding send_triggered_updates_def Let_def
    by (auto simp: s1_def intro!: same_routes_fold send_update_same split: prod.split)
  then show ?thesis using i same_routes_inv by blast
qed

lemma gc_inv:
  assumes "router_inv s"
  shows "router_inv (s\<lparr>forwarding_table := filter (\<lambda>(d, e). \<not> (cost e \<ge> INF_COST \<and> old e)) (forwarding_table s)\<rparr>)"
    (is "router_inv ?s")
proof (rule router_inv_cong [OF _ _ _ assms])
  assume t: "table_ok s"
  then have "live ?s d = live s d" for d
    by (auto simp: live_def table_ok_def map_of_filter not_less split: option.split)
  then show "table_ok ?s \<and> live ?s = live s" using t by (auto simp: table_ok_def distinct_fst_filter)
qed (simp_all add: adverts_def)

lemma field_same_routes [simp]:
  "same_routes (s\<lparr>trigger_pending := b\<rparr>) s' = same_routes s s'" "same_routes (s\<lparr>last_periodic_update := t\<rparr>) s' = same_routes s s'"
  "same_routes (s\<lparr>seen_packet_ids := d\<rparr>) s' = same_routes s s'" "same_routes (s\<lparr>event_queue := q\<rparr>) s' = same_routes s s'"
  "same_routes (s\<lparr>running := b\<rparr>) s' = same_routes s s'" "same_routes (s\<lparr>has_transport := b\<rparr>) s' = same_routes s s'"
  by (simp_all add: same_routes_def)

lemma field_router_inv [simp]:
  "router_inv (s\<lparr>trigger_pending := b\<rparr>) = router_inv s" "router_inv (s\<lparr>last_periodic_update := t\<rparr>) = router_inv s"
  "router_inv (s\<lparr>seen_packet_ids := d\<rparr>) = router_inv s" "router_inv (s\<lparr>event_queue := q\<rparr>) = router_inv s"
  "router_inv (s\<lparr>running := b\<rparr>) = router_inv s" "router_inv (s\<lparr>has_transport := b\<rparr>) = router_inv s"
  by (rule router_inv_same; simp)+

lemma maintenance_inv:
  assumes "router_inv s"
  shows "router_inv (run_periodic_maintenance L now s)"
proof -
  let ?expired = "\<lambda>(p, v). now - last_heard_from v > ROUTE_TIMEOUT"
  let ?s = "s\<lparr>neighbor_views := filter (\<lambda>pv. \<not> ?expired pv) (neighbor_views s)\<rparr>"
  define s1 where "s1 = (if list_ex ?expired (neighbor_views s) then recalculate_forwarding_table_locked now ?s else ?s)"
  have v: "views_ok s" "table_ok s" using assms by (auto simp: router_inv_def)
  have 1: "router_inv s1"
  proof (cases "list_ex ?expired (neighbor_views s)")
    case True
    then show ?thesis using v by (simp add: s1_def recalculate_inv views_ok_filter)
  next
    case False
    then have "filter (\<lambda>pv. \<not> ?expired pv) (neighbor_views s) = neighbor_views s" by (auto simp: list_ex_iff filter_id_conv)
    then show ?thesis using False assms by (simp add: s1_def)
  qed
  define s2 where "s2 = (if trigger_pending s1 \<and> now \<ge> trigger_deadline s1
     then (send_triggered_updates L s1)\<lparr>trigger_pending := False\<rparr> else s1)"
  have 2: "router_inv s2" using 1 by (simp add: s2_def send_triggered_updates_inv)
  define s3 where "s3 = (if now - last_periodic_update s2 > UPDATE_INTERVAL
     then (broadcast_full_table L s2)\<lparr>last_periodic_update := now\<rparr> else s2)"
  have 3: "router_inv s3" using 2 by (simp add: s3_def same_routes_inv [OF broadcast_full_table_same])
  show ?thesis
    unfolding run_periodic_maintenance_def Let_def s1_def [symmetric] s2_def [symmetric] s3_def [symmetric]
    using gc_inv [OF 3, of "\<lambda>e. now - last_updated e > 15000"] by simp
qed

lemma process_event_inv:
  assumes "cb_keeps_routes cb" "router_inv s"
  shows "router_inv (process_event L cb now ev s)"
proof -
  have v: "views_ok s" "table_ok s" using assms(2) by (auto simp: router_inv_def)
  show ?thesis
  proof (cases ev)
    case (PEER_CONNECTED p)
    then show ?thesis using v view_of_ok [OF v(1), of p] by (simp add: process_event_def recalculate_inv views_ok_update)
  next
    case (PEER_DISCONNECTED p)
    then show ?thesis using v by (simp add: process_event_def recalculate_inv views_ok_delete)
  qed (simp add: process_event_def handle_packet_inv [OF assms])
qed

lemma processing_round_inv:
  assumes "cb_keeps_routes cb" "router_inv s" "processing_round L cb now (n, s) = (n', s')"
  shows "router_inv s'"
  using assms
  by (auto simp: processing_round_def Let_def process_event_inv maintenance_inv split: prod.splits if_splits option.splits)

section \<open>Reachable states\<close>

inductive router_step :: "mesh_lib \<Rightarrow> 'z packet_cb option \<Rightarrow> 'z router_scheme \<Rightarrow> 'z router_scheme \<Rightarrow> bool"
  for L cb where
  round: "processing_round L cb now (n, s) = (n', s') \<Longrightarrow> router_step L cb s s'"
| send: "router_step L cb s (send_packet L cb now pkt s)"
| bytes: "router_step L cb s (push_data_bytes L p payload s)"
| connected: "router_step L cb s (on_peer_connected p s)"
| disconnected: "router_step L cb s (on_peer_disconnected p s)"
| start: "router_step L cb s (router_start s)"
| stop: "router_step L cb s (router_stop s)"
| set_transport: "router_step L cb s (set_transport tr s)"

lemma router_step_inv:
  assumes "router_step L cb s s'" "cb_keeps_routes cb" "router_inv s"
  shows "router_inv s'"
  using assms(1)
proof cases
  case (round now n n')
  then show ?thesis using processing_round_inv assms(2,3) by blast
next
  case (send now pkt)
  then show ?thesis using assms(3) same_routes_inv [OF route_data_packet_same [OF assms(2)]] by (simp add: send_packet_def)
next
  case (bytes p payload)
  then show ?thesis using assms(3) by (simp add: push_data_bytes_def split: option.split)
qed (use assms(3) in \<open>auto simp: on_peer_connected_def on_peer_disconnected_def router_start_def router_stop_def set_transport_def\<close>)

lemma initial_inv:
  fixes s :: "'z router_scheme"
  assumes "router.truncate s = MeshRouter t self tr"
  shows "router_inv s"
proof -
  have f: "forwarding_table s = [(self, \<lparr>next_hop = self, cost = 0, dirty = False, last_updated = 0\<rparr>)]"
    "neighbor_views s = []" "self_id s = self"
    using assms by (simp_all add: router.truncate_def MeshRouter_def)
  then show ?thesis
    by (auto simp: router_inv_def views_ok_def table_ok_def best_route_def neighbors_def offered_def live_def route_of_def INF_COST_def)
qed

lemma reachable_inv:
  assumes "(router_step L cb)\<^sup>*\<^sup>* s0 s" "cb_keeps_routes cb" "router.truncate s0 = MeshRouter t self tr"
  shows "router_inv s"
  using assms(1) by (induction rule: rtranclp_induct) (use initial_inv [OF assms(3)] router_step_inv assms(2) in auto)

end
