(* ===== verification/Example_Lib.thy ===== *)
theory Example_Lib
  imports Packets
begin

text \<open>
  The laws of protobuf the properties use, and an instance of \<open>mesh_lib\<close> that satisfies them,
  for the witnesses: the fields of a message one after the other, lengths in unary.
\<close>

section \<open>Laws\<close>

definition envelope_law :: "mesh_lib \<Rightarrow> bool" where
  "envelope_law L \<longleftrightarrow> (\<forall>e. parse_envelope L (envelope_bytes L e) = Some e)"

definition handshake_law :: "mesh_lib \<Rightarrow> bool" where
  "handshake_law L \<longleftrightarrow> (\<forall>h. parse_handshake L (handshake_bytes L h) = Some h)"

definition packet_law :: "mesh_lib \<Rightarrow> bool" where
  "packet_law L \<longleftrightarrow> (\<forall>p. parse_packet L (packet_bytes L p) = Some p)"

section \<open>An instance\<close>

type_synonym 'a coder = "('a \<Rightarrow> bytes) \<times> (bytes \<Rightarrow> 'a \<times> bytes)"

definition coder_ok :: "'a coder \<Rightarrow> bool" where
  "coder_ok c \<longleftrightarrow> (\<forall>x r. snd c (fst c x @ r) = (x, r))"

lemma coder_okD [simp]: "coder_ok c \<Longrightarrow> snd c (fst c x @ r) = (x, r)"
  by (simp add: coder_ok_def)

definition nat_coder :: "nat coder" where
  "nat_coder = (\<lambda>n. replicate n 1 @ [0], \<lambda>b. (length (takeWhile (\<lambda>x. x = 1) b), tl (dropWhile (\<lambda>x. x = 1) b)))"

definition pair_coder :: "'a coder \<Rightarrow> 'b coder \<Rightarrow> ('a \<times> 'b) coder" where
  "pair_coder c d = (\<lambda>(x, y). fst c x @ fst d y, \<lambda>b. let (x, b) = snd c b; (y, b) = snd d b in ((x, y), b))"

definition map_coder :: "('a \<Rightarrow> 'b) \<Rightarrow> ('b \<Rightarrow> 'a) \<Rightarrow> 'b coder \<Rightarrow> 'a coder" where
  "map_coder f g c = (\<lambda>x. fst c (f x), \<lambda>b. let (y, b) = snd c b in (g y, b))"

fun get_list :: "(bytes \<Rightarrow> 'a \<times> bytes) \<Rightarrow> nat \<Rightarrow> bytes \<Rightarrow> 'a list \<times> bytes" where
  "get_list g 0 b = ([], b)"
| "get_list g (Suc n) b = (let (x, b) = g b; (xs, b) = get_list g n b in (x # xs, b))"

definition list_coder :: "'a coder \<Rightarrow> 'a list coder" where
  "list_coder c = (\<lambda>xs. fst nat_coder (length xs) @ concat (map (fst c) xs),
     \<lambda>b. let (n, b) = snd nat_coder b in get_list (snd c) n b)"

definition byte_coder :: "u8 coder" where
  "byte_coder = (\<lambda>x. [x], \<lambda>b. (hd b, tl b))"

lemma nat_coder_ok [simp]: "coder_ok nat_coder"
  by (auto simp: coder_ok_def nat_coder_def takeWhile_append dropWhile_append)

lemma pair_coder_ok [simp]: "coder_ok c \<Longrightarrow> coder_ok d \<Longrightarrow> coder_ok (pair_coder c d)"
  by (simp add: coder_ok_def pair_coder_def)

lemma map_coder_ok: "coder_ok c \<Longrightarrow> (\<And>x. g (f x) = x) \<Longrightarrow> coder_ok (map_coder f g c)"
  by (simp add: coder_ok_def map_coder_def)

lemma get_list_ok: "coder_ok c \<Longrightarrow> get_list (snd c) (length xs) (concat (map (fst c) xs) @ r) = (xs, r)"
  by (induction xs) simp_all

lemma list_coder_ok [simp]: "coder_ok c \<Longrightarrow> coder_ok (list_coder c)"
  using get_list_ok [of c] unfolding coder_ok_def [of "list_coder c"] by (simp add: list_coder_def)

lemma byte_coder_ok [simp]: "coder_ok byte_coder"
  by (simp add: coder_ok_def byte_coder_def)

definition bool_coder :: "bool coder" where
  "bool_coder = map_coder (\<lambda>b. if b then 1 else 0) (\<lambda>n. n = 1) nat_coder"

definition int_coder :: "int coder" where
  "int_coder = map_coder (\<lambda>i. (i < 0, nat \<bar>i\<bar>)) (\<lambda>(s, n). if s then - int n else int n) (pair_coder bool_coder nat_coder)"

definition string_coder :: "string coder" where
  "string_coder = map_coder (map (\<lambda>c. of_char c)) (map char_of) (list_coder nat_coder)"

definition u32_coder :: "u32 coder" where
  "u32_coder = map_coder unat of_nat nat_coder"

definition envelope_type_coder :: "envelope_type coder" where
  "envelope_type_coder = map_coder (\<lambda>t. case t of HANDSHAKE \<Rightarrow> (0, 0) | HEARTBEAT \<Rightarrow> (1, 0) | DATA \<Rightarrow> (2, 0) | EnvelopeOther i \<Rightarrow> (3, i))
     (\<lambda>(n, i). if n = 0 then HANDSHAKE else if n = 1 then HEARTBEAT else if n = 2 then DATA else EnvelopeOther i)
     (pair_coder nat_coder int_coder)"

definition transport_coder :: "transport_protocol coder" where
  "transport_coder = map_coder (\<lambda>t. case t of TCP \<Rightarrow> (0, 0) | UDP \<Rightarrow> (1, 0) | TransportOther i \<Rightarrow> (2, i))
     (\<lambda>(n, i). if n = 0 then TCP else if n = 1 then UDP else TransportOther i) (pair_coder nat_coder int_coder)"

definition packet_type_coder :: "packet_type coder" where
  "packet_type_coder = map_coder (\<lambda>t. case t of ROUTING_UPDATE \<Rightarrow> (0, 0) | TEXT \<Rightarrow> (1, 0) | BINARY \<Rightarrow> (2, 0) | PacketOther i \<Rightarrow> (3, i))
     (\<lambda>(n, i). if n = 0 then ROUTING_UPDATE else if n = 1 then TEXT else if n = 2 then BINARY else PacketOther i)
     (pair_coder nat_coder int_coder)"

definition payload_coder :: "payload_variant coder" where
  "payload_coder = map_coder (\<lambda>v. case v of NoPayload \<Rightarrow> (0, [], [], []) | TextPayload t \<Rightarrow> (1, t, [], [])
      | RouteTable rt \<Rightarrow> (2, [], rt, []) | BinaryData b \<Rightarrow> (3, [], [], b) | EncryptedPayload b \<Rightarrow> (4, [], [], b))
     (\<lambda>(n, t, rt, b). if n = 0 then NoPayload else if n = 1 then TextPayload t else if n = 2 then RouteTable rt
        else if n = 3 then BinaryData b else EncryptedPayload b)
     (pair_coder nat_coder (pair_coder string_coder (pair_coder (list_coder (pair_coder string_coder u32_coder)) (list_coder byte_coder))))"

lemma bool_coder_ok [simp]: "coder_ok bool_coder"
  unfolding bool_coder_def by (rule map_coder_ok) simp_all

lemma coders_ok [simp]:
  "coder_ok int_coder" "coder_ok string_coder" "coder_ok u32_coder"
  unfolding int_coder_def string_coder_def u32_coder_def by (rule map_coder_ok; simp add: o_def)+

lemma enum_coders_ok [simp]:
  "coder_ok envelope_type_coder" "coder_ok transport_coder" "coder_ok packet_type_coder" "coder_ok payload_coder"
  unfolding envelope_type_coder_def transport_coder_def packet_type_coder_def payload_coder_def
  by (rule map_coder_ok; auto split: envelope_type.split transport_protocol.split packet_type.split payload_variant.split)+

definition ip_fields :: "peer_ip \<Rightarrow> string \<times> int \<times> int" where
  "ip_fields a = (ip a, tcp_port a, udp_port a)"

definition envelope_fields :: "envelope \<Rightarrow> bytes \<times> (string \<times> int \<times> int) \<times> (string \<times> int \<times> int) \<times> envelope_type \<times> bytes \<times> bool" where
  "envelope_fields e = (msg_id e, ip_fields (env_from e), ip_fields (env_to e), env_type e, env_payload e, env_expect_response e)"

definition handshake_fields :: "handshake \<Rightarrow> string \<times> peer_id \<times> (string \<times> int \<times> int)" where
  "handshake_fields h = (proto_version h, rec_peer_id (hs_peer_record h), ip_fields (rec_peer_ip (hs_peer_record h)))"

definition packet_fields :: "routed_packet \<Rightarrow> bytes \<times> peer_id \<times> peer_id \<times> u32 \<times> packet_type \<times> transport_protocol \<times> string \<times> bool
    \<times> bytes \<times> bytes \<times> payload_variant" where
  "packet_fields p = (pkt_id p, from_peer_id p, to_peer_id p, ttl p, pkt_type p, transport p, subtype p, expect_response p,
     signature p, encrypted_session_key p, payload_variant p)"

lemma ip_fields_inj: "ip_fields a = ip_fields b \<Longrightarrow> a = b"
  by (simp add: ip_fields_def)

lemma fields_inj: "inj envelope_fields" "inj handshake_fields" "inj packet_fields"
  by (auto intro!: injI simp: envelope_fields_def handshake_fields_def packet_fields_def dest!: ip_fields_inj)

definition ip_coder :: "(string \<times> int \<times> int) coder" where
  "ip_coder = pair_coder string_coder (pair_coder int_coder int_coder)"

definition envelope_coder :: "(bytes \<times> (string \<times> int \<times> int) \<times> (string \<times> int \<times> int) \<times> envelope_type \<times> bytes \<times> bool) coder" where
  "envelope_coder = pair_coder (list_coder byte_coder) (pair_coder ip_coder (pair_coder ip_coder
     (pair_coder envelope_type_coder (pair_coder (list_coder byte_coder) bool_coder))))"

definition handshake_coder :: "(string \<times> peer_id \<times> (string \<times> int \<times> int)) coder" where
  "handshake_coder = pair_coder string_coder (pair_coder string_coder ip_coder)"

definition packet_coder :: "(bytes \<times> peer_id \<times> peer_id \<times> u32 \<times> packet_type \<times> transport_protocol \<times> string \<times> bool
    \<times> bytes \<times> bytes \<times> payload_variant) coder" where
  "packet_coder = pair_coder (list_coder byte_coder) (pair_coder string_coder (pair_coder string_coder (pair_coder u32_coder
     (pair_coder packet_type_coder (pair_coder transport_coder (pair_coder string_coder (pair_coder bool_coder
     (pair_coder (list_coder byte_coder) (pair_coder (list_coder byte_coder) payload_coder)))))))))"

lemma message_coders_ok [simp]: "coder_ok envelope_coder" "coder_ok handshake_coder" "coder_ok packet_coder"
  by (simp_all add: envelope_coder_def handshake_coder_def packet_coder_def ip_coder_def)

definition ex_proto :: "(nat \<Rightarrow> bytes) \<Rightarrow> mesh_lib" where
  "ex_proto u = \<lparr>packet_bytes = (\<lambda>p. fst packet_coder (packet_fields p)),
     parse_packet = (\<lambda>b. Some (inv packet_fields (fst (snd packet_coder b)))),
     envelope_bytes = (\<lambda>e. fst envelope_coder (envelope_fields e)),
     parse_envelope = (\<lambda>b. Some (inv envelope_fields (fst (snd envelope_coder b)))),
     handshake_bytes = (\<lambda>h. fst handshake_coder (handshake_fields h)),
     parse_handshake = (\<lambda>b. Some (inv handshake_fields (fst (snd handshake_coder b)))), uuid = u\<rparr>"

text \<open>Sizes, for the limits of the sessions.\<close>

lemma coder_sizes:
  "length (fst nat_coder n) = Suc n" "length (fst (pair_coder c d) (x, y)) = length (fst c x) + length (fst d y)"
  "length (fst (map_coder f g e) z) = length (fst e (f z))" "length (fst (list_coder byte_coder) bs) = Suc (2 * length bs)"
  "length (fst (list_coder nat_coder) ns) = Suc (2 * length ns) + sum_list ns"
  by (simp_all add: nat_coder_def pair_coder_def map_coder_def list_coder_def byte_coder_def length_concat o_def sum_list_Suc)

lemma coder_ok_end: "coder_ok c \<Longrightarrow> snd c (fst c x) = (x, [])"
  using coder_okD [of c x "[]"] by simp

lemma ex_proto_laws [simp]: "envelope_law (ex_proto u)" "handshake_law (ex_proto u)" "packet_law (ex_proto u)" "uuid (ex_proto u) = u"
  by (simp_all add: envelope_law_def handshake_law_def packet_law_def ex_proto_def inv_f_f fields_inj coder_ok_end)

end
