(* ===== verification/Router_Theorems.thy ===== *)
theory Router_Theorems
  imports Router_Invariant Example_Lib
begin

text \<open>
  The properties of the router: shortest routes in every reachable state, what is sent
  where for unicast and broadcast packets, duplicate suppression, hop limits, the exchange
  of routing updates and periodic maintenance.
\<close>

section \<open>What forwarding sends\<close>

lemma INF_COST_nums [simp]: "\<not> INF_COST \<le> 0" "\<not> INF_COST \<le> 1" "(0 :: u32) < INF_COST" "1 < INF_COST" "2 < INF_COST" "INF_COST \<noteq> 0"
  by (simp_all add: INF_COST_def word_le_nat_alt)

text \<open>The calls for one packet to a list of peers, the \<open>n\<close>th UUID being the next one.\<close>

fun fwd_calls :: "mesh_lib \<Rightarrow> nat \<Rightarrow> routed_packet \<Rightarrow> peer_id list \<Rightarrow> transport_call list" where
  "fwd_calls L n pkt [] = []"
| "fwd_calls L n pkt (p # ps) =
     (case transport pkt of
        TCP \<Rightarrow> SendTcp p (MakeGenericData (uuid L n) (packet_bytes L pkt)) # fwd_calls L (Suc n) pkt ps
      | UDP \<Rightarrow> SendUdp p pkt # fwd_calls L n pkt ps
      | _ \<Rightarrow> [])"

definition emitted :: "mesh_lib \<Rightarrow> peer_id \<Rightarrow> routed_packet \<Rightarrow> 'z router_scheme \<Rightarrow> peer_id list \<Rightarrow> transport_call list" where
  "emitted L src pkt s ps =
     (if has_transport s \<and> ttl pkt \<noteq> 1
      then fwd_calls L (uuid_count s) (pkt\<lparr>ttl := ttl pkt - 1\<rparr>) (filter (\<lambda>p. p \<noteq> src \<and> p \<noteq> self_id s) ps)
      else [])"

lemma ttl_minus_le: "ttl pkt - 1 \<le> 0 \<longleftrightarrow> ttl pkt = 1"
  by (simp add: word_le_0_iff)

lemma fwd_calls_other: "transport pkt = TransportOther x \<Longrightarrow> fwd_calls L n pkt ps = []"
  by (cases ps) simp_all

lemma forward_to_cases:
  assumes "has_transport s" "ttl pkt \<noteq> 1" "p \<noteq> src" "p \<noteq> self_id s"
  shows "forward_to L src pkt s p =
    (case transport pkt of
       TCP \<Rightarrow> call (SendTcp p (MakeGenericData (uuid L (uuid_count s)) (packet_bytes L (pkt\<lparr>ttl := ttl pkt - 1\<rparr>))))
                (s\<lparr>uuid_count := Suc (uuid_count s)\<rparr>)
     | UDP \<Rightarrow> call (SendUdp p (pkt\<lparr>ttl := ttl pkt - 1\<rparr>)) s
     | _ \<Rightarrow> s)"
  using assms by (cases "transport pkt") (simp_all add: forward_to_def draw_uuid_def ttl_minus_le Let_def)

lemma forward_to_skip:
  assumes "\<not> has_transport s \<or> ttl pkt = 1 \<or> p = src \<or> p = self_id s"
  shows "forward_to L src pkt s p = s"
  using assms by (auto simp: forward_to_def Let_def)

lemma forward_calls: "calls (foldl (forward_to L src pkt) s ps) = calls s @ emitted L src pkt s ps"
proof (induction ps arbitrary: s)
  case Nil
  then show ?case by (simp add: emitted_def)
next
  case (Cons p ps)
  show ?case
  proof (cases "\<not> has_transport s \<or> ttl pkt = 1 \<or> p = src \<or> p = self_id s")
    case True
    then show ?thesis using Cons.IH [of s] forward_to_skip [OF True] by (auto simp: emitted_def)
  next
    case False
    then show ?thesis
      using Cons.IH [of "forward_to L src pkt s p"]
      by (cases "transport pkt") (simp_all add: forward_to_cases emitted_def call_def fwd_calls_other)
  qed
qed

lemma dedup_and_forward_calls:
  "calls (dedup_and_forward L now src dest pid pkt s) = calls s @
     (if src \<noteq> self_id s \<and> dedup_contains (seen_packet_ids s) (pid, expect_response pkt) then []
      else emitted L src pkt s (determine_next_hop dest s))"
  by (simp add: dedup_and_forward_def Let_def forward_calls emitted_def determine_next_hop_def get_direct_neighbors_def)

lemma forward_seen: "seen_packet_ids (foldl (forward_to L src pkt) s ps) = seen_packet_ids s"
proof (induction ps arbitrary: s)
  case (Cons p ps)
  have "seen_packet_ids (forward_to L src pkt s p) = seen_packet_ids s"
    by (simp add: forward_to_def draw_uuid_def Let_def call_def split: transport_protocol.split)
  then show ?case using Cons by simp
qed simp

lemma dedup_and_forward_seen:
  "dedup_contains (seen_packet_ids (dedup_and_forward L now src dest pid pkt s)) (pid, expect_response pkt)"
  by (simp add: dedup_and_forward_def Let_def forward_seen)

lemma determine_live:
  "d \<noteq> [] \<Longrightarrow> determine_next_hop d s = (case live s d of None \<Rightarrow> [] | Some (nh, c) \<Rightarrow> [nh])"
  by (auto simp: determine_next_hop_def live_def route_of_def not_less split: option.split)

section \<open>Properties of the routes\<close>

text \<open>
  C2.  In every state the router can reach, its routes are the shortest ones for what its
  neighbours advertise: a connected neighbour is reached directly at cost 1, the router
  itself at cost 0, and any other peer through a neighbour whose advertised cost plus one is
  least and below 16, or not at all if there is none.  Unicast packets follow exactly these
  routes.  (The callback may do anything except change the routing tables.)
\<close>

theorem routes_are_shortest:
  assumes "(router_step L cb)\<^sup>*\<^sup>* s0 s" "cb_keeps_routes cb" "router.truncate s0 = MeshRouter t self tr"
  shows "best_route s d (live s d)
    \<and> (d \<noteq> [] \<longrightarrow> determine_next_hop d s = (case live s d of None \<Rightarrow> [] | Some (nh, c) \<Rightarrow> [nh]))"
  using reachable_inv [OF assms] determine_live [of d s] by (simp add: router_inv_def)

definition ex_lib :: mesh_lib where
  "ex_lib = \<lparr>packet_bytes = (\<lambda>p. pkt_id p), parse_packet = (\<lambda>b. Some default_packet), envelope_bytes = msg_id,
     parse_envelope = (\<lambda>b. None), handshake_bytes = (\<lambda>h. []), parse_handshake = (\<lambda>b. None), uuid = (\<lambda>n. [of_nat n])\<rparr>"

theorem routes_are_shortest_witness:
  "let s = snd (processing_round ex_lib None 5 (1000, on_peer_connected ''b'' (MeshRouter 0 ''a'' True))) in
   best_route s ''b'' (live s ''b'') \<and> live s ''b'' = Some (''b'', 1)"
proof -
  define s0 s1 s where "s0 = MeshRouter 0 ''a'' True" and "s1 = on_peer_connected ''b'' s0"
    and "s = snd (processing_round ex_lib None 5 (1000, s1))"
  have a: "router_step ex_lib None s0 s1" unfolding s1_def by (rule router_step.connected)
  have b: "router_step ex_lib None s1 s" unfolding s_def
    by (rule router_step.round [where n = 1000 and n' = "fst (processing_round ex_lib None 5 (1000, s1))" and now = 5]) simp
  have r: "(router_step ex_lib None)\<^sup>*\<^sup>* s0 s"
    using a b by (meson r_into_rtranclp rtranclp_trans)
  have "router.truncate s0 = MeshRouter 0 ''a'' True" "cb_keeps_routes None"
    by (simp_all add: s0_def cb_keeps_routes_def router.truncate_def MeshRouter_def)
  then have best: "best_route s ''b'' (live s ''b'')" using routes_are_shortest [OF r] by blast
  have "queue (event_queue s1) = [PEER_CONNECTED ''b'']" "stop_requested (event_queue s1) = False" "neighbor_views s1 = []"
    by (simp_all add: s1_def s0_def on_peer_connected_def MeshRouter_def push_def new_queue_def)
  then have "neighbors s = {''b''}"
    by (simp add: s_def processing_round_def pop_for_def process_event_def neighbors_def Let_def)
  with best show ?thesis by (simp add: best_route_def s_def s1_def s0_def)
qed

section \<open>Properties of forwarding\<close>

lemma neighbors_distinct: "router_inv s \<Longrightarrow> distinct (get_direct_neighbors s) \<and> set (get_direct_neighbors s) = neighbors s - {self_id s}"
  by (auto simp: get_direct_neighbors_def router_inv_def views_ok_def neighbors_def)

lemma route_transit:
  assumes "dest \<noteq> []" "dest \<noteq> self_id s"
  shows "route_data_packet L cb now src dest pid pkt s = dedup_and_forward L now src dest pid pkt s"
  using assms by (simp add: route_data_packet_def)

text \<open>
  C23.  A broadcast goes to every other neighbour once.  When a broadcast packet passes the
  duplicate filter and still has hops left, then after the local callback the router sends
  one copy with the hop count reduced by one to each neighbour except the one it came from,
  and to nobody else.
\<close>

theorem broadcast_to_each_other_neighbor:
  assumes "deliver_local cb pkt s = (pkt', s1)" "router_inv s1" "self_id s1 = self_id s" "self_id s \<noteq> []"
    and "has_transport s1" "ttl pkt' \<noteq> 1" "\<not> dedup_contains (seen_packet_ids s1) (pid, expect_response pkt')"
  shows "\<exists>ps. calls (route_data_packet L cb now src [] pid pkt s)
             = calls s1 @ fwd_calls L (uuid_count s1) (pkt'\<lparr>ttl := ttl pkt' - 1\<rparr>) ps
           \<and> distinct ps \<and> set ps = neighbors s1 - {src, self_id s1}"
proof -
  let ?ps = "filter (\<lambda>p. p \<noteq> src \<and> p \<noteq> self_id s1) (get_direct_neighbors s1)"
  have "calls (route_data_packet L cb now src [] pid pkt s) = calls s1 @ fwd_calls L (uuid_count s1) (pkt'\<lparr>ttl := ttl pkt' - 1\<rparr>) ?ps"
    using assms by (simp add: route_data_packet_def dedup_and_forward_calls emitted_def determine_next_hop_def)
  moreover have "distinct ?ps" "set ?ps = neighbors s1 - {src, self_id s1}"
    using neighbors_distinct [OF assms(2)] by auto
  ultimately show ?thesis by blast
qed

definition ex_router :: router where
  "ex_router = (MeshRouter 0 ''a'' True)\<lparr>
     neighbor_views := [(''b'', \<lparr>advertised_routes = [], last_heard_from = 0\<rparr>), (''c'', \<lparr>advertised_routes = [], last_heard_from = 0\<rparr>)],
     forwarding_table := [(''a'', \<lparr>next_hop = ''a'', cost = 0, dirty = False, last_updated = 0\<rparr>),
       (''b'', \<lparr>next_hop = ''b'', cost = 1, dirty = True, last_updated = 0\<rparr>),
       (''c'', \<lparr>next_hop = ''c'', cost = 1, dirty = True, last_updated = 0\<rparr>)]\<rparr>"

lemma ex_router_inv: "router_inv ex_router"
  by (auto simp: router_inv_def ex_router_def MeshRouter_def views_ok_def costs_ok_def table_ok_def best_route_def
      neighbors_def offered_def live_def route_of_def INF_COST_def)

definition ex_packet :: routed_packet where
  "ex_packet = default_packet\<lparr>pkt_id := [9], from_peer_id := ''z'', ttl := 10, pkt_type := BINARY, transport := UDP\<rparr>"

theorem broadcast_to_each_other_neighbor_witness:
  "\<exists>ps. calls (route_data_packet ex_lib None 0 ''b'' [] ''09'' ex_packet ex_router)
       = fwd_calls ex_lib 0 (ex_packet\<lparr>ttl := 9\<rparr>) ps \<and> distinct ps \<and> set ps = {''c''}"
proof -
  have "neighbors ex_router - {''b'', self_id ex_router} = {''c''}"
    by (auto simp: neighbors_def ex_router_def MeshRouter_def)
  moreover have "calls ex_router = []" "uuid_count ex_router = 0" "ttl ex_packet = 10"
    "\<not> dedup_contains (seen_packet_ids ex_router) (''09'', expect_response ex_packet)"
    by (simp_all add: ex_router_def MeshRouter_def ex_packet_def new_dedup_def dedup_contains_def)
  moreover have "self_id ex_router \<noteq> []" "has_transport ex_router" by (simp_all add: ex_router_def MeshRouter_def)
  moreover have "deliver_local None ex_packet ex_router = (ex_packet, ex_router)" by (simp add: deliver_local_def)
  ultimately show ?thesis
    using broadcast_to_each_other_neighbor [of None ex_packet ex_router ex_packet ex_router "''09''" ex_lib 0 "''b''"] ex_router_inv
    by auto
qed

text \<open>
  C24.  A packet in transit goes to the next hop of the live route and nowhere else, with one
  hop less; it is dropped when it was seen before, when there is no route, when the next hop
  is the peer it came from (or the router itself), or when its last hop is used up.
\<close>

theorem transit_follows_live_route:
  assumes "dest \<noteq> []" "dest \<noteq> self_id s" "has_transport s" "src \<noteq> self_id s"
  shows "calls (route_data_packet L cb now src dest pid pkt s) = calls s @
    (if dedup_contains (seen_packet_ids s) (pid, expect_response pkt) \<or> ttl pkt = 1 then []
     else case live s dest of None \<Rightarrow> []
          | Some (nh, c) \<Rightarrow> if nh = src \<or> nh = self_id s then []
              else fwd_calls L (uuid_count s) (pkt\<lparr>ttl := ttl pkt - 1\<rparr>) [nh])"
  using assms by (auto simp: route_transit dedup_and_forward_calls emitted_def determine_live split: option.split)

theorem transit_follows_live_route_witness:
  "calls (route_data_packet ex_lib None 0 ''b'' ''c'' ''09'' ex_packet ex_router) = [SendUdp ''c'' (ex_packet\<lparr>ttl := 9\<rparr>)]"
proof -
  have "calls ex_router = []" "ttl ex_packet = 10" "transport ex_packet = UDP" "self_id ex_router = ''a''" "has_transport ex_router"
    "\<not> dedup_contains (seen_packet_ids ex_router) (''09'', expect_response ex_packet)"
    by (simp_all add: ex_router_def MeshRouter_def ex_packet_def new_dedup_def dedup_contains_def)
  moreover have "live ex_router ''c'' = Some (''c'', 1)"
    by (simp add: live_def ex_router_def route_of_def INF_COST_def)
  ultimately show ?thesis
    using transit_follows_live_route [of "''c''" ex_router "''b''" ex_lib None 0 "''09''" ex_packet] by simp
qed

text \<open>The set and the queue of the duplicate filter list the same keys, each once.\<close>

definition seen_ok :: "'k timed_dedup \<Rightarrow> bool" where
  "seen_ok d \<longleftrightarrow> key_set d = snd ` set (time_queue d) \<and> distinct (map snd (time_queue d))"

text \<open>At time \<open>now\<close> no key is forgotten that was inserted at most \<open>max_age\<close> ago.\<close>

definition remembers :: "time_ms \<Rightarrow> 'z router_scheme \<Rightarrow> 'z router_scheme \<Rightarrow> bool" where
  "remembers now s s' \<longleftrightarrow> self_id s' = self_id s \<and> max_age (seen_packet_ids s') = max_age (seen_packet_ids s) \<and>
     (seen_ok (seen_packet_ids s) \<longrightarrow> seen_ok (seen_packet_ids s') \<and>
        (\<forall>u k. (u, k) \<in> set (time_queue (seen_packet_ids s)) \<longrightarrow> now - u \<le> max_age (seen_packet_ids s) \<longrightarrow> (u, k) \<in> set (time_queue (seen_packet_ids s'))))"

definition cb_remembers :: "'z packet_cb option \<Rightarrow> bool" where
  "cb_remembers cb \<longleftrightarrow> (\<forall>f pkt s now. cb = Some f \<longrightarrow> remembers now s (snd (f pkt s)))"

lemma remembers_same: "self_id s' = self_id s \<Longrightarrow> seen_packet_ids s' = seen_packet_ids s \<Longrightarrow> remembers now s s'"
  by (simp add: remembers_def)

lemma remembers_trans: "remembers now s t \<Longrightarrow> remembers now t u \<Longrightarrow> remembers now s u"
  by (auto simp: remembers_def)

lemma remembers_insert: "self_id s' = self_id s \<Longrightarrow> seen_packet_ids s' = snd (dedup_insert t k (seen_packet_ids s)) \<Longrightarrow> remembers now s s'"
  by (auto simp: remembers_def seen_ok_def dedup_insert_def)

lemma dedup_and_forward_remembers: "remembers now s (dedup_and_forward L t src dest pid pkt s)"
proof (cases "src \<noteq> self_id s \<and> dedup_contains (seen_packet_ids s) (pid, expect_response pkt)")
  case True
  then show ?thesis by (simp add: dedup_and_forward_def remembers_same)
next
  case False
  then have "seen_packet_ids (dedup_and_forward L t src dest pid pkt s) = snd (dedup_insert t (pid, expect_response pkt) (seen_packet_ids s))"
    by (auto simp: dedup_and_forward_def Let_def forward_seen)
  moreover have "self_id (dedup_and_forward L t src dest pid pkt s) = self_id s"
    using dedup_and_forward_same [of L t src dest pid pkt s] by (simp add: same_routes_def)
  ultimately show ?thesis by (intro remembers_insert)
qed

lemma deliver_local_remembers:
  assumes "cb_remembers cb"
  shows "remembers now s (snd (deliver_local cb pkt s))"
proof (cases cb)
  case (Some f)
  have "remembers now s (call (PacketForMe pkt) s)" by (simp add: remembers_same)
  moreover have "remembers now (call (PacketForMe pkt) s) (snd (f pkt (call (PacketForMe pkt) s)))" using assms Some by (simp add: cb_remembers_def)
  ultimately have "remembers now s (snd (f pkt (call (PacketForMe pkt) s)))" by (rule remembers_trans)
  then show ?thesis using Some by (simp add: deliver_local_def remembers_same)
qed (simp add: deliver_local_def remembers_same)

lemma route_data_packet_remembers:
  assumes "cb_remembers cb"
  shows "remembers now s (route_data_packet L cb t src dest pid pkt s)"
proof -
  obtain pkt' s' where d: "(if dest = [] \<or> dest = self_id s then deliver_local cb pkt s else (pkt, s)) = (pkt', s')" by force
  then have "remembers now s s'" using deliver_local_remembers [OF assms, of now s pkt] by (auto simp: remembers_same split: if_splits)
  from this remembers_trans [OF this dedup_and_forward_remembers] show ?thesis by (simp add: route_data_packet_def d)
qed

lemma recalculate_seen [simp]: "seen_packet_ids (recalculate_forwarding_table_locked now s) = seen_packet_ids s"
  by (simp add: recalculate_forwarding_table_locked_def Let_def split: prod.split)

lemma handle_packet_remembers:
  assumes "cb_remembers cb"
  shows "remembers now s (handle_packet L cb t src pkt s)"
proof -
  define s1 where "s1 = (case map_of (neighbor_views s) src of None \<Rightarrow> s
    | Some v \<Rightarrow> s\<lparr>neighbor_views := AList.update src (v\<lparr>last_heard_from := t\<rparr>) (neighbor_views s)\<rparr>)"
  have s1: "remembers now s s1" by (rule remembers_same) (simp_all add: s1_def split: option.split)
  have "remembers now s1 (process_routing_update_locked t src (route_table pkt) s1)"
    by (rule remembers_same) (simp_all add: process_routing_update_locked_def)
  from remembers_trans [OF s1 this] remembers_trans [OF s1 route_data_packet_remembers [OF assms, of now s1 L t src "to_peer_id pkt" "to_hex (pkt_id pkt)" pkt]]
  show ?thesis unfolding handle_packet_def s1_def [symmetric] Let_def by (simp add: remembers_same)
qed

lemma process_event_remembers: "cb_remembers cb \<Longrightarrow> remembers now s (process_event L cb t ev s)"
  by (auto simp: process_event_def handle_packet_remembers remembers_same split: router_event.split)

lemma cleanup_remembers:
  assumes "self_id s' = self_id s" "seen_packet_ids s' = dedup_cleanup now (seen_packet_ids s)"
  shows "remembers now s s'"
proof -
  let ?d = "seen_packet_ids s" let ?q = "dropWhile (\<lambda>(t, v). now - t > max_age ?d) (time_queue ?d)"
  have a: "max_age (dedup_cleanup now ?d) = max_age ?d" by (simp add: dedup_cleanup_def case_prod_unfold Let_def)
  have "time_queue (dedup_cleanup now ?d) = ?q \<and> key_set (dedup_cleanup now ?d) = snd ` set ?q" if "seen_ok ?d"
    using that drop_expired_eq [of "time_queue ?d" "key_set ?d" "{}" "max_age ?d" now] by (simp add: dedup_cleanup_def seen_ok_def)
  moreover have "(u, k) \<in> set ?q" if "(u, k) \<in> set (time_queue ?d)" "now - u \<le> max_age ?d" for u k
    using that set_takeWhileD [of "(u, k)" "\<lambda>(t, v). now - t > max_age ?d" "time_queue ?d"]
    by (metis (mono_tags, lifting) Un_iff case_prod_conv linorder_not_less set_append takeWhile_dropWhile_id)
  moreover have "distinct (map snd ?q)" if "seen_ok ?d"
    using that unfolding seen_ok_def by (metis distinct_append map_append takeWhile_dropWhile_id)
  ultimately show ?thesis using assms a by (simp add: remembers_def seen_ok_def)
qed

lemma send_updates_seen:
  "seen_packet_ids (foldl (\<lambda>s (nb, view). send_update L hops nb (f s nb) s) s vs) = seen_packet_ids s"
  "self_id (foldl (\<lambda>s (nb, view). send_update L hops nb (f s nb) s) s vs) = self_id s"
proof (induction vs arbitrary: s)
  case (Cons v vs)
  case 1
  then show ?case using Cons by (cases v) (simp add: send_update_def draw_uuid_def Let_def)
  case 2
  then show ?case using Cons by (cases v) (simp add: send_update_def draw_uuid_def Let_def)
qed simp_all

lemma maintenance_remembers: "remembers now s (run_periodic_maintenance L now s)"
proof (rule cleanup_remembers)
  show "seen_packet_ids (run_periodic_maintenance L now s) = dedup_cleanup now (seen_packet_ids s)"
    by (simp add: run_periodic_maintenance_def Let_def send_triggered_updates_def broadcast_full_table_def send_updates_seen)
  show "self_id (run_periodic_maintenance L now s) = self_id s"
    by (simp add: run_periodic_maintenance_def Let_def send_triggered_updates_def broadcast_full_table_def send_updates_seen)
qed

lemma processing_round_remembers:
  assumes "cb_remembers cb" "processing_round L cb now (n, s) = (n', s')"
  shows "remembers now s s'"
proof -
  obtain ev q where e: "pop_for (event_queue s) = (ev, q)" by force
  let ?s = "s\<lparr>event_queue := q\<rparr>"
  define s1 where "s1 = (case ev of None \<Rightarrow> ?s | Some ev \<Rightarrow> process_event L cb now ev ?s)"
  have "remembers now s ?s" by (simp add: remembers_same)
  then have "remembers now s s1" using remembers_trans [OF _ process_event_remembers [OF assms(1)]] by (simp add: s1_def split: option.split)
  then show ?thesis using assms(2) remembers_trans [OF _ maintenance_remembers] e by (auto simp: processing_round_def Let_def s1_def split: if_splits)
qed

text \<open>The steps of a router whose clock has not passed the time \<open>T\<close>; the callback may read the clock too.\<close>

inductive step_until :: "mesh_lib \<Rightarrow> (time_ms \<Rightarrow> 'z packet_cb option) \<Rightarrow> time_ms \<Rightarrow> 'z router_scheme \<Rightarrow> 'z router_scheme \<Rightarrow> bool"
  for L cb T where
  until_round: "now \<le> T \<Longrightarrow> processing_round L (cb now) now (n, s) = (n', s') \<Longrightarrow> step_until L cb T s s'"
| until_send: "now \<le> T \<Longrightarrow> step_until L cb T s (send_packet L (cb now) now pkt s)"
| until_bytes: "step_until L cb T s (push_data_bytes L p payload s)"
| until_connected: "step_until L cb T s (on_peer_connected p s)"
| until_disconnected: "step_until L cb T s (on_peer_disconnected p s)"
| until_start: "step_until L cb T s (router_start s)"
| until_stop: "step_until L cb T s (router_stop s)"
| until_set_transport: "step_until L cb T s (set_transport tr s)"

lemma remembers_earlier: "remembers now s s' \<Longrightarrow> now \<le> T \<Longrightarrow> remembers T s s'"
  by (auto simp: remembers_def)

lemma step_until_remembers:
  assumes "step_until L cb T s s'" "\<And>now. cb_remembers (cb now)"
  shows "remembers T s s'"
  using assms(1)
proof cases
  case (until_round now n n')
  then show ?thesis using processing_round_remembers [OF assms(2) until_round(2)] remembers_earlier by blast
next
  case (until_send now pkt)
  then show ?thesis by (simp add: send_packet_def route_data_packet_remembers [OF assms(2)])
qed (auto simp: push_data_bytes_def on_peer_connected_def on_peer_disconnected_def router_start_def router_stop_def set_transport_def
    intro!: remembers_same split: option.split)

lemma steps_until_remember:
  assumes "(step_until L cb T)\<^sup>*\<^sup>* s s'" "\<And>now. cb_remembers (cb now)"
  shows "remembers T s s'"
  using assms(1) by (induction rule: rtranclp_induct) (auto intro: remembers_same remembers_trans step_until_remembers [OF _ assms(2)])

lemma first_transit_recorded:
  assumes "src \<noteq> self_id s" "\<not> dedup_contains (seen_packet_ids s) (pid, expect_response pkt)" "seen_ok (seen_packet_ids s)"
  shows "(t, (pid, expect_response pkt)) \<in> set (time_queue (seen_packet_ids (dedup_and_forward L t src dest pid pkt s)))"
  using assms by (simp add: dedup_and_forward_def Let_def forward_seen dedup_insert_def dedup_contains_def)

text \<open>
  C25.  One transit per packet id, for 30 seconds.  When a running router handles a packet in transit whose id (with its
  \<open>expect_response\<close> flag) it does not remember, then, whatever happens to it in the next 30 seconds (packets, updates, maintenance, packets
  of its own), it sends nothing for a further packet in transit with the same id and the same
  flag, whoever sent it and wherever it goes.  So copies that come round a
  loop in that time die.  It also means that of the replies of several peers to one broadcast request,
  which all carry the id of the request, a router on their way forwards only the first.  The callback has to leave the duplicate filter's entries in place.
\<close>

theorem one_transit_per_id:
  assumes "router.truncate s0 = MeshRouter t0 self tr" "(step_until L cb T)\<^sup>*\<^sup>* s0 s" "\<And>now. cb_remembers (cb now)"
    and "src \<noteq> self_id s" "dest \<noteq> []" "dest \<noteq> self_id s" "\<not> dedup_contains (seen_packet_ids s) (pid, expect_response pkt)"
    and "(step_until L cb (t + 30000))\<^sup>*\<^sup>* (route_data_packet L (cb t) t src dest pid pkt s) s'"
    and "src2 \<noteq> self_id s" "dest2 \<noteq> []" "dest2 \<noteq> self_id s" "expect_response pkt2 = expect_response pkt"
  shows "calls (route_data_packet L (cb t2) t2 src2 dest2 pid pkt2 s') = calls s'"
proof -
  have "seen_packet_ids s0 = new_dedup 30000" using arg_cong [OF assms(1), of seen_packet_ids] by (simp add: router.truncate_def MeshRouter_def)
  then have s: "seen_ok (seen_packet_ids s)" "max_age (seen_packet_ids s) = 30000"
    using steps_until_remember [OF assms(2,3)] by (auto simp: remembers_def seen_ok_def new_dedup_def)
  let ?s = "dedup_and_forward L t src dest pid pkt s" and ?k = "(pid, expect_response pkt)"
  have r: "route_data_packet L (cb t) t src dest pid pkt s = ?s" using assms(5,6) by (simp add: route_transit)
  have m: "remembers (t + 30000) ?s s'" by (rule steps_until_remember [OF assms(8) [unfolded r] assms(3)])
  have "self_id ?s = self_id s" "seen_ok (seen_packet_ids ?s)" "max_age (seen_packet_ids ?s) = 30000"
    using dedup_and_forward_remembers [of t s L t src dest pid pkt] s by (simp_all add: remembers_def)
  moreover from this m have "(t, ?k) \<in> set (time_queue (seen_packet_ids s'))" "seen_ok (seen_packet_ids s')" "self_id s' = self_id s"
    using first_transit_recorded [OF assms(4,7) s(1), of t L dest] by (auto simp: remembers_def)
  moreover from this have "dedup_contains (seen_packet_ids s') (pid, expect_response pkt2)" using assms(12) by (force simp: dedup_contains_def seen_ok_def)
  ultimately show ?thesis using assms(9-11) by (simp add: route_transit dedup_and_forward_calls)
qed

theorem one_transit_per_id_witness:
  "let s = MeshRouter 0 ''a'' True; s1 = route_data_packet ex_lib None 5 ''b'' ''c'' ''09'' ex_packet s; s2 = send_packet ex_lib None 70 (ex_packet\<lparr>to_peer_id := ''d''\<rparr>) s1 in
   calls (route_data_packet ex_lib None 7000 ''c'' ''b'' ''09'' (ex_packet\<lparr>from_peer_id := ''y''\<rparr>) s2) = calls s2"
proof -
  let ?s = "MeshRouter 0 ''a'' True" let ?s1 = "route_data_packet ex_lib None 5 ''b'' ''c'' ''09'' ex_packet ?s"
  have "step_until ex_lib (\<lambda>t. None) (5 + 30000) ?s1 (send_packet ex_lib None 70 (ex_packet\<lparr>to_peer_id := ''d''\<rparr>) ?s1)" by (rule until_send) simp
  then have run: "(step_until ex_lib (\<lambda>t. None) (5 + 30000))\<^sup>*\<^sup>* ?s1 (send_packet ex_lib None 70 (ex_packet\<lparr>to_peer_id := ''d''\<rparr>) ?s1)" ..
  have s: "router.truncate ?s = ?s" "self_id ?s = ''a''" "\<not> dedup_contains (seen_packet_ids ?s) (''09'', expect_response ex_packet)"
    by (simp_all add: MeshRouter_def router.truncate_def new_dedup_def dedup_contains_def)
  have "calls (route_data_packet ex_lib None 7000 ''c'' ''b'' ''09'' (ex_packet\<lparr>from_peer_id := ''y''\<rparr>)
      (send_packet ex_lib None 70 (ex_packet\<lparr>to_peer_id := ''d''\<rparr>) ?s1)) = calls (send_packet ex_lib None 70 (ex_packet\<lparr>to_peer_id := ''d''\<rparr>) ?s1)"
    by (rule one_transit_per_id [where cb = "\<lambda>t. None", OF s(1) rtranclp.rtrancl_refl _ _ _ _ s(3) run]) (simp_all add: cb_remembers_def s(2))
  then show ?thesis unfolding Let_def .
qed

text \<open>
  C30.  The duplicate filter does not guard local delivery: when a broadcast packet arrives a
  second time (for instance through another neighbour), the callback is called again
  although the packet is not forwarded again.
\<close>

theorem broadcast_delivered_again:
  assumes "src \<noteq> self_id s" "src2 \<noteq> self_id s" "from_peer_id pkt \<noteq> self_id s" "self_id s \<noteq> []"
  shows "let cb = Some (\<lambda>p s. (p, s)); s1 = route_data_packet L cb now src [] pid pkt s in
     calls (route_data_packet L cb now2 src2 [] pid pkt s1) = calls s1 @ [PacketForMe pkt]
     \<and> PacketForMe pkt \<in> set (calls s1)"
proof -
  let ?s = "call (PacketForMe pkt) s"
  define s1 where "s1 = dedup_and_forward L now src [] pid pkt ?s"
  have r: "route_data_packet L (Some (\<lambda>p s. (p, s))) now src [] pid pkt s = s1"
    using assms by (simp add: route_data_packet_def deliver_local_def s1_def)
  have f: "self_id s1 = self_id s" using dedup_and_forward_same [of L now src "[]" pid pkt ?s] by (simp add: same_routes_def s1_def)
  have seen: "dedup_contains (seen_packet_ids s1) (pid, expect_response pkt)" unfolding s1_def by (rule dedup_and_forward_seen)
  have "calls (route_data_packet L (Some (\<lambda>p s. (p, s))) now2 src2 [] pid pkt s1) = calls s1 @ [PacketForMe pkt]"
    using assms f seen by (simp add: route_data_packet_def deliver_local_def dedup_and_forward_calls)
  moreover have "PacketForMe pkt \<in> set (calls s1)" by (simp add: s1_def dedup_and_forward_calls)
  ultimately show ?thesis by (simp add: r Let_def)
qed

theorem broadcast_delivered_again_witness:
  "let cb = Some (\<lambda>p s. (p, s)); s1 = route_data_packet ex_lib cb 0 ''b'' [] ''09'' ex_packet ex_router in
   calls (route_data_packet ex_lib cb 1 ''c'' [] ''09'' ex_packet s1) = calls s1 @ [PacketForMe ex_packet]"
  using broadcast_delivered_again [of "''b''" ex_router "''c''" ex_packet ex_lib 0 "''09''" 1]
  by (simp add: ex_router_def MeshRouter_def ex_packet_def default_packet_def Let_def)

text \<open>The packet a call puts on the wire, and the way of a packet over several routers (one after the other, in any states).\<close>

fun carried :: "mesh_lib \<Rightarrow> transport_call \<Rightarrow> routed_packet option" where
  "carried L (SendTcp p env) = parse_packet L (env_payload env)"
| "carried L (SendUdp p pkt) = Some pkt"
| "carried L (PacketForMe pkt) = None"

inductive hop :: "mesh_lib \<Rightarrow> routed_packet \<Rightarrow> routed_packet \<Rightarrow> bool" for L where
  hop_forward: "calls (dedup_and_forward L now src dest pid pkt (s :: router)) = calls s @ xs \<Longrightarrow> x \<in> set xs \<Longrightarrow> carried L x = Some pkt' \<Longrightarrow> hop L pkt pkt'"

inductive way :: "mesh_lib \<Rightarrow> routed_packet \<Rightarrow> nat \<Rightarrow> routed_packet \<Rightarrow> bool" for L pkt where
  way_start: "way L pkt 0 pkt"
| way_hop: "way L pkt n q \<Longrightarrow> hop L q q' \<Longrightarrow> way L pkt (Suc n) q'"

lemma fwd_calls_carried:
  assumes "packet_law L"
  shows "x \<in> set (fwd_calls L n pkt ps) \<Longrightarrow> carried L x = Some pkt"
  using assms by (induction ps arbitrary: n) (auto simp: packet_law_def MakeGenericData_def split: transport_protocol.splits)

lemma hop_ttl:
  assumes "packet_law L" "hop L pkt pkt'"
  shows "pkt' = pkt\<lparr>ttl := ttl pkt - 1\<rparr>" "ttl pkt \<noteq> 1"
proof -
  obtain now src dest pid s xs x where h: "calls (dedup_and_forward L now src dest pid pkt (s :: router)) = calls s @ xs" "x \<in> set xs" "carried L x = Some pkt'"
    using assms(2) by (auto elim: hop.cases)
  then have "x \<in> set (emitted L src pkt s (determine_next_hop dest s))" by (auto simp: dedup_and_forward_calls split: if_splits)
  then have "ttl pkt \<noteq> 1" "\<exists>n ps. x \<in> set (fwd_calls L n (pkt\<lparr>ttl := ttl pkt - 1\<rparr>) ps)" by (auto simp: emitted_def split: if_splits)
  then show "pkt' = pkt\<lparr>ttl := ttl pkt - 1\<rparr>" "ttl pkt \<noteq> 1" using h(3) fwd_calls_carried [OF assms(1)] by auto
qed

lemma way_ttl:
  assumes "packet_law L" "way L pkt n q" "ttl pkt \<noteq> 0"
  shows "ttl q \<noteq> 0 \<and> unat (ttl q) + n = unat (ttl pkt)"
  using assms(2)
proof induction
  case (way_hop n q q')
  have t: "ttl q' = ttl q - 1" "ttl q \<noteq> 1" using hop_ttl [OF assms(1) way_hop(2)] by simp_all
  then have "ttl q' \<noteq> 0" by simp
  moreover have "unat (ttl q') = unat (ttl q) - 1" "0 < unat (ttl q)" using way_hop.IH t(1) by (simp_all add: unat_minus_one unat_gt_0)
  ultimately show ?case using way_hop.IH by simp
qed (use assms(3) in simp)

text \<open>
  C26.  The hop count bounds the way of a packet, except at zero.  Over TCP and over UDP, every packet a router forwards is the packet it got with a hop count that
  is smaller by one, and it forwards none with count 1.  So a packet with
  count \<open>n > 0\<close> is forwarded at most \<open>n - 1\<close> times on its way over any routers, and has a count of \<open>n\<close> minus the number of hops.  But a packet that arrives with count 0 is
  forwarded with count \<open>2^32 - 1\<close>.
\<close>

theorem hop_count_decreases:
  assumes "packet_law L"
  shows "(hop L pkt pkt' \<longrightarrow> pkt' = pkt\<lparr>ttl := ttl pkt'\<rparr> \<and> ttl pkt \<noteq> 1 \<and> unat (ttl pkt') = (if ttl pkt = 0 then 2 ^ 32 - 1 else unat (ttl pkt) - 1)) \<and>
    (way L pkt n q \<and> ttl pkt \<noteq> 0 \<longrightarrow> n \<le> unat (ttl pkt) - 1 \<and> unat (ttl q) = unat (ttl pkt) - n)"
proof (intro conjI impI)
  assume "hop L pkt pkt'"
  from hop_ttl [OF assms this] show "pkt' = pkt\<lparr>ttl := ttl pkt'\<rparr>" "ttl pkt \<noteq> 1" by simp_all
  have "unat (ttl pkt - 1) = (if ttl pkt = 0 then 2 ^ 32 - 1 else unat (ttl pkt) - 1)"
    by (simp add: unat_minus_one) (simp add: unsigned_minus_1_eq_mask mask_eq_exp_minus_1)
  then show "unat (ttl pkt') = (if ttl pkt = 0 then 2 ^ 32 - 1 else unat (ttl pkt) - 1)" using hop_ttl(1) [OF assms \<open>hop L pkt pkt'\<close>] by simp
next
  assume w: "way L pkt n q \<and> ttl pkt \<noteq> 0"
  then have "ttl q \<noteq> 0" "unat (ttl q) + n = unat (ttl pkt)" using way_ttl [OF assms] by blast+
  then show "n \<le> unat (ttl pkt) - 1" "unat (ttl q) = unat (ttl pkt) - n" by (simp_all add: unat_gt_0 [symmetric])
qed

theorem hop_count_decreases_witness:
  "let pkt = ex_packet\<lparr>transport := TCP, ttl := 0\<rparr>; pkt' = pkt\<lparr>ttl := - 1\<rparr> in hop (ex_proto (\<lambda>n. [])) pkt pkt' \<and> unat (ttl pkt') = 2 ^ 32 - 1"
proof -
  let ?L = "ex_proto (\<lambda>n. [])" and ?pkt = "ex_packet\<lparr>transport := TCP, ttl := 0\<rparr>"
  let ?x = "SendTcp ''c'' (MakeGenericData [] (packet_bytes ?L (?pkt\<lparr>ttl := - 1\<rparr>)))"
  have l: "packet_law ?L" by simp
  have "calls (dedup_and_forward ?L 0 ''b'' ''c'' ''09'' ?pkt ex_router) = calls ex_router @ [?x]"
    by (simp add: dedup_and_forward_calls emitted_def determine_next_hop_def ex_router_def MeshRouter_def new_dedup_def dedup_contains_def ex_packet_def)
  moreover have "carried ?L ?x = Some (?pkt\<lparr>ttl := - 1\<rparr>)" using l by (simp add: MakeGenericData_def packet_law_def)
  ultimately have "hop ?L ?pkt (?pkt\<lparr>ttl := - 1\<rparr>)" by (intro hop_forward [where x = ?x and xs = "[?x]"]) simp_all
  moreover have "hop ?L ?pkt (?pkt\<lparr>ttl := - 1\<rparr>) \<longrightarrow> unat (ttl (?pkt\<lparr>ttl := - 1\<rparr>)) = 2 ^ 32 - 1"
    using hop_count_decreases [OF l, of ?pkt "?pkt\<lparr>ttl := - 1\<rparr>" 0 ?pkt] by auto
  ultimately show ?thesis unfolding Let_def by blast
qed

section \<open>Properties of routing updates\<close>

lemma learn_costs_lookup:
  assumes "distinct (map fst cs)"
  shows "map_of (foldl learn_cost r cs) d =
    (case map_of cs d of None \<Rightarrow> map_of r d | Some c \<Rightarrow> if c \<ge> INF_COST then None else Some c)"
  using assms
proof (induction cs arbitrary: r)
  case (Cons dc cs)
  obtain d' c where dc: "dc = (d', c)" by force
  have "d = d' \<Longrightarrow> map_of cs d = None" using Cons.prems dc by (simp add: map_of_eq_None_iff)
  then show ?case
    using Cons.IH [of "learn_cost r dc"] Cons.prems
    by (auto simp: learn_cost_def dc update_conv' delete_conv' split: option.split)
qed simp

lemma full_costs_lookup:
  "map_of (full_costs ft nb) d = map_option (\<lambda>e. if next_hop e = nb then INF_COST else cost e) (map_of ft d)"
  unfolding full_costs_def by (rule map_of_map_snd)

lemma full_costs_distinct: "distinct (map fst ft) \<Longrightarrow> distinct (map fst (full_costs ft nb))"
  by (simp add: full_costs_def comp_def split_beta)

lemma update_view:
  assumes "distinct (map fst costs)" "views_ok s"
  shows "(\<exists>view. (nb, view) \<in> set (neighbor_views (process_routing_update_locked now nb costs s))
             \<and> (d, c) \<in> set (advertised_routes view))
       \<longleftrightarrow> (case map_of costs d of None \<Rightarrow> map_of (advertised_routes (view_of s nb)) d = Some c | Some x \<Rightarrow> x < INF_COST \<and> c = x)"
proof -
  let ?r = "foldl learn_cost (advertised_routes (view_of s nb)) costs"
  let ?vs = "AList.update nb \<lparr>advertised_routes = ?r, last_heard_from = now\<rparr> (neighbor_views s)"
  have "distinct (map fst ?vs)" using assms(2) by (simp add: views_ok_def distinct_update)
  then have "(nb, view) \<in> set ?vs \<longleftrightarrow> view = \<lparr>advertised_routes = ?r, last_heard_from = now\<rparr>" for view
    by (metis map_of_eq_Some_iff update_conv' fun_upd_same option.inject)
  moreover have "costs_ok ?r" by (rule learn_cost_ok [OF view_of_ok [OF assms(2)]])
  then have "(d, c) \<in> set ?r \<longleftrightarrow> map_of ?r d = Some c" by (simp add: costs_ok_def)
  ultimately show ?thesis
    by (auto simp: process_routing_update_locked_def learn_costs_lookup [OF assms(1)] not_less split: option.split)
qed

text \<open>
  C10.  Poison reverse excludes loops of two routers.  Let \<open>B\<close> take in the full table that \<open>A\<close>
  last sent it, and let \<open>A\<close> have an entry for \<open>d\<close>.  If \<open>B\<close> then routes \<open>d\<close> through \<open>A\<close>, then \<open>A\<close> has a
  live route to \<open>d\<close> that is one hop shorter and does not go back through \<open>B\<close>.
\<close>

theorem no_two_router_loop:
  fixes A B :: "'z router_scheme"
  assumes "router_inv A" "router_inv B" "self_id A \<noteq> self_id B" "d \<noteq> self_id A"
    and "map_of (forwarding_table A) d \<noteq> None"
    and "live (process_routing_update_locked now (self_id A) (full_costs (forwarding_table A) (self_id B)) B) d = Some (self_id A, c)"
  shows "\<exists>nh. live A d = Some (nh, c - 1) \<and> nh \<noteq> self_id B"
proof -
  let ?cs = "full_costs (forwarding_table A) (self_id B)"
  let ?B = "process_routing_update_locked now (self_id A) ?cs B"
  have "router_inv ?B" by (rule process_routing_update_inv [OF assms(2)])
  then have best: "best_route ?B d (Some (self_id A, c))" using assms(6) by (metis router_inv_def)
  have self: "self_id ?B = self_id B" by (simp add: process_routing_update_locked_def)
  have "(self_id A, c) \<in> offered ?B d"
    using best assms(3,4) self by (auto simp: best_route_def split: if_splits)
  then obtain view x where v: "(self_id A, view) \<in> set (neighbor_views ?B)" "(d, x) \<in> set (advertised_routes view)" "c = x + 1"
    by (auto simp: offered_def)
  obtain e where e: "map_of (forwarding_table A) d = Some e" using assms(5) by auto
  have cs: "distinct (map fst ?cs)" "map_of ?cs d = Some (if next_hop e = self_id B then INF_COST else cost e)"
    using assms(1) e by (auto simp: router_inv_def table_ok_def full_costs_distinct full_costs_lookup)
  have "views_ok B" using assms(2) by (simp add: router_inv_def)
  then have "(if next_hop e = self_id B then INF_COST else cost e) < INF_COST \<and> x = (if next_hop e = self_id B then INF_COST else cost e)"
    using update_view [OF cs(1), of B "self_id A" now d x] v cs(2) by auto
  then show ?thesis using e v(3) by (auto simp: live_def route_of_def split: if_splits)
qed

theorem no_two_router_loop_witness:
  "let A = ex_router; B = MeshRouter 0 ''b'' True in
   \<exists>nh. live A ''c'' = Some (nh, 2 - 1) \<and> nh \<noteq> self_id B"
proof -
  define B B1 where "B = MeshRouter 0 ''b'' True"
    and "B1 = process_routing_update_locked 0 (self_id ex_router) (full_costs (forwarding_table ex_router) (self_id B)) B"
  have invB: "router_inv B" by (rule initial_inv [of _ 0 "''b''" True]) (simp add: B_def router.truncate_def MeshRouter_def)
  then have "router_inv B1" unfolding B1_def by (rule process_routing_update_inv)
  then have best: "best_route B1 ''c'' (live B1 ''c'')" by (simp add: router_inv_def)
  have ids: "self_id ex_router = ''a''" "self_id B = ''b''" "map_of (forwarding_table ex_router) ''c'' \<noteq> None"
    by (simp_all add: ex_router_def MeshRouter_def B_def)
  have nv: "neighbor_views B1 = [(''a'', \<lparr>advertised_routes = [(''a'', 0), (''c'', 1)], last_heard_from = 0\<rparr>)]"
    unfolding B1_def process_routing_update_locked_def ids
    by (simp add: B_def MeshRouter_def ex_router_def full_costs_def view_of_def learn_cost_def)
  have "self_id B1 = ''b''" unfolding B1_def process_routing_update_locked_def by (simp add: ids)
  moreover have "offered B1 ''c'' = {(''a'', 2)}" "neighbors B1 = {''a''}" by (auto simp: offered_def neighbors_def nv)
  ultimately have "live B1 ''c'' = Some (''a'', 2)" using best by (auto simp: best_route_def split: option.splits)
  then have "\<exists>nh. live ex_router ''c'' = Some (nh, 2 - 1) \<and> nh \<noteq> self_id B"
    unfolding B1_def by (intro no_two_router_loop [OF ex_router_inv invB, of "''c''" 0 2]) (simp_all add: ids)
  then show ?thesis by (simp add: B_def Let_def)
qed

lemma send_update_fields [simp]:
  "forwarding_table (send_update L hops nb costs s) = forwarding_table s"
  "self_id (send_update L hops nb costs s) = self_id s" "has_transport (send_update L hops nb costs s) = has_transport s"
  by (simp_all add: send_update_def draw_uuid_def Let_def)

lemma full_broadcast_calls:
  assumes "has_transport s"
  shows "calls (foldl (\<lambda>s (nb, view). send_update L 15 nb (full_costs (forwarding_table s) nb) s) s vs) = calls s @
    map (\<lambda>(i, nb). SendTcp nb (default_envelope\<lparr>env_type := DATA,
           env_payload := packet_bytes L (MakeRoutingTableRoutedPacket (uuid L i) (self_id s) nb 15
             (full_costs (forwarding_table s) nb))\<rparr>))
      (enumerate (uuid_count s) (map fst vs))"
  using assms
proof (induction vs arbitrary: s)
  case (Cons v vs)
  obtain nb view where v: "v = (nb, view)" by force
  let ?s = "send_update L 15 nb (full_costs (forwarding_table s) nb) s"
  have "uuid_count ?s = Suc (uuid_count s)" "calls ?s = calls s @ [SendTcp nb (default_envelope\<lparr>env_type := DATA,
     env_payload := packet_bytes L (MakeRoutingTableRoutedPacket (uuid L (uuid_count s)) (self_id s) nb 15 (full_costs (forwarding_table s) nb))\<rparr>)]"
    using Cons.prems by (simp_all add: send_update_def draw_uuid_def Let_def)
  then show ?case using Cons.IH [of ?s] Cons.prems v by simp
qed simp

text \<open>
  C29.  What a full table broadcast puts on the wire: for each neighbour, in the order of the views, exactly one TCP message with a fresh UUID,
  whose payload is a routing update from this router to the neighbour with a hop count of 15.  It lists every entry of the table, with
  the cost 16 (unreachable) if the neighbour is the entry's next hop and the cost of the entry if it is not.
\<close>

theorem full_table_broadcast_content:
  assumes "has_transport s"
  shows "calls (broadcast_full_table L s) = calls s @
    map (\<lambda>(i, nb). SendTcp nb \<lparr>msg_id = [], env_from = default_ip, env_to = default_ip, env_type = DATA,
        env_payload = packet_bytes L \<lparr>pkt_id = uuid L i, from_peer_id = self_id s, to_peer_id = nb, ttl = 15, pkt_type = ROUTING_UPDATE,
          transport = TCP, subtype = [], expect_response = False, signature = [], encrypted_session_key = [],
          payload_variant = RouteTable (map (\<lambda>(dest, e). (dest, if next_hop e = nb then 16 else cost e)) (forwarding_table s))\<rparr>, env_expect_response = False\<rparr>)
      (enumerate (uuid_count s) (map fst (neighbor_views s)))"
  unfolding broadcast_full_table_def full_broadcast_calls [OF assms] unfolding full_costs_def INF_COST_def
  by (simp add: default_envelope_def MakeRoutingTableRoutedPacket_def default_packet_def)

theorem full_table_broadcast_content_witness:
  "map (\<lambda>c. case c of SendTcp nb env \<Rightarrow> nb | _ \<Rightarrow> []) (calls (broadcast_full_table ex_lib ex_router)) = [''b'', ''c'']"
proof -
  have "has_transport ex_router" "calls ex_router = []" "map fst (neighbor_views ex_router) = [''b'', ''c'']"
    by (simp_all add: ex_router_def MeshRouter_def)
  then show ?thesis using full_table_broadcast_content [of ex_router ex_lib] by simp
qed

section \<open>Properties of maintenance\<close>

lemma fold_send_update_fields:
  "neighbor_views (foldl (\<lambda>s (nb, view). send_update L hops nb (f s nb) s) s vs) = neighbor_views s"
  "forwarding_table (foldl (\<lambda>s (nb, view). send_update L hops nb (f s nb) s) s vs) = forwarding_table s"
proof -
  have "same_routes (foldl (\<lambda>s (nb, view). send_update L hops nb (f s nb) s) s vs) s"
    by (rule same_routes_fold) (auto simp: send_update_same split: prod.split)
  then show "neighbor_views (foldl (\<lambda>s (nb, view). send_update L hops nb (f s nb) s) s vs) = neighbor_views s"
    "forwarding_table (foldl (\<lambda>s (nb, view). send_update L hops nb (f s nb) s) s vs) = forwarding_table s"
    by (simp_all add: same_routes_def)
qed

lemma triggered_views: "neighbor_views (send_triggered_updates L s) = neighbor_views s"
  by (simp add: send_triggered_updates_def Let_def fold_send_update_fields)

lemma broadcast_views: "neighbor_views (broadcast_full_table L s) = neighbor_views s"
  using broadcast_full_table_same [of L s] by (simp add: same_routes_def)

text \<open>The routes, without the flag that an update is due.\<close>

definition route_fields :: "route_entry \<Rightarrow> peer_id \<times> u32 \<times> time_ms" where
  "route_fields e = (next_hop e, cost e, last_updated e)"

lemma triggered_table:
  "forwarding_table (send_triggered_updates L s) =
   map (\<lambda>(dest, e). (dest, if dirty e \<or> cost e \<ge> INF_COST then e\<lparr>dirty := False\<rparr> else e)) (forwarding_table s)"
  by (simp add: send_triggered_updates_def Let_def fold_send_update_fields)

lemma triggered_routes:
  "map fst (forwarding_table (send_triggered_updates L s)) = map fst (forwarding_table s)"
  "map_option route_fields (map_of (forwarding_table (send_triggered_updates L s)) d) = map_option route_fields (map_of (forwarding_table s) d)"
proof -
  show "map fst (forwarding_table (send_triggered_updates L s)) = map fst (forwarding_table s)"
    unfolding triggered_table by (simp add: comp_def split_beta)
  show "map_option route_fields (map_of (forwarding_table (send_triggered_updates L s)) d) = map_option route_fields (map_of (forwarding_table s) d)"
    unfolding triggered_table map_of_map_snd by (cases "map_of (forwarding_table s) d") (simp_all add: route_fields_def)
qed

text \<open>The last step of maintenance on the table.\<close>

lemma dead_routes_dropped:
  assumes "distinct (map fst ft)" "map_option route_fields (map_of ft d) = map_option route_fields (map_of ft0 d)"
  shows "map_option route_fields (map_of (filter (\<lambda>(dest, e). \<not> (cost e \<ge> INF_COST \<and> now - last_updated e > 15000)) ft) d) =
    (case map_of ft0 d of None \<Rightarrow> None | Some e \<Rightarrow> if cost e \<ge> 16 \<and> now - last_updated e > 15000 then None else Some (route_fields e))"
proof (cases "map_of ft d")
  case None
  then show ?thesis using assms(2) by (cases "map_of ft0 d") (simp_all add: map_of_filter [OF assms(1)])
next
  case (Some e)
  then obtain e0 where e0: "map_of ft0 d = Some e0" "route_fields e0 = route_fields e" using assms(2) by (cases "map_of ft0 d") auto
  then show ?thesis using Some by (simp add: map_of_filter [OF assms(1)] route_fields_def INF_COST_def)
qed

text \<open>
  C27.  Periodic maintenance keeps exactly the neighbours heard from within 180 seconds.  If one has been dropped, the routes are
  recalculated first.  Then exactly the routes that have been unreachable (cost 16 or more) for more than 15 seconds are removed: every other route,
  an unreachable one in its first 15 seconds included, is in the table with the same next hop, cost and time.  Afterwards the routes are
  the best ones for the remaining neighbours.
\<close>

theorem maintenance_expires_silent_neighbors:
  assumes "router_inv s" and views: "views = filter (\<lambda>(p, v). now - last_heard_from v \<le> 180000) (neighbor_views s)"
    and r: "r = (if views = neighbor_views s then s else recalculate_forwarding_table_locked now (s\<lparr>neighbor_views := views\<rparr>))"
  shows "neighbor_views (run_periodic_maintenance L now s) = views
    \<and> map_option route_fields (map_of (forwarding_table (run_periodic_maintenance L now s)) d) =
        (case map_of (forwarding_table r) d of None \<Rightarrow> None
         | Some e \<Rightarrow> if cost e \<ge> 16 \<and> now - last_updated e > 15000 then None else Some (route_fields e))
    \<and> best_route (run_periodic_maintenance L now s) d (live (run_periodic_maintenance L now s) d)"
proof (intro conjI)
  let ?ex = "list_ex (\<lambda>(p, v). now - last_heard_from v > ROUTE_TIMEOUT) (neighbor_views s)"
  have v: "views = filter (\<lambda>pv. \<not> (\<lambda>(p, v). now - last_heard_from v > ROUTE_TIMEOUT) pv) (neighbor_views s)"
    unfolding views by (rule filter_cong) (auto simp: ROUTE_TIMEOUT_def)
  have "views = neighbor_views s \<longleftrightarrow> \<not> ?ex" unfolding v by (auto simp: filter_id_conv list_ex_iff)
  then have "(if ?ex then recalculate_forwarding_table_locked now (s\<lparr>neighbor_views := views\<rparr>) else s\<lparr>neighbor_views := views\<rparr>) = r"
    using r by auto
  note e = run_periodic_maintenance_def [of L now s, unfolded Let_def v [symmetric] this]
  show "neighbor_views (run_periodic_maintenance L now s) = views"
    unfolding e by (auto simp: triggered_views broadcast_views r)
  define s1 where "s1 = (if trigger_pending r \<and> now \<ge> trigger_deadline r then (send_triggered_updates L r)\<lparr>trigger_pending := False\<rparr> else r)"
  define s2 where "s2 = (if now - last_periodic_update s1 > UPDATE_INTERVAL then (broadcast_full_table L s1)\<lparr>last_periodic_update := now\<rparr> else s1)"
  have ft: "forwarding_table (run_periodic_maintenance L now s) = filter (\<lambda>(dest, e). \<not> (cost e \<ge> INF_COST \<and> now - last_updated e > 15000)) (forwarding_table s2)"
    unfolding e s2_def s1_def by simp
  have "table_ok s" "table_ok (s\<lparr>neighbor_views := views\<rparr>)" using assms(1) by (simp_all add: router_inv_def table_ok_def)
  then have "table_ok r" using r recalculate_table_ok [of "s\<lparr>neighbor_views := views\<rparr>" now] by simp
  then have "distinct (map fst (forwarding_table r))" by (simp add: table_ok_def)
  moreover have "forwarding_table s2 = forwarding_table s1" using broadcast_full_table_same [of L s1] by (simp add: s2_def same_routes_def)
  ultimately show "map_option route_fields (map_of (forwarding_table (run_periodic_maintenance L now s)) d) =
      (case map_of (forwarding_table r) d of None \<Rightarrow> None
       | Some e \<Rightarrow> if cost e \<ge> 16 \<and> now - last_updated e > 15000 then None else Some (route_fields e))"
    unfolding ft by (intro dead_routes_dropped) (simp_all add: s1_def triggered_routes)
  show "best_route (run_periodic_maintenance L now s) d (live (run_periodic_maintenance L now s) d)"
    using maintenance_inv [OF assms(1)] by (simp add: router_inv_def)
qed

theorem maintenance_expires_silent_neighbors_witness:
  "neighbor_views (run_periodic_maintenance ex_lib 180001 ex_router) = []"
  using maintenance_expires_silent_neighbors [OF ex_router_inv refl refl, where now = 180001 and L = ex_lib and d = "[]"]
  by (simp add: ex_router_def)

text \<open>
  C28.  A routing update is taken in completely: afterwards the neighbour's view holds exactly
  the advertised costs below 16 of the update, has lost the routes the update withdraws, and
  keeps what the update does not mention; and the routes are again the best ones.
\<close>

theorem routing_update_taken_in:
  assumes "router_inv s" "distinct (map fst costs)"
  shows "map_of (advertised_routes (view_of (process_routing_update_locked now nb costs s) nb)) d =
       (case map_of costs d of None \<Rightarrow> map_of (advertised_routes (view_of s nb)) d
        | Some c \<Rightarrow> if c \<ge> 16 then None else Some c)
    \<and> best_route (process_routing_update_locked now nb costs s) d (live (process_routing_update_locked now nb costs s) d)"
proof -
  have "view_of (process_routing_update_locked now nb costs s) nb
      = \<lparr>advertised_routes = foldl learn_cost (advertised_routes (view_of s nb)) costs, last_heard_from = now\<rparr>"
    by (simp add: view_of_def process_routing_update_locked_def update_conv')
  then show ?thesis
    using process_routing_update_inv [OF assms(1)] learn_costs_lookup [OF assms(2), unfolded INF_COST_def]
    by (simp add: router_inv_def)
qed

theorem routing_update_taken_in_witness:
  "map_of (advertised_routes (view_of (process_routing_update_locked 3 ''b'' [(''x'', 2), (''y'', 16)] ex_router) ''b'')) ''x'' = Some 2"
  using routing_update_taken_in [OF ex_router_inv, of "[(''x'', 2), (''y'', 16)]" 3 "''b''" "''x''"]
  by (simp add: word_le_nat_alt)

end
