(* ===== verification/Session.thy ===== *)
theory Session
  imports Packets
begin

text \<open>
  \<^verbatim>\<open>GenericSession\<close> of \<^verbatim>\<open>net/Session.cpp\<close>: messages framed as 16 id bytes, a length in network byte
  order and the payload, over a byte stream.  All handlers of a session run on one strand,
  so each is an atomic step.  The stream is not modelled beyond what the session uses of it:
  a read of \<open>n\<close> bytes completes when \<open>n\<close> bytes have arrived, and a write completes with or
  without an error.

  \<open>session_error\<close> values are uses of the C++ library outside its contract.
\<close>

section \<open>Framing\<close>

datatype session_error = ReadPastEnd | PopEmpty

text \<open>\<^verbatim>\<open>None\<close>: the payload is too large and nothing is sent.\<close>

definition frame_message :: "bytes \<Rightarrow> bytes \<Rightarrow> session_error + bytes option" where
  "frame_message req_id message =
     (if length message > 2 ^ 32 - 1 then Inr None
      else if length req_id < 16 then Inl ReadPastEnd
      else Inr (Some (take 16 req_id @ be32 (of_nat (length message)) @ message)))"

section \<open>The reading side\<close>

datatype read_state = ReadHeader | ReadPayload bytes nat | Stopped

record reader =
  read_state :: read_state
  unread :: bytes
  handled :: "(bytes \<times> bytes) list"

definition new_reader :: reader where
  "new_reader = \<lparr>read_state = ReadHeader, unread = [], handled = []\<rparr>"

definition header_len :: "bytes \<Rightarrow> u32" where
  "header_len h = from_be32 (h ! 16) (h ! 17) (h ! 18) (h ! 19)"

text \<open>The handler of \<^verbatim>\<open>do_read_header\<close>: the state after a complete header \<open>h\<close>.\<close>

definition on_header :: "bytes \<Rightarrow> read_state" where
  "on_header h = (if unat (header_len h) > 10 * 1024 * 1024 then Stopped else ReadPayload (take 16 h) (unat (header_len h)))"

text \<open>All reads that can complete with the bytes that have arrived.\<close>

function read_all :: "read_state \<Rightarrow> bytes \<Rightarrow> (bytes \<times> bytes) list \<Rightarrow> read_state \<times> bytes \<times> (bytes \<times> bytes) list" where
  "read_all ReadHeader buf out =
     (if length buf < 20 then (ReadHeader, buf, out) else read_all (on_header (take 20 buf)) (drop 20 buf) out)"
| "read_all (ReadPayload mid len) buf out =
     (if length buf < len then (ReadPayload mid len, buf, out)
      else read_all ReadHeader (drop len buf) (out @ [(mid, take len buf)]))"
| "read_all Stopped buf out = (Stopped, [], out)"
  by pat_completeness auto
termination
  by (relation "measure (\<lambda>(st, buf, out). 2 * length buf + (case st of ReadPayload mid len \<Rightarrow> 1 | _ \<Rightarrow> 0))")
    (auto simp: on_header_def split: if_splits)

definition receive :: "bytes \<Rightarrow> reader \<Rightarrow> reader" where
  "receive chunk r =
     (let (st, buf, out) = read_all (read_state r) (unread r @ chunk) (handled r)
      in \<lparr>read_state = st, unread = buf, handled = out\<rparr>)"

section \<open>The writing side\<close>

record writer =
  stream_open :: bool
  outbox :: "bytes list"
  in_flight :: "bytes option"
  written :: "bytes list"

definition new_writer :: writer where
  "new_writer = \<lparr>stream_open = True, outbox = [], in_flight = None, written = []\<rparr>"

definition do_write :: "writer \<Rightarrow> writer" where
  "do_write w = (if outbox w = [] then w else w\<lparr>in_flight := Some (hd (outbox w))\<rparr>)"

text \<open>The posted handler of \<^verbatim>\<open>async_send_message\<close>.\<close>

definition enqueue :: "bytes \<Rightarrow> writer \<Rightarrow> writer" where
  "enqueue data w =
     (let write_in_progress = (outbox w \<noteq> []); w = w\<lparr>outbox := outbox w @ [data]\<rparr>
      in if \<not> write_in_progress then do_write w else w)"

definition session_stop :: "writer \<Rightarrow> writer" where
  "session_stop w = (if \<not> stream_open w then w else w\<lparr>stream_open := False, outbox := []\<rparr>)"

text \<open>The completion handler of a write; \<open>ec\<close> says whether it failed.\<close>

definition on_written :: "bool \<Rightarrow> writer \<Rightarrow> session_error + writer" where
  "on_written ec w =
     (let done = (case in_flight w of None \<Rightarrow> [] | Some b \<Rightarrow> if ec then [] else [b]);
          w = w\<lparr>in_flight := None, written := written w @ done\<rparr>
      in if ec then Inr (session_stop w)
         else if outbox w = [] then Inl PopEmpty
         else let w = w\<lparr>outbox := tl (outbox w)\<rparr> in Inr (if outbox w \<noteq> [] then do_write w else w))"

section \<open>Reading is independent of the chunks\<close>

lemma read_all_append:
  "read_all st (buf @ rest) out = (let (st', buf', out') = read_all st buf out in read_all st' (buf' @ rest) out')"
proof (induction st buf out rule: read_all.induct)
  case (1 buf out)
  show ?case
  proof (cases "length buf < 20")
    case False
    then show ?thesis using 1 by simp
  qed simp
next
  case (2 mid len buf out)
  show ?case
  proof (cases "length buf < len")
    case False
    then show ?thesis using 2 by simp
  qed simp
qed simp

lemma receive_append: "receive d (receive c r) = receive (c @ d) r"
proof -
  obtain st buf out where a: "read_all (read_state r) (unread r @ c) (handled r) = (st, buf, out)" by (cases "read_all (read_state r) (unread r @ c) (handled r)") auto
  show ?thesis
    using read_all_append [of "read_state r" "unread r @ c" d "handled r"] a by (simp add: receive_def)
qed

lemma receive_chunks: "fold receive chunks (receive c r) = receive (c @ concat chunks) r"
  by (induction chunks arbitrary: c) (simp_all add: receive_append)

section \<open>Round trip\<close>

definition frame :: "bytes \<times> bytes \<Rightarrow> bytes" where
  "frame im = fst im @ be32 (of_nat (length (snd im))) @ snd im"

definition sendable :: "bytes \<times> bytes \<Rightarrow> bool" where
  "sendable im \<longleftrightarrow> length (fst im) = 16 \<and> length (snd im) \<le> 10 * 1024 * 1024"

lemma header_len_frame:
  assumes "length i = 16"
  shows "header_len (i @ be32 w) = w"
  using assms by (simp add: header_len_def be32_def nth_append)

lemma unat_len: "length (m :: bytes) \<le> 2 ^ 32 - 1 \<Longrightarrow> unat (of_nat (length m) :: u32) = length m"
  by (simp add: unsigned_of_nat take_bit_eq_mod)

lemma read_frame:
  assumes "sendable (i, m)"
  shows "read_all ReadHeader (frame (i, m) @ rest) out = read_all ReadHeader rest (out @ [(i, m)])"
proof -
  have l: "length i = 16" "length m \<le> 10485760" using assms by (simp_all add: sendable_def)
  have u: "unat (of_nat (length m) :: u32) = length m" using l(2) by (intro unat_len) simp
  have t: "take 20 (frame (i, m) @ rest) = i @ be32 (of_nat (length m))" "drop 20 (frame (i, m) @ rest) = m @ rest"
    using l(1) by (simp_all add: frame_def)
  have h: "on_header (i @ be32 (of_nat (length m))) = ReadPayload i (length m)"
    using l u by (simp add: on_header_def header_len_frame)
  have "\<not> length (frame (i, m) @ rest) < 20" using l(1) by (simp add: frame_def)
  then have "read_all ReadHeader (frame (i, m) @ rest) out = read_all (ReadPayload i (length m)) (m @ rest) out"
    unfolding read_all.simps(1) [of "frame (i, m) @ rest"] by (simp only: t h if_False)
  then show ?thesis by simp
qed

lemma read_frames:
  "list_all sendable ims \<Longrightarrow> read_all ReadHeader (concat (map frame ims)) out = (ReadHeader, [], out @ ims)"
proof (induction ims arbitrary: out)
  case (Cons im ims)
  then show ?case using read_frame [of "fst im" "snd im" "concat (map frame ims)" out] by simp
qed simp

text \<open>
  C7.  Messages arrive as they were sent.  Frames of messages with 16 id bytes and at most
  10 MB, cut into arbitrary chunks by the network, make the reader call its handler for
  exactly these messages, in order, and leave it waiting for the next header.
\<close>

theorem session_roundtrip:
  assumes "list_all sendable ims" "concat chunks = concat (map (\<lambda>(i, m). the (case frame_message i m of Inr f \<Rightarrow> f)) ims)"
  shows "fold receive chunks new_reader = \<lparr>read_state = ReadHeader, unread = [], handled = ims\<rparr>"
proof -
  have "(case frame_message i m of Inr f \<Rightarrow> f) = Some (frame (i, m))" if "sendable (i, m)" for i m
    using that by (simp add: sendable_def frame_message_def frame_def)
  then have f: "concat chunks = concat (map frame ims)"
    using assms by (auto simp: list_all_iff intro!: arg_cong [where f = concat] map_cong split: prod.split)
  have "fold receive chunks new_reader = receive (concat chunks) new_reader"
    using receive_chunks [of chunks "[]" new_reader] by (simp add: receive_def new_reader_def)
  then show ?thesis using read_frames [OF assms(1), of "[]"] f by (simp add: receive_def new_reader_def)
qed

theorem session_roundtrip_witness:
  "fold receive [replicate 10 1, replicate 6 1 @ [0, 0], [0, 2, 7], [8]] new_reader
     = \<lparr>read_state = ReadHeader, unread = [], handled = [(replicate 16 1, [7, 8])]\<rparr>"
proof -
  have "be32 2 = [0, 0, 0, 2]" by (simp add: be32_def)
  moreover have "replicate 16 (1 :: u8) = replicate 10 1 @ replicate 6 1" by (simp only: replicate_add [symmetric]) simp
  ultimately have "concat [replicate 10 1, replicate 6 1 @ [0, 0], [0, 2, 7], [8]] = replicate 16 1 @ be32 2 @ [7, 8]" by simp
  then show ?thesis
    by (intro session_roundtrip) (simp_all add: sendable_def frame_message_def)
qed

text \<open>
  C32.  The two sides disagree about the size of a message: the sender accepts up to
  \<open>2^32 - 1\<close> bytes, but for every message above 10 MB the receiver stops the session at the
  header, and nothing that follows is ever handled.
\<close>

theorem oversized_message_ends_session:
  assumes "length i = 16" "10 * 1024 * 1024 < length m" "length m \<le> 2 ^ 32 - 1"
  shows "\<exists>f. frame_message i m = Inr (Some f) \<and> fold receive (f # later) new_reader = \<lparr>read_state = Stopped, unread = [], handled = []\<rparr>"
proof -
  have u: "unat (of_nat (length m) :: u32) = length m" using assms(3) by (rule unat_len)
  let ?h = "i @ be32 (of_nat (length m))"
  have f: "frame_message i m = Inr (Some (?h @ m))" using assms by (simp add: frame_message_def)
  have "on_header ?h = Stopped" using assms u by (simp add: on_header_def header_len_frame)
  then have "read_all ReadHeader (?h @ m @ rest) [] = (Stopped, [], [])" for rest
    unfolding read_all.simps(1) [of "?h @ m @ rest"] using assms(1) by simp
  then have "receive (?h @ m @ concat later) new_reader = \<lparr>read_state = Stopped, unread = [], handled = []\<rparr>"
    by (simp add: receive_def new_reader_def)
  then show ?thesis using f receive_chunks [of later "?h @ m" new_reader] by simp
qed

theorem oversized_message_ends_session_witness:
  "\<exists>f. frame_message (replicate 16 1) (replicate 10485761 0) = Inr (Some f)
     \<and> fold receive (f # [[1, 2]]) new_reader = \<lparr>read_state = Stopped, unread = [], handled = []\<rparr>"
  by (rule oversized_message_ends_session) simp_all

section \<open>Writing\<close>

datatype write_event = Enqueue bytes | Written bool | Stop

fun write_step :: "writer \<Rightarrow> write_event \<Rightarrow> session_error + writer" where
  "write_step w (Enqueue d) = Inr (enqueue d w)"
| "write_step w (Written ec) = on_written ec w"
| "write_step w Stop = Inr (session_stop w)"

fun write_run :: "writer \<Rightarrow> write_event list \<Rightarrow> session_error + writer" where
  "write_run w [] = Inr w"
| "write_run w (e # es) = (case write_step w e of Inl x \<Rightarrow> Inl x | Inr w' \<Rightarrow> write_run w' es)"

text \<open>A completion is only delivered for a write that was started.\<close>

fun completions_ok :: "writer \<Rightarrow> write_event list \<Rightarrow> bool" where
  "completions_ok w [] = True"
| "completions_ok w (e # es) \<longleftrightarrow> (e = Written True \<or> e = Written False \<longrightarrow> in_flight w \<noteq> None)
     \<and> (case write_step w e of Inl x \<Rightarrow> True | Inr w' \<Rightarrow> completions_ok w' es)"

definition writer_ok :: "writer \<Rightarrow> bool" where
  "writer_ok w \<longleftrightarrow> stream_open w \<and> in_flight w = (if outbox w = [] then None else Some (hd (outbox w)))"

fun queued :: "write_event list \<Rightarrow> bytes list" where
  "queued [] = []"
| "queued (Enqueue d # es) = d # queued es"
| "queued (e # es) = queued es"

definition accounted :: "writer \<Rightarrow> bytes list" where
  "accounted w = written w @ outbox w"

lemma writer_step_ok:
  assumes "writer_ok w"
  shows "writer_ok (enqueue d w)" "accounted (enqueue d w) = accounted w @ [d]"
    and "in_flight w \<noteq> None \<Longrightarrow> \<exists>w'. on_written False w = Inr w' \<and> writer_ok w' \<and> accounted w' = accounted w"
  using assms
  by (cases "outbox w"; auto simp: writer_ok_def accounted_def enqueue_def do_write_def on_written_def Let_def)+

text \<open>
  C31.  Nothing is lost, duplicated or reordered while the connection works: after any
  sequence of sends and successful completions, the messages written so far followed by the
  queue are the messages sent, in order, and a write is under way exactly when the queue is
  not empty.  Stopping is the exception: when the session is stopped while a write is under
  way and that write still completes without an error, the completion handler removes an
  element from an empty queue, which is undefined behaviour.
\<close>

theorem writer_keeps_order:
  "(list_all (\<lambda>e. e \<noteq> Stop \<and> e \<noteq> Written True) es \<and> completions_ok new_writer es
     \<longrightarrow> (\<exists>w. write_run new_writer es = Inr w \<and> written w @ outbox w = queued es
           \<and> (in_flight w \<noteq> None \<longleftrightarrow> outbox w \<noteq> [])))
   \<and> write_run new_writer [Enqueue d, Stop, Written False] = Inl PopEmpty"
proof (intro conjI impI)
  have "\<exists>w'. write_run w es = Inr w' \<and> writer_ok w' \<and> accounted w' = accounted w @ queued es"
    if "writer_ok w" "list_all (\<lambda>e. e \<noteq> Stop \<and> e \<noteq> Written True) es" "completions_ok w es" for w
    using that
  proof (induction es arbitrary: w)
    case (Cons e es)
    show ?case
    proof (cases e)
      case (Enqueue d)
      then show ?thesis
        using Cons.IH [of "enqueue d w"] Cons.prems writer_step_ok(1,2) [OF Cons.prems(1), of d] by simp
    next
      case (Written ec)
      then obtain w' where w': "on_written False w = Inr w'" "writer_ok w'" "accounted w' = accounted w" "\<not> ec"
        using Cons.prems writer_step_ok(3) [OF Cons.prems(1)] by auto
      then show ?thesis using Cons.IH [of w'] Cons.prems Written by simp
    qed (use Cons.prems in simp)
  qed simp
  moreover have "writer_ok new_writer" "accounted new_writer = []" by (simp_all add: writer_ok_def new_writer_def accounted_def)
  moreover assume "list_all (\<lambda>e. e \<noteq> Stop \<and> e \<noteq> Written True) es \<and> completions_ok new_writer es"
  ultimately obtain w where "write_run new_writer es = Inr w" "writer_ok w" "accounted w = queued es" by fastforce
  then show "\<exists>w. write_run new_writer es = Inr w \<and> written w @ outbox w = queued es \<and> (in_flight w \<noteq> None \<longleftrightarrow> outbox w \<noteq> [])"
    by (auto simp: writer_ok_def accounted_def)
next
  show "write_run new_writer [Enqueue d, Stop, Written False] = Inl PopEmpty"
    by (simp add: new_writer_def enqueue_def do_write_def session_stop_def on_written_def Let_def)
qed

theorem writer_keeps_order_witness:
  "\<exists>w. write_run new_writer [Enqueue [1], Enqueue [2], Written False] = Inr w \<and> written w @ outbox w = [[1], [2]]"
proof -
  have "completions_ok new_writer [Enqueue [1], Enqueue [2], Written False]"
    by (simp add: new_writer_def enqueue_def do_write_def on_written_def Let_def)
  then show ?thesis using writer_keeps_order [of "[Enqueue [1], Enqueue [2], Written False]" "[]"] by auto
qed

end
