(* ===== verification/Async_Timers.thy ===== *)
theory Async_Timers
  imports Mesh_Prelude
begin

text \<open>
  What the program hands to the timers of Boost.Asio, and the contract of a component that
  guards pending operations by timers.

  A timer is a number.  \<open>waiting\<close> holds the handlers given to \<^verbatim>\<open>async_wait\<close> that have not been
  called yet (a handler is a value of type \<open>'j\<close>: the variables its lambda captures), and
  \<open>cancelled\<close> the timers on which \<^verbatim>\<open>cancel\<close> was called or that were destroyed.  When a
  handler is called is decided outside the program: the step relations of the components have
  a step for every waiting handler, with the error \<^verbatim>\<open>operation_aborted\<close> only if the timer was
  cancelled, which is what Boost.Asio documents.
\<close>

record 'j timer_table =
  waiting :: "(nat \<times> 'j) list"
  cancelled :: "nat list"
  next_timer :: nat

definition no_timers :: "'j timer_table" where
  "no_timers = \<lparr>waiting = [], cancelled = [], next_timer = 0\<rparr>"

text \<open>A new timer and \<^verbatim>\<open>async_wait\<close> on it.\<close>

definition start_wait :: "'j \<Rightarrow> 'j timer_table \<Rightarrow> nat \<times> 'j timer_table" where
  "start_wait j tt = (next_timer tt, tt\<lparr>waiting := (next_timer tt, j) # waiting tt, next_timer := Suc (next_timer tt)\<rparr>)"

definition cancel_wait :: "nat \<Rightarrow> 'j timer_table \<Rightarrow> 'j timer_table" where
  "cancel_wait n tt = tt\<lparr>cancelled := n # cancelled tt\<rparr>"

text \<open>The handler of timer \<open>n\<close> is taken out to be called.\<close>

definition take_handler :: "nat \<Rightarrow> 'j timer_table \<Rightarrow> 'j timer_table" where
  "take_handler n tt = tt\<lparr>waiting := AList.delete n (waiting tt)\<rparr>"

definition may_fire :: "nat \<Rightarrow> bool \<Rightarrow> 'j timer_table \<Rightarrow> bool" where
  "may_fire n aborted tt \<longleftrightarrow> n \<in> fst ` set (waiting tt) \<and> (aborted \<longrightarrow> n \<in> set (cancelled tt))"

definition timers_ok :: "'j timer_table \<Rightarrow> bool" where
  "timers_ok tt \<longleftrightarrow> distinct (map fst (waiting tt)) \<and> (\<forall>n\<in>fst ` set (waiting tt) \<union> set (cancelled tt). n < next_timer tt)"

lemma timers_ok_init [simp]: "timers_ok no_timers"
  by (simp add: timers_ok_def no_timers_def)

lemma timers_ok_start [simp]: "timers_ok tt \<Longrightarrow> timers_ok (snd (start_wait j tt))"
  by (auto simp: timers_ok_def start_wait_def less_Suc_eq)

lemma timers_ok_cancel [simp]: "timers_ok tt \<Longrightarrow> n < next_timer tt \<Longrightarrow> timers_ok (cancel_wait n tt)"
  by (simp add: timers_ok_def cancel_wait_def)

lemma timers_ok_take [simp]: "timers_ok tt \<Longrightarrow> timers_ok (take_handler n tt)"
  using alist_delete_subset [of n "waiting tt"] by (auto simp: timers_ok_def take_handler_def distinct_delete)

lemma timer_fields [simp]:
  "fst (start_wait j tt) = next_timer tt"
  "waiting (snd (start_wait j tt)) = (next_timer tt, j) # waiting tt"
  "cancelled (snd (start_wait j tt)) = cancelled tt"
  "next_timer (snd (start_wait j tt)) = Suc (next_timer tt)"
  "waiting (cancel_wait n tt) = waiting tt" "cancelled (cancel_wait n tt) = n # cancelled tt"
  "next_timer (cancel_wait n tt) = next_timer tt"
  "waiting (take_handler n tt) = AList.delete n (waiting tt)" "cancelled (take_handler n tt) = cancelled tt"
  "next_timer (take_handler n tt) = next_timer tt"
  by (simp_all add: start_wait_def cancel_wait_def take_handler_def)

lemma timers_ok_bound: "timers_ok tt \<Longrightarrow> map_of (waiting tt) n = Some j \<Longrightarrow> n < next_timer tt"
  by (force simp: timers_ok_def dest: map_of_SomeD)

section \<open>Histories\<close>

text \<open>
  \<open>step s started finished s'\<close> says that a component goes from \<open>s\<close> to \<open>s'\<close>, starting the
  operations \<open>started\<close> and reporting the end of the operations \<open>finished\<close>.
\<close>

inductive history :: "('s \<Rightarrow> 'k list \<Rightarrow> 'k list \<Rightarrow> 's \<Rightarrow> bool) \<Rightarrow> 's \<Rightarrow> 'k list \<Rightarrow> 'k list \<Rightarrow> 's \<Rightarrow> bool"
  for step s0 where
  history_start: "history step s0 [] [] s0"
| history_step: "history step s0 st fin s \<Longrightarrow> step s st' fin' s' \<Longrightarrow> history step s0 (st @ st') (fin @ fin') s'"

lemma history_invariant:
  assumes "history step s0 st fin s" "I s0"
    and "\<And>s st fin s'. I s \<Longrightarrow> step s st fin s' \<Longrightarrow> I s'"
  shows "I s"
  using assms(1) by induction (use assms(2,3) in auto)

text \<open>
  The contract of a component with pending operations: in every state the invariant allows, a
  step that starts only operations that are not pending reports each of its ends once, only
  for operations that were pending or just started, and everything else stays pending.
\<close>

locale completions =
  fixes step :: "'s \<Rightarrow> 'k list \<Rightarrow> 'k list \<Rightarrow> 's \<Rightarrow> bool" and inv :: "'s \<Rightarrow> bool" and pend :: "'s \<Rightarrow> 'k set"
  assumes inv_step: "inv s \<Longrightarrow> step s st fin s' \<Longrightarrow> set st \<inter> pend s = {} \<Longrightarrow> inv s'"
    and balance: "inv s \<Longrightarrow> step s st fin s' \<Longrightarrow> set st \<inter> pend s = {} \<Longrightarrow>
      distinct fin \<and> set fin \<subseteq> pend s \<union> set st \<and> pend s' = (pend s \<union> set st) - set fin"
begin

lemma exactly_once:
  assumes "history step s0 st fin s" "inv s0" "pend s0 = {}" "distinct st"
  shows "inv s \<and> distinct fin \<and> set fin \<subseteq> set st \<and> pend s = set st - set fin"
  using assms
proof (induction)
  case (history_step st fin s st' fin' s')
  have IH: "inv s" "distinct fin" "set fin \<subseteq> set st" "pend s = set st - set fin" using history_step by auto
  have "set st' \<inter> pend s = {}" using history_step.prems IH by auto
  from balance [OF IH(1) history_step.hyps(2) this] inv_step [OF IH(1) history_step.hyps(2) this]
  show ?case using IH history_step.prems by auto
qed simp

lemma count_finished:
  assumes "history step s0 st fin s" "inv s0" "pend s0 = {}" "distinct st" "k \<in> set st"
  shows "count_list fin k = (if k \<in> pend s then 0 else 1)"
proof -
  from exactly_once [OF assms(1-4)] have e: "distinct fin" "pend s = set st - set fin" by auto
  have "count_list fin k = (if k \<in> set fin then 1 else 0)"
    using e(1) by (induction fin) auto
  then show ?thesis using e(2) assms(5) by simp
qed

end

end
