(* ===== verification/Request_Tracker.thy ===== *)
theory Request_Tracker
  imports Async_Timers
begin

text \<open>
  \<^verbatim>\<open>AsyncRequestTracker\<close> of \<^verbatim>\<open>utils/AsyncRequestTracker.h\<close>, at the type \<^verbatim>\<open>std::string\<close> the node
  uses it at.  A callback is a value of type \<open>'c\<close>; an operation returns the calls it makes (the
  caller runs them), as the request callback is the last thing \<^verbatim>\<open>complete_request\<close> does.
  \<^verbatim>\<open>track_request\<close> and \<^verbatim>\<open>fail_request\<close> are templates no code instantiates (both refer to members
  that do not exist) and have no model.
\<close>

datatype 'c timer_job = RequestTimer string | BroadcastTimer string 'c

datatype 'c tracker_call = RequestCallback string 'c peer_id "bytes option" | BroadcastResponse string 'c peer_id bytes
  | BroadcastComplete string 'c

record 'c request_tracker =
  pending_requests :: "(string \<times> 'c \<times> nat) list"
  broadcasts :: "(string \<times> 'c \<times> nat) list"
  tracker_timers :: "'c timer_job timer_table"

definition new_tracker :: "'c request_tracker" where
  "new_tracker = \<lparr>pending_requests = [], broadcasts = [], tracker_timers = no_timers\<rparr>"

text \<open>An entry that is overwritten or erased is destroyed, and its timer with it.\<close>

definition destroy_entry :: "('c \<times> nat) option \<Rightarrow> 'c timer_job timer_table \<Rightarrow> 'c timer_job timer_table" where
  "destroy_entry e tt = (case e of None \<Rightarrow> tt | Some (c, n) \<Rightarrow> cancel_wait n tt)"

definition track_broadcast :: "string \<Rightarrow> 'c \<Rightarrow> 'c \<Rightarrow> 'c request_tracker \<Rightarrow> 'c request_tracker" where
  "track_broadcast req_id on_response on_complete t =
     (let (n, tt) = start_wait (BroadcastTimer req_id on_complete) (tracker_timers t) in
      case map_of (broadcasts t) req_id of
        None \<Rightarrow> t\<lparr>broadcasts := AList.update req_id (on_response, n) (broadcasts t), tracker_timers := tt\<rparr>
      | Some _ \<Rightarrow> t\<lparr>tracker_timers := cancel_wait n tt\<rparr>)"

definition track_request_callback :: "string \<Rightarrow> 'c \<Rightarrow> 'c request_tracker \<Rightarrow> 'c request_tracker" where
  "track_request_callback req_id cb t =
     (let (n, tt) = start_wait (RequestTimer req_id) (tracker_timers t) in
      t\<lparr>pending_requests := AList.update req_id (cb, n) (pending_requests t),
        tracker_timers := destroy_entry (map_of (pending_requests t) req_id) tt\<rparr>)"

definition complete_request :: "string \<Rightarrow> peer_id \<Rightarrow> bytes option \<Rightarrow> 'c request_tracker
    \<Rightarrow> bool \<times> 'c tracker_call list \<times> 'c request_tracker" where
  "complete_request req_id from_id payload t =
     (case map_of (pending_requests t) req_id of
        None \<Rightarrow> (False, [], t)
      | Some (cb, n) \<Rightarrow>
          (True, [RequestCallback req_id cb from_id payload],
           t\<lparr>pending_requests := AList.delete req_id (pending_requests t),
             tracker_timers := cancel_wait n (tracker_timers t)\<rparr>))"

definition fulfill_request :: "string \<Rightarrow> peer_id \<Rightarrow> bytes \<Rightarrow> 'c request_tracker
    \<Rightarrow> bool \<times> 'c tracker_call list \<times> 'c request_tracker" where
  "fulfill_request req_id from_id payload t =
     (if map_of (pending_requests t) req_id = None
      then case map_of (broadcasts t) req_id of
             Some (cb, n) \<Rightarrow> (True, [BroadcastResponse req_id cb from_id payload], t)
           | None \<Rightarrow> (False, [], t)
      else complete_request req_id from_id (Some payload) t)"

text \<open>The two lambdas given to \<^verbatim>\<open>async_wait\<close>; only the one of requests looks at the error code.\<close>

definition on_timer :: "'c timer_job \<Rightarrow> bool \<Rightarrow> 'c request_tracker \<Rightarrow> 'c tracker_call list \<times> 'c request_tracker" where
  "on_timer job aborted t =
     (case job of
        RequestTimer req_id \<Rightarrow> if aborted then ([], t) else snd (complete_request req_id [] None t)
      | BroadcastTimer req_id on_complete \<Rightarrow>
          (case map_of (broadcasts t) req_id of
             None \<Rightarrow> ([], t)
           | Some (cb, n) \<Rightarrow>
               ([BroadcastComplete req_id on_complete],
                t\<lparr>broadcasts := AList.delete req_id (broadcasts t), tracker_timers := cancel_wait n (tracker_timers t)\<rparr>)))"

section \<open>Steps\<close>

fun ended :: "'c tracker_call \<Rightarrow> string list" where
  "ended (RequestCallback r _ _ _) = [r]"
| "ended (BroadcastResponse _ _ _ _) = []"
| "ended (BroadcastComplete r _) = [r]"

inductive tracker_step :: "'c request_tracker \<Rightarrow> string list \<Rightarrow> 'c tracker_call list \<Rightarrow> 'c request_tracker \<Rightarrow> bool" where
  step_track: "tracker_step t [r] [] (track_request_callback r cb t)"
| step_broadcast: "tracker_step t [r] [] (track_broadcast r on_response on_complete t)"
| step_fulfill: "fulfill_request r from_id payload t = (found, cs, t') \<Longrightarrow> tracker_step t [] cs t'"
| step_timer: "may_fire n aborted (tracker_timers t) \<Longrightarrow> map_of (waiting (tracker_timers t)) n = Some job \<Longrightarrow>
    on_timer job aborted (t\<lparr>tracker_timers := take_handler n (tracker_timers t)\<rparr>) = (cs, t') \<Longrightarrow> tracker_step t [] cs t'"

text \<open>The steps with the calls reduced to the ids whose end they report.\<close>

definition tracker_ends :: "'c request_tracker \<Rightarrow> string list \<Rightarrow> string list \<Rightarrow> 'c request_tracker \<Rightarrow> bool" where
  "tracker_ends t st fin t' \<longleftrightarrow> (\<exists>cs. tracker_step t st cs t' \<and> fin = concat (map ended cs))"

definition tracked :: "'c request_tracker \<Rightarrow> string set" where
  "tracked t = fst ` set (pending_requests t) \<union> fst ` set (broadcasts t)"

text \<open>Every entry of the tables is guarded by a waiting handler that will end it.\<close>

definition guarded :: "'c request_tracker \<Rightarrow> bool" where
  "guarded t \<longleftrightarrow>
     (\<forall>r cb n. map_of (pending_requests t) r = Some (cb, n) \<longrightarrow>
        map_of (waiting (tracker_timers t)) n = Some (RequestTimer r) \<and> n \<notin> set (cancelled (tracker_timers t))) \<and>
     (\<forall>r cb n. map_of (broadcasts t) r = Some (cb, n) \<longrightarrow>
        (\<exists>d. map_of (waiting (tracker_timers t)) n = Some (BroadcastTimer r d)))"

definition tracker_inv :: "'c request_tracker \<Rightarrow> bool" where
  "tracker_inv t \<longleftrightarrow> distinct (map fst (pending_requests t)) \<and> distinct (map fst (broadcasts t)) \<and>
     fst ` set (pending_requests t) \<inter> fst ` set (broadcasts t) = {} \<and> timers_ok (tracker_timers t) \<and> guarded t"

section \<open>The tables and their timers\<close>

lemma tracked_iff: "r \<in> tracked t \<longleftrightarrow> map_of (pending_requests t) r \<noteq> None \<or> map_of (broadcasts t) r \<noteq> None"
  by (auto simp: tracked_def map_of_eq_None_iff)

lemma pending_delete_key:
  "fst ` set (AList.delete r al) = fst ` set al - {r}"
  by (simp add: delete_keys flip: set_map)

lemma pending_update_key:
  "fst ` set (AList.update r v al) = insert r (fst ` set al)"
  by (simp add: update_keys flip: set_map) auto

text \<open>Ending a pending request: the other entries keep their timers.\<close>

lemma guardedD:
  assumes "guarded t" "map_of (pending_requests t) r = Some (cb, n)"
  shows "map_of (waiting (tracker_timers t)) n = Some (RequestTimer r)" "n \<notin> set (cancelled (tracker_timers t))"
  using assms unfolding guarded_def by blast+

lemma guardedI:
  assumes "\<And>r cb n. map_of (pending_requests t) r = Some (cb, n) \<Longrightarrow>
      map_of (waiting (tracker_timers t)) n = Some (RequestTimer r) \<and> n \<notin> set (cancelled (tracker_timers t))"
    and "\<And>r cb n. map_of (broadcasts t) r = Some (cb, n) \<Longrightarrow> \<exists>d. map_of (waiting (tracker_timers t)) n = Some (BroadcastTimer r d)"
  shows "guarded t"
  using assms unfolding guarded_def by blast

lemma guardedB: "guarded t \<Longrightarrow> map_of (broadcasts t) r = Some (cb, n) \<Longrightarrow>
    \<exists>d. map_of (waiting (tracker_timers t)) n = Some (BroadcastTimer r d)"
  unfolding guarded_def by blast

lemma tracker_inv_timer:
  assumes "tracker_inv t" "map_of (pending_requests t) r = Some (cb, n)"
  shows "n < next_timer (tracker_timers t)"
  using timers_ok_bound [OF _ guardedD(1) [OF _ assms(2)]] assms(1) by (simp add: tracker_inv_def)

lemma tracker_inv_broadcast_timer:
  assumes "tracker_inv t" "map_of (broadcasts t) r = Some (cb, n)"
  shows "n < next_timer (tracker_timers t)"
proof -
  obtain d where "map_of (waiting (tracker_timers t)) n = Some (BroadcastTimer r d)"
    using guardedB [OF _ assms(2)] assms(1) by (auto simp: tracker_inv_def)
  then show ?thesis using timers_ok_bound assms(1) by (auto simp: tracker_inv_def)
qed

lemma guarded_cancel:
  assumes g: "guarded t" and e: "map_of (pending_requests t) r = Some (cb, n)"
  shows "guarded (t\<lparr>pending_requests := AList.delete r (pending_requests t), tracker_timers := cancel_wait n (tracker_timers t)\<rparr>)"
proof (rule guardedI)
  fix r' cb' n'
  assume "map_of (pending_requests (t\<lparr>pending_requests := AList.delete r (pending_requests t), tracker_timers := cancel_wait n (tracker_timers t)\<rparr>)) r' = Some (cb', n')"
  then have e': "map_of (pending_requests t) r' = Some (cb', n')" "r' \<noteq> r" by (auto simp: delete_conv' split: if_splits)
  have "n' \<noteq> n" using guardedD(1) [OF g e] guardedD(1) [OF g e'(1)] e'(2) by auto
  then show "map_of (waiting (tracker_timers (t\<lparr>pending_requests := AList.delete r (pending_requests t), tracker_timers := cancel_wait n (tracker_timers t)\<rparr>))) n' = Some (RequestTimer r') \<and>
     n' \<notin> set (cancelled (tracker_timers (t\<lparr>pending_requests := AList.delete r (pending_requests t), tracker_timers := cancel_wait n (tracker_timers t)\<rparr>)))"
    using guardedD [OF g e'(1)] by simp
qed (use guardedB [OF g] in simp)

lemma complete_request_inv:
  assumes "tracker_inv t" "complete_request r from payload t = (found, cs, t')"
  shows "tracker_inv t' \<and> distinct (concat (map ended cs)) \<and> set (concat (map ended cs)) \<subseteq> tracked t \<and>
    tracked t' = tracked t - set (concat (map ended cs))"
proof (cases "map_of (pending_requests t) r")
  case None
  then show ?thesis using assms by (simp add: complete_request_def)
next
  case (Some cn)
  then obtain cb n where e: "map_of (pending_requests t) r = Some (cb, n)" by (cases cn) auto
  then have t': "t' = t\<lparr>pending_requests := AList.delete r (pending_requests t), tracker_timers := cancel_wait n (tracker_timers t)\<rparr>"
    and cs: "concat (map ended cs) = [r]" using assms(2) by (auto simp: complete_request_def)
  have n: "n < next_timer (tracker_timers t)" using tracker_inv_timer [OF assms(1) e] by simp
  have r: "r \<in> fst ` set (pending_requests t)" using map_of_SomeD [OF e] by force
  then have "r \<notin> fst ` set (broadcasts t)" using assms(1) by (auto simp: tracker_inv_def)
  then have "tracked t' = tracked t - {r}" "r \<in> tracked t" using r by (auto simp: tracked_def t' pending_delete_key)
  moreover have "tracker_inv t'"
    using assms(1) guarded_cancel [OF _ e] n unfolding t' tracker_inv_def
    by (simp add: distinct_delete pending_delete_key) blast
  ultimately show ?thesis by (simp add: cs)
qed

lemma tracker_inv_cong_tracked:
  "tracked (t\<lparr>tracker_timers := tt\<rparr>) = tracked t"
  by (simp add: tracked_def)

lemma fulfill_request_inv:
  assumes "tracker_inv t" "fulfill_request r from payload t = (found, cs, t')"
  shows "tracker_inv t' \<and> distinct (concat (map ended cs)) \<and> set (concat (map ended cs)) \<subseteq> tracked t \<and>
    tracked t' = tracked t - set (concat (map ended cs))"
proof (cases "map_of (pending_requests t) r = None")
  case True
  then show ?thesis using assms by (auto simp: fulfill_request_def split: option.splits)
next
  case False
  then have "complete_request r from (Some payload) t = (found, cs, t')" using assms(2) by (auto simp: fulfill_request_def)
  then show ?thesis by (rule complete_request_inv [OF assms(1)])
qed

lemma track_request_inv:
  assumes inv: "tracker_inv t" and r: "r \<notin> tracked t"
  shows "tracker_inv (track_request_callback r cb t) \<and> tracked (track_request_callback r cb t) = insert r (tracked t)"
proof -
  have none: "map_of (pending_requests t) r = None" and b: "r \<notin> fst ` set (broadcasts t)"
    using r by (auto simp: tracked_def map_of_eq_None_iff)
  define t' where "t' = track_request_callback r cb t"
  let ?tt = "snd (start_wait (RequestTimer r) (tracker_timers t))"
  have t': "pending_requests t' = AList.update r (cb, next_timer (tracker_timers t)) (pending_requests t)"
      "broadcasts t' = broadcasts t" "tracker_timers t' = ?tt"
    using none by (simp_all add: t'_def track_request_callback_def destroy_entry_def Let_def case_prod_unfold)
  have ok: "timers_ok (tracker_timers t)" and g: "guarded t" using inv by (simp_all add: tracker_inv_def)
  have "guarded t'"
  proof (rule guardedI)
    fix r' cb' n' assume "map_of (pending_requests t') r' = Some (cb', n')"
    then consider "r' = r" "n' = next_timer (tracker_timers t)" | "map_of (pending_requests t) r' = Some (cb', n')"
      by (auto simp: t' update_conv' split: if_splits)
    then show "map_of (waiting (tracker_timers t')) n' = Some (RequestTimer r') \<and> n' \<notin> set (cancelled (tracker_timers t'))"
      using ok guardedD [OF g] by cases (auto simp: t' timers_ok_def dest: tracker_inv_timer [OF inv])
  next
    fix r' cb' n' assume "map_of (broadcasts t') r' = Some (cb', n')"
    then show "\<exists>d. map_of (waiting (tracker_timers t')) n' = Some (BroadcastTimer r' d)"
      using guardedB [OF g] tracker_inv_broadcast_timer [OF inv] by (fastforce simp: t')
  qed
  then have "tracker_inv t'" "tracked t' = insert r (tracked t)"
    using inv b by (auto simp: tracker_inv_def tracked_def t' distinct_update pending_update_key)
  then show ?thesis by (simp add: t'_def)
qed

lemma track_broadcast_inv:
  assumes inv: "tracker_inv t" and r: "r \<notin> tracked t"
  shows "tracker_inv (track_broadcast r cb d t) \<and> tracked (track_broadcast r cb d t) = insert r (tracked t)"
proof -
  have none: "map_of (broadcasts t) r = None" and b: "r \<notin> fst ` set (pending_requests t)"
    using r by (auto simp: tracked_def map_of_eq_None_iff)
  define t' where "t' = track_broadcast r cb d t"
  let ?tt = "snd (start_wait (BroadcastTimer r d) (tracker_timers t))"
  have t': "broadcasts t' = AList.update r (cb, next_timer (tracker_timers t)) (broadcasts t)"
      "pending_requests t' = pending_requests t" "tracker_timers t' = ?tt"
    using none by (simp_all add: t'_def track_broadcast_def Let_def case_prod_unfold)
  have ok: "timers_ok (tracker_timers t)" and g: "guarded t" using inv by (simp_all add: tracker_inv_def)
  have "guarded t'"
  proof (rule guardedI)
    fix r' cb' n' assume "map_of (pending_requests t') r' = Some (cb', n')"
    then show "map_of (waiting (tracker_timers t')) n' = Some (RequestTimer r') \<and> n' \<notin> set (cancelled (tracker_timers t'))"
      using guardedD [OF g] by (auto simp: t' dest: tracker_inv_timer [OF inv])
  next
    fix r' cb' n' assume "map_of (broadcasts t') r' = Some (cb', n')"
    then consider "r' = r" "n' = next_timer (tracker_timers t)" | "map_of (broadcasts t) r' = Some (cb', n')"
      by (auto simp: t' update_conv' split: if_splits)
    then show "\<exists>d. map_of (waiting (tracker_timers t')) n' = Some (BroadcastTimer r' d)"
      using guardedB [OF g] by cases (auto simp: t' dest: tracker_inv_broadcast_timer [OF inv])
  qed
  then have "tracker_inv t'" "tracked t' = insert r (tracked t)"
    using inv b by (auto simp: tracker_inv_def tracked_def t' distinct_update pending_update_key)
  then show ?thesis by (simp add: t'_def)
qed

section \<open>Timers that fire\<close>

lemma cancel_take: "cancel_wait m (take_handler n tt) = take_handler n (cancel_wait m tt)"
  by (simp add: cancel_wait_def take_handler_def)

lemma on_timer_take:
  "on_timer job ab (t\<lparr>tracker_timers := take_handler n (tracker_timers t)\<rparr>) =
     (let (cs, t') = on_timer job ab t in (cs, t'\<lparr>tracker_timers := take_handler n (tracker_timers t')\<rparr>))"
  by (auto simp: on_timer_def complete_request_def cancel_take split: option.splits timer_job.splits)

lemma guarded_erase:
  assumes g: "guarded t" and e: "map_of (broadcasts t) r = Some (cb, n)"
  shows "guarded (t\<lparr>broadcasts := AList.delete r (broadcasts t), tracker_timers := cancel_wait n (tracker_timers t)\<rparr>)"
proof (rule guardedI)
  fix r' cb' n'
  assume "map_of (pending_requests (t\<lparr>broadcasts := AList.delete r (broadcasts t), tracker_timers := cancel_wait n (tracker_timers t)\<rparr>)) r' = Some (cb', n')"
  then have e': "map_of (pending_requests t) r' = Some (cb', n')" by simp
  have "n' \<noteq> n" using guardedB [OF g e] guardedD(1) [OF g e'] by auto
  then show "map_of (waiting (tracker_timers (t\<lparr>broadcasts := AList.delete r (broadcasts t), tracker_timers := cancel_wait n (tracker_timers t)\<rparr>))) n' = Some (RequestTimer r') \<and>
     n' \<notin> set (cancelled (tracker_timers (t\<lparr>broadcasts := AList.delete r (broadcasts t), tracker_timers := cancel_wait n (tracker_timers t)\<rparr>)))"
    using guardedD [OF g e'] by simp
qed (use guardedB [OF g] in \<open>auto simp: delete_conv' split: if_splits\<close>)

lemma on_timer_inv:
  assumes inv: "tracker_inv t" and ot: "on_timer job ab t = (cs, t')"
  shows "tracker_inv t' \<and> distinct (concat (map ended cs)) \<and> set (concat (map ended cs)) \<subseteq> tracked t \<and>
    tracked t' = tracked t - set (concat (map ended cs))"
proof (cases job)
  case (RequestTimer r)
  show ?thesis
  proof (cases ab)
    case False
    then have "complete_request r [] None t = (fst (complete_request r [] None t), cs, t')"
      using ot RequestTimer by (simp add: on_timer_def prod_eq_iff)
    then show ?thesis by (rule complete_request_inv [OF inv])
  qed (use assms RequestTimer in \<open>simp add: on_timer_def\<close>)
next
  case (BroadcastTimer r d)
  show ?thesis
  proof (cases "map_of (broadcasts t) r")
    case None
    then show ?thesis using assms BroadcastTimer by (simp add: on_timer_def)
  next
    case (Some cn)
    then obtain cb n where e: "map_of (broadcasts t) r = Some (cb, n)" by (cases cn) auto
    then have t': "t' = t\<lparr>broadcasts := AList.delete r (broadcasts t), tracker_timers := cancel_wait n (tracker_timers t)\<rparr>"
      and cs: "concat (map ended cs) = [r]" using ot BroadcastTimer by (auto simp: on_timer_def)
    have n: "n < next_timer (tracker_timers t)" using tracker_inv_broadcast_timer [OF inv e] by simp
    have r: "r \<in> fst ` set (broadcasts t)" using map_of_SomeD [OF e] by force
    then have "r \<notin> fst ` set (pending_requests t)" using inv by (auto simp: tracker_inv_def)
    then have "tracked t' = tracked t - {r}" "r \<in> tracked t" using r by (auto simp: tracked_def t' pending_delete_key)
    moreover have "tracker_inv t'"
      using inv guarded_erase [OF _ e] n unfolding t' tracker_inv_def
      by (simp add: distinct_delete pending_delete_key) blast
    ultimately show ?thesis by (simp add: cs)
  qed
qed

lemma on_timer_waiting:
  "waiting (tracker_timers (snd (on_timer job ab t))) = waiting (tracker_timers t)"
  "set (cancelled (tracker_timers t)) \<subseteq> set (cancelled (tracker_timers (snd (on_timer job ab t))))"
  by (auto simp: on_timer_def complete_request_def split: option.splits timer_job.splits)

text \<open>After a handler has run, no entry is guarded by its timer.\<close>

lemma on_timer_unused:
  assumes inv: "tracker_inv t'" and t': "t' = snd (on_timer job ab t)"
    and w: "map_of (waiting (tracker_timers t)) n = Some job" and c: "ab \<Longrightarrow> n \<in> set (cancelled (tracker_timers t))"
  shows "map_of (pending_requests t') r \<noteq> Some (cb, n)" "map_of (broadcasts t') r \<noteq> Some (cb, n)"
proof -
  have g: "guarded t'" using inv by (simp add: tracker_inv_def)
  have w': "map_of (waiting (tracker_timers t')) n = Some job" by (simp add: t' on_timer_waiting w)
  have c': "ab \<Longrightarrow> n \<in> set (cancelled (tracker_timers t'))" using c on_timer_waiting(2) [of t job ab] t' by auto
  show "map_of (pending_requests t') r \<noteq> Some (cb, n)"
  proof
    assume e: "map_of (pending_requests t') r = Some (cb, n)"
    from guardedD [OF g e] w' c' have "job = RequestTimer r" "\<not> ab" by auto
    then show False using e by (simp add: t' on_timer_def complete_request_def delete_conv' split: option.splits prod.splits)
  qed
  show "map_of (broadcasts t') r \<noteq> Some (cb, n)"
  proof
    assume e: "map_of (broadcasts t') r = Some (cb, n)"
    from guardedB [OF g e] w' obtain d where "job = BroadcastTimer r d" by auto
    then show False using e by (simp add: t' on_timer_def delete_conv' split: option.splits prod.splits)
  qed
qed

lemma take_inv:
  assumes inv: "tracker_inv t" and "\<And>r cb. map_of (pending_requests t) r \<noteq> Some (cb, n)" "\<And>r cb. map_of (broadcasts t) r \<noteq> Some (cb, n)"
  shows "tracker_inv (t\<lparr>tracker_timers := take_handler n (tracker_timers t)\<rparr>)"
proof -
  have g: "guarded t" using inv by (simp add: tracker_inv_def)
  have "guarded (t\<lparr>tracker_timers := take_handler n (tracker_timers t)\<rparr>)"
    by (rule guardedI) (use assms(2,3) guardedD [OF g] guardedB [OF g] in \<open>auto simp: delete_conv'\<close>)
  then show ?thesis using inv by (simp add: tracker_inv_def)
qed

lemma tracker_step_inv:
  assumes "tracker_step t st cs t'" "tracker_inv t" "set st \<inter> tracked t = {}"
  shows "tracker_inv t' \<and> distinct (concat (map ended cs)) \<and> set (concat (map ended cs)) \<subseteq> tracked t \<union> set st \<and>
    tracked t' = (tracked t \<union> set st) - set (concat (map ended cs))"
  using assms
proof (cases rule: tracker_step.cases)
  case (step_timer n ab job)
  obtain t1 where t1: "on_timer job ab t = (cs, t1)" "t' = t1\<lparr>tracker_timers := take_handler n (tracker_timers t1)\<rparr>"
    using step_timer(4) by (auto simp: on_timer_take split: prod.splits)
  note * = on_timer_inv [OF assms(2) t1(1)]
  then have i: "tracker_inv t1" by simp
  have eq: "t1 = snd (on_timer job ab t)" by (simp add: t1(1))
  have c: "ab \<Longrightarrow> n \<in> set (cancelled (tracker_timers t))" using step_timer(2) by (simp add: may_fire_def)
  have "tracker_inv t'" unfolding t1(2)
    by (rule take_inv [OF i on_timer_unused(1) [OF i eq step_timer(3) c] on_timer_unused(2) [OF i eq step_timer(3) c]])
  then show ?thesis using * step_timer(1) by (simp add: t1(2) tracked_def)
next
  case (step_track r cb)
  then show ?thesis using track_request_inv [OF assms(2), of r cb] assms(3) by simp
next
  case (step_broadcast r cb d)
  then show ?thesis using track_broadcast_inv [OF assms(2), of r cb d] assms(3) by simp
next
  case (step_fulfill r from_id payload found)
  then show ?thesis using fulfill_request_inv [OF assms(2) step_fulfill(2)] by simp
qed

section \<open>Every request ends once\<close>

interpretation tracker: completions tracker_ends tracker_inv tracked
  by unfold_locales (auto simp: tracker_ends_def dest!: tracker_step_inv)

lemma new_tracker_inv [simp]: "tracker_inv new_tracker" "tracked new_tracker = {}"
  by (simp_all add: tracker_inv_def guarded_def new_tracker_def tracked_def)

text \<open>How often an id is in the tables; a step ends at most what was tracked, also when an id is used again.\<close>

definition times_tracked :: "string \<Rightarrow> 'c request_tracker \<Rightarrow> nat" where
  "times_tracked r t = (if map_of (pending_requests t) r = None then 0 else 1) + (if map_of (broadcasts t) r = None then 0 else 1)"

lemma times_tracked_timers [simp]: "times_tracked r (t\<lparr>tracker_timers := tt\<rparr>) = times_tracked r t"
  by (simp add: times_tracked_def)

lemma complete_request_count:
  "complete_request r from payload t = (found, cs, t') \<Longrightarrow> times_tracked x t' + count_list (concat (map ended cs)) x \<le> times_tracked x t"
  by (auto simp: complete_request_def times_tracked_def delete_conv' split: option.splits if_splits)

lemma fulfill_request_count:
  "fulfill_request r from payload t = (found, cs, t') \<Longrightarrow> times_tracked x t' + count_list (concat (map ended cs)) x \<le> times_tracked x t"
  by (auto simp: fulfill_request_def split: option.splits if_splits dest: complete_request_count [of _ _ _ _ _ _ _ x])

lemma on_timer_count:
  assumes "on_timer job ab t = (cs, t')"
  shows "times_tracked x t' + count_list (concat (map ended cs)) x \<le> times_tracked x t"
proof (cases job)
  case (RequestTimer r)
  then show ?thesis using assms complete_request_count [of r "[]" None t "fst (complete_request r [] None t)" cs t' x]
    by (auto simp: on_timer_def prod_eq_iff split: if_splits)
next
  case (BroadcastTimer r d)
  then show ?thesis using assms by (auto simp: on_timer_def times_tracked_def delete_conv' split: option.splits if_splits)
qed

lemma tracker_ends_count:
  assumes "tracker_ends t st fin t'"
  shows "times_tracked r t' + count_list fin r \<le> times_tracked r t + count_list st r"
proof -
  obtain cs where cs: "tracker_step t st cs t'" "fin = concat (map ended cs)" using assms by (auto simp: tracker_ends_def)
  from cs(1) show ?thesis
  proof (cases rule: tracker_step.cases)
    case (step_timer n ab job)
    then show ?thesis using on_timer_count [OF step_timer(4), of r] by (simp add: cs(2))
  next
    case (step_fulfill r' from_id payload found)
    then show ?thesis using fulfill_request_count [OF step_fulfill(2), of r] by (simp add: cs(2))
  qed (auto simp: cs(2) track_request_callback_def track_broadcast_def times_tracked_def update_conv' case_prod_unfold Let_def split: option.splits if_splits)
qed

lemma ends_at_most_tracked:
  "history tracker_ends new_tracker st fin t \<Longrightarrow> times_tracked r t + count_list fin r \<le> count_list st r"
proof (induction rule: history.induct)
  case history_start
  then show ?case by (simp add: times_tracked_def new_tracker_def)
next
  case (history_step st fin s st' fin' s')
  then show ?case using tracker_ends_count [OF history_step(2), of r] by simp
qed

text \<open>
  C6.  A request ends exactly once, by its answer or by its timer.  In every history of a tracker, whatever the order of
  answers, duplicate answers and timers, the end of an id (the callback with a payload or with
  \<^verbatim>\<open>nullopt\<close>, or the completion of the broadcast) is reported at most as often as the id was
  tracked, an entry that is still in a table not counted.  In a history in which no id is
  used twice it has been reported once if the request is no longer tracked and not at all if it is.  (A request that is tracked
  again while it is pending replaces the first one, whose callback never runs, so with ids used twice there is no more than the bound.)
\<close>

theorem request_ends_exactly_once:
  assumes "history tracker_ends new_tracker st fin t"
  shows "times_tracked r t + count_list fin r \<le> count_list st r \<and>
    (distinct st \<longrightarrow> r \<in> set st \<longrightarrow> count_list fin r = (if r \<in> tracked t then 0 else 1))"
  using ends_at_most_tracked [OF assms] tracker.count_finished [OF assms] by simp

theorem request_ends_exactly_once_witness:
  "\<exists>t fin. history tracker_ends (new_tracker :: nat request_tracker) [''a''] fin t \<and> count_list fin ''a'' = 1"
proof -
  define t1 where "t1 = track_request_callback ''a'' (7 :: nat) new_tracker"
  obtain b cs t2 where f: "fulfill_request ''a'' ''p'' [1] t1 = (b, cs, t2)" by (metis prod_cases3)
  have "tracker_ends t1 [] (concat (map ended cs)) t2" unfolding tracker_ends_def using step_fulfill [OF f] by blast
  moreover have "tracker_ends new_tracker [''a''] [] t1" unfolding tracker_ends_def t1_def
    using step_track [of new_tracker "''a''" 7] by force
  ultimately have h: "history tracker_ends (new_tracker :: nat request_tracker) (([] @ [''a'']) @ []) (([] @ []) @ concat (map ended cs)) t2"
    by (intro history_step [OF history_step [OF history_start]])
  have "t2 = snd (snd (fulfill_request ''a'' ''p'' [1] t1))" by (simp add: f)
  then have "''a'' \<notin> tracked t2"
    by (simp add: t1_def track_request_callback_def fulfill_request_def complete_request_def new_tracker_def tracked_def
        start_wait_def no_timers_def destroy_entry_def)
  then have "count_list (concat (map ended cs)) ''a'' = 1" using request_ends_exactly_once [OF h, of "''a''"] by simp
  then show ?thesis using h by auto
qed

text \<open>
  C38.  A request cannot hang.  In every history in which no id is used twice, a request that
  is still pending has a timer whose handler has not been called and that nobody cancelled,
  so it will be called without the error \<^verbatim>\<open>operation_aborted\<close>; that call ends the request with
  \<^verbatim>\<open>nullopt\<close> and removes it from the table.
\<close>

theorem pending_request_times_out:
  assumes "history tracker_ends new_tracker st fin t" "distinct st" "map_of (pending_requests t) r = Some (cb, n)"
  shows "may_fire n False (tracker_timers t) \<and> \<not> may_fire n True (tracker_timers t) \<and>
    (\<exists>t'. tracker_step t [] [RequestCallback r cb [] None] t' \<and> map_of (pending_requests t') r = None)"
proof -
  have inv: "tracker_inv t" using tracker.exactly_once [OF assms(1) _ _ assms(2)] by simp
  then have g: "guarded t" by (simp add: tracker_inv_def)
  note w = guardedD [OF g assms(3)]
  have "n \<in> fst ` set (waiting (tracker_timers t))" using map_of_SomeD [OF w(1)] by force
  then have f: "may_fire n False (tracker_timers t)" "\<not> may_fire n True (tracker_timers t)"
    using w(2) by (simp_all add: may_fire_def)
  let ?t = "t\<lparr>tracker_timers := take_handler n (tracker_timers t)\<rparr>"
  obtain cs t' where ot: "on_timer (RequestTimer r) False ?t = (cs, t')" by force
  then have "cs = [RequestCallback r cb [] None]" "map_of (pending_requests t') r = None"
    using assms(3) by (auto simp: on_timer_def complete_request_def delete_conv')
  then show ?thesis using f step_timer [OF f(1) w(1) ot] by blast
qed

theorem pending_request_times_out_witness:
  "\<exists>t'. tracker_step (track_request_callback ''a'' (7 :: nat) new_tracker) [] [RequestCallback ''a'' 7 [] None] t' \<and>
     map_of (pending_requests t') ''a'' = None"
proof -
  define t1 where "t1 = track_request_callback ''a'' (7 :: nat) new_tracker"
  have "tracker_ends new_tracker [''a''] [] t1" unfolding tracker_ends_def t1_def
    using step_track [of new_tracker "''a''" 7] by force
  then have h: "history tracker_ends (new_tracker :: nat request_tracker) ([] @ [''a'']) ([] @ []) t1"
    by (rule history_step [OF history_start])
  have "map_of (pending_requests t1) ''a'' = Some (7, 0)"
    by (simp add: t1_def track_request_callback_def new_tracker_def start_wait_def no_timers_def)
  from pending_request_times_out [OF h _ this] show ?thesis unfolding t1_def by simp
qed

end
