(* ===== verification/Crypto.thy ===== *)
theory Crypto
  imports Packets
begin

text \<open>
  \<^verbatim>\<open>crypto/CryptoHelpers.cpp\<close>, \<^verbatim>\<open>crypto/CertHelpers.cpp\<close>, \<^verbatim>\<open>crypto/IdentityManager.cpp\<close> and
  \<^verbatim>\<open>crypto/PacketSecurity.cpp\<close>.  OpenSSL is not code of the repository: what the program calls of
  it is the record \<open>crypto_lib\<close>, an argument of the definitions.  A function of OpenSSL that
  can fail returns \<open>None\<close> (or the failing call); the definitions below say what the program
  makes of that.  Random functions take the number of the draw.  Keys and certificates are PEM texts.
\<close>

section \<open>OpenSSL\<close>

datatype evp_error = NoContext | InitFailed | UpdateFailed | FinalFailed

datatype pkey_error = PkeyNoContext | PkeyInitFailed | PaddingFailed | SizeFailed | PkeyFailed

datatype sign_error = MdNoContext | SignInitFailed | SignUpdateFailed | SignSizeFailed | SignFinalFailed

record ('k, 'x) crypto_lib =
  rand_bytes :: "nat \<Rightarrow> nat \<Rightarrow> bool \<times> bytes"
  cbc_encrypt :: "bytes \<Rightarrow> bytes \<Rightarrow> bytes \<Rightarrow> evp_error + bytes"
  cbc_decrypt :: "bytes \<Rightarrow> bytes \<Rightarrow> bytes \<Rightarrow> evp_error + bytes"
  read_pubkey :: "string \<Rightarrow> 'k option"
  read_private_key :: "string \<Rightarrow> 'k option"
  pkey_encrypt :: "nat \<Rightarrow> 'k \<Rightarrow> bytes \<Rightarrow> pkey_error + bytes"
  pkey_decrypt :: "'k \<Rightarrow> bytes \<Rightarrow> pkey_error + bytes"
  digest_sign :: "'k \<Rightarrow> bytes \<Rightarrow> sign_error + bytes"
  digest_verify :: "'k \<Rightarrow> bytes \<Rightarrow> bytes \<Rightarrow> bool"
  read_x509 :: "string \<Rightarrow> 'x option"
  x509_verify :: "'x \<Rightarrow> 'x \<Rightarrow> bool"
  x509_pubkey :: "'x \<Rightarrow> 'k option"
  x509_common_name :: "'x \<Rightarrow> string option"
  write_pubkey :: "'k \<Rightarrow> string"

section \<open>CryptoHelpers\<close>

definition AES_KEY_SIZE :: nat where "AES_KEY_SIZE = 32"
definition AES_IV_SIZE :: nat where "AES_IV_SIZE = 16"

text \<open>The result of \<^verbatim>\<open>RAND_bytes\<close> is not looked at.\<close>

definition generate_aes_key :: "('k, 'x) crypto_lib \<Rightarrow> nat \<Rightarrow> bytes" where
  "generate_aes_key C n = snd (rand_bytes C n AES_KEY_SIZE)"

fun encrypt_error :: "evp_error \<Rightarrow> string" where
  "encrypt_error NoContext = ''Failed to create EVP context''"
| "encrypt_error InitFailed = ''EVP_EncryptInit failed''"
| "encrypt_error UpdateFailed = ''EVP_EncryptUpdate failed''"
| "encrypt_error FinalFailed = ''EVP_EncryptFinal failed''"

fun decrypt_error :: "evp_error \<Rightarrow> string" where
  "decrypt_error NoContext = ''Failed to create EVP context''"
| "decrypt_error InitFailed = ''EVP_DecryptInit failed''"
| "decrypt_error UpdateFailed = ''EVP_DecryptUpdate failed''"
| "decrypt_error FinalFailed = ''EVP_DecryptFinal failed (Bad Key or Padding?)''"

definition aes_encrypt :: "('k, 'x) crypto_lib \<Rightarrow> nat \<Rightarrow> bytes \<Rightarrow> bytes \<Rightarrow> string + bytes" where
  "aes_encrypt C n key plaintext =
     (if length key \<noteq> AES_KEY_SIZE then Inl ''Invalid AES key size''
      else let (ok, iv) = rand_bytes C n AES_IV_SIZE in
      if \<not> ok then Inl ''Failed to generate IV''
      else case cbc_encrypt C key iv plaintext of
             Inl e \<Rightarrow> Inl (encrypt_error e)
           | Inr ciphertext \<Rightarrow> Inr (iv @ ciphertext))"

definition aes_decrypt :: "('k, 'x) crypto_lib \<Rightarrow> bytes \<Rightarrow> bytes \<Rightarrow> string + bytes" where
  "aes_decrypt C key encrypted_blob =
     (if length key \<noteq> AES_KEY_SIZE then Inl ''Invalid AES key size''
      else if length encrypted_blob < AES_IV_SIZE then Inl ''Data too short''
      else case cbc_decrypt C key (take AES_IV_SIZE encrypted_blob) (drop AES_IV_SIZE encrypted_blob) of
             Inl e \<Rightarrow> Inl (decrypt_error e)
           | Inr plaintext \<Rightarrow> Inr plaintext)"

fun rsa_encrypt_error :: "pkey_error \<Rightarrow> string" where
  "rsa_encrypt_error PkeyNoContext = ''Failed to create PKEY context''"
| "rsa_encrypt_error PkeyInitFailed = ''Encrypt init failed''"
| "rsa_encrypt_error PaddingFailed = ''Failed to set OAEP padding''"
| "rsa_encrypt_error SizeFailed = ''Failed to determine encrypt buffer size''"
| "rsa_encrypt_error PkeyFailed = ''PKEY encrypt failed''"

fun rsa_decrypt_error :: "pkey_error \<Rightarrow> string" where
  "rsa_decrypt_error PkeyNoContext = ''Failed to create PKEY context''"
| "rsa_decrypt_error PkeyInitFailed = ''Decrypt init failed''"
| "rsa_decrypt_error PaddingFailed = ''Failed to set OAEP padding''"
| "rsa_decrypt_error SizeFailed = ''Failed to determine decrypt buffer size''"
| "rsa_decrypt_error PkeyFailed = ''PKEY decrypt failed''"

definition rsa_encrypt_key :: "('k, 'x) crypto_lib \<Rightarrow> nat \<Rightarrow> string \<Rightarrow> bytes \<Rightarrow> string + bytes" where
  "rsa_encrypt_key C n pub_key_pem aes_key =
     (case read_pubkey C pub_key_pem of
        None \<Rightarrow> Inl ''Failed to load Public Key''
      | Some pkey \<Rightarrow> (case pkey_encrypt C n pkey aes_key of
          Inl e \<Rightarrow> Inl (rsa_encrypt_error e) | Inr out \<Rightarrow> Inr out))"

definition rsa_decrypt_key :: "('k, 'x) crypto_lib \<Rightarrow> string \<Rightarrow> bytes \<Rightarrow> string + bytes" where
  "rsa_decrypt_key C priv_key_pem encrypted_key =
     (case read_private_key C priv_key_pem of
        None \<Rightarrow> Inl ''Failed to load Private Key''
      | Some pkey \<Rightarrow> (case pkey_decrypt C pkey encrypted_key of
          Inl e \<Rightarrow> Inl (rsa_decrypt_error e) | Inr out \<Rightarrow> Inr out))"

fun sign_error_text :: "sign_error \<Rightarrow> string" where
  "sign_error_text MdNoContext = ''Failed to create MD context''"
| "sign_error_text SignInitFailed = ''DigestSignInit failed''"
| "sign_error_text SignUpdateFailed = ''DigestSignUpdate failed''"
| "sign_error_text SignSizeFailed = ''DigestSignFinal (size) failed''"
| "sign_error_text SignFinalFailed = ''DigestSignFinal failed''"

definition sign_message :: "('k, 'x) crypto_lib \<Rightarrow> string \<Rightarrow> bytes \<Rightarrow> string + bytes" where
  "sign_message C priv_key_pem plain_text =
     (case read_private_key C priv_key_pem of
        None \<Rightarrow> Inl ''Failed to load private key for signing''
      | Some pkey \<Rightarrow> (case digest_sign C pkey plain_text of
          Inl e \<Rightarrow> Inl (sign_error_text e) | Inr sig \<Rightarrow> Inr sig))"

definition verify_signature :: "('k, 'x) crypto_lib \<Rightarrow> string \<Rightarrow> bytes \<Rightarrow> bytes \<Rightarrow> bool" where
  "verify_signature C pub_key_pem plain_text sig =
     (case read_pubkey C pub_key_pem of None \<Rightarrow> False | Some pkey \<Rightarrow> digest_verify C pkey plain_text sig)"

section \<open>CertHelpers\<close>

definition verify_certificate :: "('k, 'x) crypto_lib \<Rightarrow> string \<Rightarrow> string \<Rightarrow> bool" where
  "verify_certificate C cert_pem ca_root_pem =
     (case read_x509 C ca_root_pem of
        None \<Rightarrow> False
      | Some ca_cert \<Rightarrow> (case read_x509 C cert_pem of
          None \<Rightarrow> False | Some target_cert \<Rightarrow> x509_verify C ca_cert target_cert))"

definition extract_pubkey_from_cert :: "('k, 'x) crypto_lib \<Rightarrow> string \<Rightarrow> string" where
  "extract_pubkey_from_cert C cert_pem =
     (case read_x509 C cert_pem of
        None \<Rightarrow> []
      | Some cert \<Rightarrow> (case x509_pubkey C cert of None \<Rightarrow> [] | Some pkey \<Rightarrow> write_pubkey C pkey))"

text \<open>
  The text goes through a C string of 256 characters.  \<open>None\<close>: the subject has no common name,
  which the code does not check, so it reads a buffer nobody wrote.
\<close>

definition extract_common_name :: "('k, 'x) crypto_lib \<Rightarrow> string \<Rightarrow> string option" where
  "extract_common_name C cert_pem =
     (case read_x509 C cert_pem of
        None \<Rightarrow> Some []
      | Some cert \<Rightarrow> map_option (\<lambda>cn. takeWhile (\<lambda>c. c \<noteq> char_of (0 :: nat)) (take 255 cn)) (x509_common_name C cert))"

section \<open>IdentityManager\<close>

record identity_manager =
  my_cert :: string
  my_private_key :: string
  ca_root :: string
  trusted_keys :: "(peer_id \<times> string) list"
  pending_incoming_packets :: "(peer_id \<times> routed_packet list) list"
  pending_outgoing_packets :: "(peer_id \<times> routed_packet list) list"

definition new_identity :: identity_manager where
  "new_identity = \<lparr>my_cert = [], my_private_key = [], ca_root = [], trusted_keys = [],
     pending_incoming_packets = [], pending_outgoing_packets = []\<rparr>"

definition has_key :: "peer_id \<Rightarrow> identity_manager \<Rightarrow> bool" where
  "has_key p im \<longleftrightarrow> map_of (trusted_keys im) p \<noteq> None"

definition get_public_key :: "peer_id \<Rightarrow> identity_manager \<Rightarrow> string option" where
  "get_public_key p im = map_of (trusted_keys im) p"

definition add_trusted_peer :: "peer_id \<Rightarrow> string \<Rightarrow> identity_manager \<Rightarrow> identity_manager" where
  "add_trusted_peer p key im = im\<lparr>trusted_keys := AList.update p key (trusted_keys im)\<rparr>"

text \<open>\<^verbatim>\<open>m[k].push_back(x)\<close>\<close>

definition push_at :: "peer_id \<Rightarrow> 'a \<Rightarrow> (peer_id \<times> 'a list) list \<Rightarrow> (peer_id \<times> 'a list) list" where
  "push_at p x m = AList.update p ((case map_of m p of None \<Rightarrow> [] | Some xs \<Rightarrow> xs) @ [x]) m"

definition buffer_incoming_packet :: "peer_id \<Rightarrow> routed_packet \<Rightarrow> identity_manager \<Rightarrow> identity_manager" where
  "buffer_incoming_packet p pkt im = im\<lparr>pending_incoming_packets := push_at p pkt (pending_incoming_packets im)\<rparr>"

definition buffer_outgoing_packet :: "peer_id \<Rightarrow> routed_packet \<Rightarrow> identity_manager \<Rightarrow> identity_manager" where
  "buffer_outgoing_packet p pkt im = im\<lparr>pending_outgoing_packets := push_at p pkt (pending_outgoing_packets im)\<rparr>"

definition pop_incoming_pending_packets :: "peer_id \<Rightarrow> identity_manager \<Rightarrow> routed_packet list \<times> identity_manager" where
  "pop_incoming_pending_packets p im =
     (case map_of (pending_incoming_packets im) p of
        None \<Rightarrow> ([], im)
      | Some xs \<Rightarrow> (xs, im\<lparr>pending_incoming_packets := AList.delete p (pending_incoming_packets im)\<rparr>))"

definition pop_outgoing_pending_packets :: "peer_id \<Rightarrow> identity_manager \<Rightarrow> routed_packet list \<times> identity_manager" where
  "pop_outgoing_pending_packets p im =
     (case map_of (pending_outgoing_packets im) p of
        None \<Rightarrow> ([], im)
      | Some xs \<Rightarrow> (xs, im\<lparr>pending_outgoing_packets := AList.delete p (pending_outgoing_packets im)\<rparr>))"

text \<open>
  \<^verbatim>\<open>load_identities\<close> changes its fields before it finds an error, so it returns the error (if any)
  and the object.  \<open>read_file\<close> is \<^verbatim>\<open>read_file_to_string\<close>, \<open>None\<close> if the file cannot be opened.
\<close>

datatype load_error = Throw string | UninitialisedRead

definition read_file_to_string :: "(string \<Rightarrow> string option) \<Rightarrow> string \<Rightarrow> string + string" where
  "read_file_to_string files path =
     (case files path of None \<Rightarrow> Inl (''IdentityManager: Failed to open file: '' @ path) | Some text \<Rightarrow> Inr text)"

definition load_identities :: "('k, 'x) crypto_lib \<Rightarrow> (string \<Rightarrow> string option) \<Rightarrow> string \<Rightarrow> string \<Rightarrow> string
    \<Rightarrow> identity_manager \<Rightarrow> load_error option \<times> identity_manager" where
  "load_identities C files cert_path key_path ca_path im =
     (case read_file_to_string files ca_path of
        Inl e \<Rightarrow> (Some (Throw e), im)
      | Inr ca \<Rightarrow> let im = im\<lparr>ca_root := ca\<rparr> in
     (case read_file_to_string files cert_path of
        Inl e \<Rightarrow> (Some (Throw e), im)
      | Inr cert \<Rightarrow> let im = im\<lparr>my_cert := cert\<rparr> in
     (case read_file_to_string files key_path of
        Inl e \<Rightarrow> (Some (Throw e), im)
      | Inr key \<Rightarrow> let im = im\<lparr>my_private_key := key\<rparr> in
     (if \<not> verify_certificate C (my_cert im) (ca_root im)
      then (Some (Throw ''IdentityManager: Startup Check Failed My certificate is not signed by the provided CA Root.''), im)
      else case extract_common_name C (my_cert im) of
             None \<Rightarrow> (Some UninitialisedRead, im)
           | Some my_id \<Rightarrow> (None, add_trusted_peer my_id (extract_pubkey_from_cert C (my_cert im)) im)))))"

section \<open>PacketSecurity\<close>

text \<open>Clearing a field of a \<open>oneof\<close> has an effect only if it is the one that is set.\<close>

definition clear_binary_data :: "routed_packet \<Rightarrow> routed_packet" where
  "clear_binary_data p = (case payload_variant p of BinaryData _ \<Rightarrow> p\<lparr>payload_variant := NoPayload\<rparr> | _ \<Rightarrow> p)"

definition clear_encrypted_payload :: "routed_packet \<Rightarrow> routed_packet" where
  "clear_encrypted_payload p = (case payload_variant p of EncryptedPayload _ \<Rightarrow> p\<lparr>payload_variant := NoPayload\<rparr> | _ \<Rightarrow> p)"

text \<open>The three random draws of a call have the numbers \<open>n\<close>, \<open>n + 1\<close> and \<open>n + 2\<close>.\<close>

definition secure_packet :: "('k, 'x) crypto_lib \<Rightarrow> nat \<Rightarrow> identity_manager \<Rightarrow> routed_packet \<Rightarrow> peer_id \<Rightarrow> bytes
    \<Rightarrow> bool \<times> routed_packet" where
  "secure_packet C n im pkt target_peer_id raw_payload =
     (case get_public_key target_peer_id im of
        None \<Rightarrow> (False, pkt)
      | Some target_pub_key \<Rightarrow>
          if target_pub_key = [] then (False, pkt)
          else let session_key = generate_aes_key C n in
          (case aes_encrypt C (n + 1) session_key raw_payload of
             Inl e \<Rightarrow> (False, pkt)
           | Inr enc_payload \<Rightarrow>
          (case rsa_encrypt_key C (n + 2) target_pub_key session_key of
             Inl e \<Rightarrow> (False, pkt)
           | Inr enc_session_key \<Rightarrow>
          (case sign_message C (my_private_key im) enc_payload of
             Inl e \<Rightarrow> (False, pkt)
           | Inr sig \<Rightarrow> (True, clear_binary_data (pkt\<lparr>payload_variant := EncryptedPayload enc_payload,
               encrypted_session_key := enc_session_key, signature := sig\<rparr>))))))"

definition decrypt_packet :: "('k, 'x) crypto_lib \<Rightarrow> identity_manager \<Rightarrow> routed_packet \<Rightarrow> string + bytes" where
  "decrypt_packet C im pkt =
     (case get_public_key (from_peer_id pkt) im of
        None \<Rightarrow> Inl ''sender identity unknown.''
      | Some sender_pub_key \<Rightarrow>
          if sender_pub_key = [] then Inl ''sender identity unknown.''
          else if \<not> verify_signature C sender_pub_key (encrypted_payload pkt) (signature pkt) then Inl ''invalid signature''
          else case rsa_decrypt_key C (my_private_key im) (encrypted_session_key pkt) of
                 Inl e \<Rightarrow> Inl ''decryption internal error''
               | Inr session_key \<Rightarrow>
                   (case aes_decrypt C session_key (encrypted_payload pkt) of
                      Inl e \<Rightarrow> Inl ''decryption internal error''
                    | Inr plaintext \<Rightarrow> Inr plaintext))"

section \<open>Helpers of RoutedPacketUtils.cpp without a caller\<close>

definition MakeEncryptedBinaryRoutedPacket :: "('k, 'x) crypto_lib \<Rightarrow> nat \<Rightarrow> bytes \<Rightarrow> peer_id \<Rightarrow> peer_id \<Rightarrow> u32 \<Rightarrow> string
    \<Rightarrow> transport_protocol \<Rightarrow> string \<Rightarrow> string \<Rightarrow> bytes \<Rightarrow> bool \<Rightarrow> string + routed_packet" where
  "MakeEncryptedBinaryRoutedPacket C n u from to hops sub proto dest_public_key src_private_key unencrypted_data expect =
     (let pkt = default_packet\<lparr>pkt_id := u, from_peer_id := from, to_peer_id := to, ttl := hops, pkt_type := BINARY,
            subtype := sub, transport := proto\<rparr>;
          session_key = generate_aes_key C n in
      case aes_encrypt C (n + 1) session_key unencrypted_data of
        Inl e \<Rightarrow> Inl e
      | Inr enc_payload \<Rightarrow>
     (case rsa_encrypt_key C (n + 2) dest_public_key session_key of
        Inl e \<Rightarrow> Inl e
      | Inr enc_key \<Rightarrow>
     (case sign_message C src_private_key enc_payload of
        Inl e \<Rightarrow> Inl e
      | Inr sig \<Rightarrow> Inr (pkt\<lparr>expect_response := expect\<rparr>))))"

definition decrypt_packet_data :: "('k, 'x) crypto_lib \<Rightarrow> string \<Rightarrow> string \<Rightarrow> routed_packet \<Rightarrow> string + bytes" where
  "decrypt_packet_data C sender_pub_key dest_priv_key pkt =
     (if \<not> verify_signature C sender_pub_key (encrypted_payload pkt) (signature pkt) then Inr []
      else case rsa_decrypt_key C dest_priv_key (encrypted_session_key pkt) of
             Inl e \<Rightarrow> Inl e
           | Inr session_key \<Rightarrow> aes_decrypt C session_key (encrypted_payload pkt))"

end
