(* ===== verification/Packet_Security.thy ===== *)
theory Packet_Security
  imports Crypto
begin

text \<open>
  What encrypted packets give: a packet secured for a peer is opened by that peer, whatever the
  routers in between do to its header.  The laws of OpenSSL this rests on are named below.
\<close>

section \<open>The laws of OpenSSL that are used\<close>

text \<open>Decryption in CBC mode inverts encryption with the same key and initialisation vector.\<close>

definition cbc_inverse :: "('k, 'x) crypto_lib \<Rightarrow> bool" where
  "cbc_inverse C \<longleftrightarrow> (\<forall>key iv p c. cbc_encrypt C key iv p = Inr c \<longrightarrow> cbc_decrypt C key iv c = Inr p)"

text \<open>\<^verbatim>\<open>RAND_bytes\<close> fills the buffer it is given.\<close>

definition rand_fills :: "('k, 'x) crypto_lib \<Rightarrow> bool" where
  "rand_fills C \<longleftrightarrow> (\<forall>n k. length (snd (rand_bytes C n k)) = k)"

text \<open>The two PEM texts are the halves of one RSA key pair.\<close>

definition key_pair :: "('k, 'x) crypto_lib \<Rightarrow> string \<Rightarrow> string \<Rightarrow> bool" where
  "key_pair C pub priv \<longleftrightarrow> (\<exists>kp ks. read_pubkey C pub = Some kp \<and> read_private_key C priv = Some ks \<and>
     (\<forall>n m c. pkey_encrypt C n kp m = Inr c \<longrightarrow> pkey_decrypt C ks c = Inr m) \<and>
     (\<forall>m s. digest_sign C ks m = Inr s \<longrightarrow> digest_verify C kp m s))"

section \<open>Round trips\<close>

lemma aes_roundtrip:
  assumes "cbc_inverse C" "rand_fills C" "aes_encrypt C n key p = Inr c"
  shows "aes_decrypt C key c = Inr p"
proof -
  obtain ok iv where r: "rand_bytes C n AES_IV_SIZE = (ok, iv)" by force
  have iv: "length iv = AES_IV_SIZE" using assms(2) r unfolding rand_fills_def by (metis snd_conv)
  obtain ct where "length key = AES_KEY_SIZE" "cbc_encrypt C key iv p = Inr ct" "c = iv @ ct"
    using assms(3) r by (auto simp: aes_encrypt_def Let_def split: if_splits sum.splits)
  then show ?thesis using assms(1) iv by (simp add: aes_decrypt_def cbc_inverse_def)
qed

lemma rsa_roundtrip: "key_pair C pub priv \<Longrightarrow> rsa_encrypt_key C n pub m = Inr c \<Longrightarrow> rsa_decrypt_key C priv c = Inr m"
  by (auto simp: key_pair_def rsa_encrypt_key_def rsa_decrypt_key_def split: sum.splits)

lemma sign_verify: "key_pair C pub priv \<Longrightarrow> sign_message C priv m = Inr s \<Longrightarrow> verify_signature C pub m s"
  by (auto simp: key_pair_def sign_message_def verify_signature_def split: sum.splits)

text \<open>What a successful call leaves in the packet.\<close>

lemma secure_packet_ok:
  assumes "secure_packet C n im pkt target raw = (True, pkt')"
  obtains key enc_payload enc_key sig where "get_public_key target im = Some key" "key \<noteq> []"
    "aes_encrypt C (n + 1) (generate_aes_key C n) raw = Inr enc_payload"
    "rsa_encrypt_key C (n + 2) key (generate_aes_key C n) = Inr enc_key" "sign_message C (my_private_key im) enc_payload = Inr sig"
    "pkt' = pkt\<lparr>payload_variant := EncryptedPayload enc_payload, encrypted_session_key := enc_key, signature := sig\<rparr>"
  using assms
  by (auto simp: secure_packet_def Let_def clear_binary_data_def split: option.splits if_splits sum.splits)

lemma secure_packet_failed: "\<not> fst (secure_packet C n im pkt target raw) \<Longrightarrow> snd (secure_packet C n im pkt target raw) = pkt"
  by (auto simp: secure_packet_def Let_def split: option.splits if_splits sum.splits)

lemma secured_opens:
  assumes "cbc_inverse C" "rand_fills C"
    and "key_pair C pub_r (my_private_key im_r)" "key_pair C pub_s (my_private_key im_s)"
    and "get_public_key target im_s = Some pub_r" "get_public_key (from_peer_id pkt) im_r = Some pub_s" "pub_s \<noteq> []"
    and sec: "secure_packet C n im_s pkt target raw = (True, pkt')"
  shows "has_encrypted_payload pkt' \<and> decrypt_packet C im_r (pkt'\<lparr>pkt_id := i, to_peer_id := d, ttl := h, pkt_type := ty,
    transport := pr, subtype := st, expect_response := e\<rparr>) = Inr raw"
proof -
  from sec obtain key c ek sig where f: "get_public_key target im_s = Some key" "key \<noteq> []"
    "aes_encrypt C (n + 1) (generate_aes_key C n) raw = Inr c"
    "rsa_encrypt_key C (n + 2) key (generate_aes_key C n) = Inr ek" "sign_message C (my_private_key im_s) c = Inr sig"
    "pkt' = pkt\<lparr>payload_variant := EncryptedPayload c, encrypted_session_key := ek, signature := sig\<rparr>"
    by (rule secure_packet_ok)
  have "key = pub_r" using f(1) assms(5) by simp
  then show ?thesis
    using f assms(5-7) aes_roundtrip [OF assms(1,2) f(3)] rsa_roundtrip [OF assms(3), of "n + 2"] sign_verify [OF assms(4) f(5)]
    by (simp add: decrypt_packet_def encrypted_payload_def has_encrypted_payload_def)
qed

text \<open>
  C14.  A secured packet opens at its receiver.  If \<open>secure_packet\<close> succeeds for a peer, the packet
  carries no plaintext, and a receiver that owns the private key and has stored the sender's public key gets
  exactly the payload back, however routers and others change the id, the destination, the
  hop count, the type, the transport, the subtype and the flag on the way: the signature
  covers the encrypted payload only.
\<close>

theorem secured_packet_opens:
  assumes "cbc_inverse C" "rand_fills C"
    and "key_pair C pub_r (my_private_key im_r)" "key_pair C pub_s (my_private_key im_s)"
    and "get_public_key target im_s = Some pub_r" "get_public_key (from_peer_id pkt) im_r = Some pub_s" "pub_s \<noteq> []"
    and "secure_packet C n im_s pkt target raw = (True, pkt')"
  shows "has_encrypted_payload pkt' \<and> decrypt_packet C im_r (pkt'\<lparr>pkt_id := i, to_peer_id := d, ttl := h, pkt_type := ty,
    transport := pr, subtype := st, expect_response := e\<rparr>) = Inr raw"
  using assms by (rule secured_opens)

definition ex_crypto :: "(nat, nat) crypto_lib" where
  "ex_crypto = \<lparr>rand_bytes = (\<lambda>n k. (True, replicate k (of_nat n))),
     cbc_encrypt = (\<lambda>key iv p. Inr (map (\<lambda>b. b + hd (iv @ [0])) p)),
     cbc_decrypt = (\<lambda>key iv c. Inr (map (\<lambda>b. b - hd (iv @ [0])) c)),
     read_pubkey = (\<lambda>t. Some (length t)), read_private_key = (\<lambda>t. Some (length t)),
     pkey_encrypt = (\<lambda>n k m. Inr (of_nat k # m)), pkey_decrypt = (\<lambda>k c. if c = [] then Inl PkeyFailed else Inr (tl c)),
     digest_sign = (\<lambda>k m. Inr [of_nat k, of_nat (length m)]), digest_verify = (\<lambda>k m s. s = [of_nat k, of_nat (length m)]),
     read_x509 = (\<lambda>t. Some (length t)), x509_verify = (\<lambda>ca c. True), x509_pubkey = (\<lambda>c. Some c),
     x509_common_name = (\<lambda>c. Some ''cn''), write_pubkey = (\<lambda>k. replicate k (CHR ''k''))\<rparr>"

lemma ex_crypto_laws: "cbc_inverse ex_crypto" "rand_fills ex_crypto" "length pub = length priv \<Longrightarrow> key_pair ex_crypto pub priv"
  by (auto simp: cbc_inverse_def rand_fills_def key_pair_def ex_crypto_def o_def)

theorem secured_packet_opens_witness:
  "let im_s = new_identity\<lparr>my_private_key := ''s'', trusted_keys := [(''r'', ''rr'')]\<rparr>;
       im_r = new_identity\<lparr>my_private_key := ''rR'', trusted_keys := [(''s'', ''S'')]\<rparr>;
       pkt' = snd (secure_packet ex_crypto 0 im_s (default_packet\<lparr>from_peer_id := ''s''\<rparr>) ''r'' [1, 2])
   in decrypt_packet ex_crypto im_r (pkt'\<lparr>pkt_id := [], to_peer_id := [], ttl := 3, pkt_type := TEXT,
        transport := UDP, subtype := ''x'', expect_response := True\<rparr>) = Inr [1, 2]"
proof -
  let ?s = "new_identity\<lparr>my_private_key := ''s'', trusted_keys := [(''r'', ''rr'')]\<rparr>"
  let ?r = "new_identity\<lparr>my_private_key := ''rR'', trusted_keys := [(''s'', ''S'')]\<rparr>"
  let ?p = "default_packet\<lparr>from_peer_id := ''s''\<rparr>"
  have sec: "secure_packet ex_crypto 0 ?s ?p ''r'' [1, 2] = (True, snd (secure_packet ex_crypto 0 ?s ?p ''r'' [1, 2]))"
    by (simp add: secure_packet_def get_public_key_def ex_crypto_def aes_encrypt_def rsa_encrypt_key_def sign_message_def
        generate_aes_key_def AES_KEY_SIZE_def AES_IV_SIZE_def Let_def)
  have "decrypt_packet ex_crypto ?r (snd (secure_packet ex_crypto 0 ?s ?p ''r'' [1, 2])\<lparr>pkt_id := [], to_peer_id := [], ttl := 3,
      pkt_type := TEXT, transport := UDP, subtype := ''x'', expect_response := True\<rparr>) = Inr [1, 2]"
    using secured_packet_opens [OF ex_crypto_laws(1,2) _ _ _ _ _ sec, of "''rr''" ?r "''S''"]
    by (simp add: ex_crypto_laws get_public_key_def default_packet_def)
  then show ?thesis by (simp add: Let_def)
qed

end
