(* ===== verification/Udp_Transport.thy ===== *)
theory Udp_Transport
  imports Fec_Theorems Packets
begin

text \<open>
  \<^verbatim>\<open>UdpTransport\<close> of \<^verbatim>\<open>net/udp/UdpTransport.cpp\<close>: one FEC encoder per destination and one decoder per
  source and configuration, each made when it is first needed.  The socket belongs to
  Boost.Asio: \<open>datagrams\<close> is the sequence of datagrams given to \<^verbatim>\<open>async_send_to\<close>, and
  \<open>on_receive_from\<close> is the handler given to \<^verbatim>\<open>async_receive_from\<close>, called for a datagram or
  an error.  \<open>crashed\<close> becomes true if an assertion of the codec fails, which no \<^verbatim>\<open>try\<close> catches.
\<close>

section \<open>State\<close>

record udp_fec_options =
  enabled :: bool
  data_shards :: u8
  roots :: u8

definition default_fec_options :: udp_fec_options where
  "default_fec_options = \<lparr>enabled = False, data_shards = 4, roots = 0\<rparr>"

text \<open>A table entry \<open>None\<close> is a null pointer, left by a constructor that threw.\<close>

record udp_transport =
  socket_open :: bool
  fec_options :: udp_fec_options
  encoders_by_endpoint :: "(string \<times> fec_codec option) list"
  decoders_by_endpoint :: "(string \<times> fec_codec option) list"
  on_receive_set :: bool
  receiving :: bool
  datagrams :: "(endpoint \<times> bytes) list"
  crashed :: bool

definition start_receive :: "udp_transport \<Rightarrow> udp_transport" where
  "start_receive t = (if \<not> socket_open t then t else t\<lparr>receiving := True\<rparr>)"

text \<open>\<open>binds port\<close> is what binding the socket to the port throws, if anything.\<close>

definition UdpTransport :: "(u16 \<Rightarrow> string option) \<Rightarrow> u16 \<Rightarrow> udp_fec_options \<Rightarrow> string + udp_transport" where
  "UdpTransport binds port options =
     (case binds port of Some e \<Rightarrow> Inl e | None \<Rightarrow>
      let options = (if roots options = 0 then options\<lparr>enabled := False\<rparr> else options) in
      if enabled options \<and> data_shards options < 1 then Inl ''UDP FEC requires at least one data shard''
      else if enabled options \<and> unat (data_shards options) + unat (roots options) > 254
      then Inl ''UDP FEC requires data shards + roots <= 254''
      else Inr (start_receive \<lparr>socket_open = True, fec_options = options, encoders_by_endpoint = [],
             decoders_by_endpoint = [], on_receive_set = False, receiving = False, datagrams = [], crashed = False\<rparr>))"

definition endpoint_key :: "endpoint \<Rightarrow> string" where
  "endpoint_key ep = fst ep @ '':'' @ to_string (uint (snd ep))"

definition decoder_key :: "endpoint \<Rightarrow> u8 \<Rightarrow> u8 \<Rightarrow> string" where
  "decoder_key ep k m = endpoint_key ep @ ''/'' @ to_string (uint k) @ ''/'' @ to_string (uint m)"

section \<open>Operations\<close>

definition codec_at :: "(string \<times> fec_codec option) list \<Rightarrow> string \<Rightarrow> fec_codec option" where
  "codec_at tbl key = (case map_of tbl key of None \<Rightarrow> None | Some c \<Rightarrow> c)"

definition encoder_for :: "endpoint \<Rightarrow> udp_transport \<Rightarrow> (fec_error + fec_codec) \<times> udp_transport" where
  "encoder_for ep t =
     (let key = endpoint_key ep in
      case codec_at (encoders_by_endpoint t) key of
        Some codec \<Rightarrow> (Inr codec, t)
      | None \<Rightarrow>
          (case FecCodec (data_shards (fec_options t)) (roots (fec_options t)) of
             Inl e \<Rightarrow> (Inl e, t\<lparr>encoders_by_endpoint := AList.update key None (encoders_by_endpoint t)\<rparr>)
           | Inr codec \<Rightarrow> (Inr codec, t\<lparr>encoders_by_endpoint := AList.update key (Some codec) (encoders_by_endpoint t)\<rparr>)))"

definition decoder_for :: "endpoint \<Rightarrow> u8 \<Rightarrow> u8 \<Rightarrow> udp_transport \<Rightarrow> (fec_error + fec_codec) \<times> udp_transport" where
  "decoder_for ep k m t =
     (let key = decoder_key ep k m in
      case codec_at (decoders_by_endpoint t) key of
        Some codec \<Rightarrow> (Inr codec, t)
      | None \<Rightarrow>
          (case FecCodec k m of
             Inl e \<Rightarrow> (Inl e, t\<lparr>decoders_by_endpoint := AList.update key None (decoders_by_endpoint t)\<rparr>)
           | Inr codec \<Rightarrow> (Inr codec, t\<lparr>decoders_by_endpoint := AList.update key (Some codec) (decoders_by_endpoint t)\<rparr>)))"

text \<open>\<^verbatim>\<open>catch (const std::exception&)\<close> logs and goes on; a failed assertion ends the process.\<close>

definition caught :: "fec_error \<Rightarrow> udp_transport \<Rightarrow> udp_transport" where
  "caught e t = (if e = AssertionFailed then t\<lparr>crashed := True\<rparr> else t)"

definition send_datagram :: "endpoint \<Rightarrow> bytes \<Rightarrow> udp_transport \<Rightarrow> udp_transport" where
  "send_datagram ep dg t = (if \<not> socket_open t then t else t\<lparr>datagrams := datagrams t @ [(ep, dg)]\<rparr>)"

definition udp_send_packet :: "mesh_lib \<Rightarrow> endpoint \<Rightarrow> routed_packet \<Rightarrow> udp_transport \<Rightarrow> udp_transport" where
  "udp_send_packet L dest_ep pkt t =
     (if \<not> socket_open t then t
      else let payload = packet_bytes L pkt in
      if \<not> enabled (fec_options t) then send_datagram dest_ep payload t
      else case encoder_for dest_ep t of
             (Inl e, t) \<Rightarrow> caught e t
           | (Inr encoder, t) \<Rightarrow>
               (case encode encoder payload of (res, encoder) \<Rightarrow>
                  let t = t\<lparr>encoders_by_endpoint := AList.update (endpoint_key dest_ep) (Some encoder) (encoders_by_endpoint t)\<rparr>
                  in case res of
                       Inl e \<Rightarrow> caught e t
                     | Inr encoded \<Rightarrow>
                         foldl (\<lambda>t f. send_datagram dest_ep f t) (send_datagram dest_ep (data_frame encoded) t)
                           (parity_frames encoded)))"

definition udp_shutdown :: "udp_transport \<Rightarrow> udp_transport" where
  "udp_shutdown t = t\<lparr>socket_open := False\<rparr>"

definition set_on_receive :: "udp_transport \<Rightarrow> udp_transport" where
  "set_on_receive t = t\<lparr>on_receive_set := True\<rparr>"

text \<open>The FEC branch of the handler, then the handler: the calls of the callback and the new state.\<close>

definition receive_fec :: "endpoint \<Rightarrow> bytes \<Rightarrow> u8 \<Rightarrow> u8 \<Rightarrow> udp_transport \<Rightarrow> (endpoint \<times> bytes) list \<times> udp_transport" where
  "receive_fec ep raw_data k m t =
     (case decoder_for ep k m t of
        (Inl e, t) \<Rightarrow> ([], caught e t)
      | (Inr decoder, t) \<Rightarrow>
          (case decode decoder raw_data of (res, decoder) \<Rightarrow>
             let t = t\<lparr>decoders_by_endpoint := AList.update (decoder_key ep k m) (Some decoder) (decoders_by_endpoint t)\<rparr>
             in case res of Inl e \<Rightarrow> ([], caught e t) | Inr payloads \<Rightarrow> (map (Pair ep) payloads, t)))"

datatype receive_result = ReceiveAborted | ReceiveError | Received bytes

definition on_receive_from :: "endpoint \<Rightarrow> receive_result \<Rightarrow> udp_transport \<Rightarrow> (endpoint \<times> bytes) list \<times> udp_transport" where
  "on_receive_from ep r t =
     (let t = t\<lparr>receiving := False\<rparr> in
      if r = ReceiveAborted \<or> \<not> socket_open t then ([], t)
      else case r of
             Received raw_data \<Rightarrow>
               if raw_data \<noteq> [] \<and> on_receive_set t
               then if is_fec_frame raw_data
                    then (case frame_config raw_data of
                            None \<Rightarrow> ([], start_receive t)
                          | Some (k, m) \<Rightarrow> (let (out, t) = receive_fec ep raw_data k m t in (out, start_receive t)))
                    else ([(ep, raw_data)], start_receive t)
               else ([], start_receive t)
           | _ \<Rightarrow> ([], start_receive t))"

section \<open>Keys\<close>

lemma to_string_nat [simp]: "to_string (uint (w :: 'a :: len word)) = nat_text (unat w)"
  by (simp add: to_string_def)

lemma endpoint_key_inj [simp]: "endpoint_key a = endpoint_key b \<longleftrightarrow> a = b"
proof
  assume "endpoint_key a = endpoint_key b"
  then have "fst a @ CHR '':'' # nat_text (unat (snd a)) = fst b @ CHR '':'' # nat_text (unat (snd b))"
    by (simp add: endpoint_key_def)
  from suffix_number_inj [OF this separator_no_digit(1)] show "a = b" by (simp add: prod_eq_iff word_unat_eq_iff)
qed simp

lemma decoder_key_inj [simp]: "decoder_key a k m = decoder_key b k' m' \<longleftrightarrow> a = b \<and> k = k' \<and> m = m'"
proof
  assume "decoder_key a k m = decoder_key b k' m'"
  then have "(endpoint_key a @ CHR ''/'' # nat_text (unat k)) @ CHR ''/'' # nat_text (unat m) =
      (endpoint_key b @ CHR ''/'' # nat_text (unat k')) @ CHR ''/'' # nat_text (unat m')"
    by (simp add: decoder_key_def)
  from suffix_number_inj [OF this separator_no_digit(2)]
  have m: "unat m = unat m'" and "endpoint_key a @ CHR ''/'' # nat_text (unat k) = endpoint_key b @ CHR ''/'' # nat_text (unat k')"
    by simp_all
  from suffix_number_inj [OF this(2) separator_no_digit(2)] m show "a = b \<and> k = k' \<and> m = m'" by (simp add: word_unat_eq_iff)
qed simp

lemma codec_at_update: "codec_at (AList.update key c tbl) key' = (if key' = key then c else codec_at tbl key')"
  by (simp add: codec_at_def update_conv')

section \<open>Tables of codecs\<close>

text \<open>
  The contract of a table of objects made on demand: a request reaches the object of its key
  (made first if there is none), and no other object; if the object cannot be made, the
  request is \<open>refused\<close>.
\<close>

fun run_reqs :: "('q \<Rightarrow> 's \<Rightarrow> 'o \<times> 's) \<Rightarrow> 'q list \<Rightarrow> 's \<Rightarrow> 'o list \<times> 's" where
  "run_reqs f [] s = ([], s)"
| "run_reqs f (q # qs) s = (let (out, s1) = f q s; (outs, s2) = run_reqs f qs s1 in (out # outs, s2))"

lemma run_reqs_length: "length (fst (run_reqs f qs s)) = length qs"
  by (induction qs arbitrary: s) (auto simp: case_prod_unfold Let_def)

text \<open>The outputs of the requests that satisfy \<open>P\<close>.\<close>

definition outputs_of :: "('q \<Rightarrow> bool) \<Rightarrow> 'q list \<Rightarrow> 'o list \<Rightarrow> 'o list" where
  "outputs_of P qs outs = map snd (filter (\<lambda>(q, out). P q) (zip qs outs))"

lemma outputs_of_simps [simp]:
  "outputs_of P [] outs = []"
  "outputs_of P (q # qs) (out # outs) = (if P q then out # outputs_of P qs outs else outputs_of P qs outs)"
  by (simp_all add: outputs_of_def)

locale keyed_table =
  fixes step :: "'q \<Rightarrow> 't \<Rightarrow> 'o \<times> 't" and ok :: "'t \<Rightarrow> bool" and key :: "'q \<Rightarrow> 'k" and obj :: "'t \<Rightarrow> 'k \<Rightarrow> 'c option"
    and made :: "'t \<Rightarrow> 'k \<Rightarrow> 'c option" and use :: "'q \<Rightarrow> 'c \<Rightarrow> 'o \<times> 'c"
  assumes ok_step: "ok t \<Longrightarrow> ok (snd (step q t))"
    and made_step: "ok t \<Longrightarrow> made (snd (step q t)) = made t"
    and others: "ok t \<Longrightarrow> k \<noteq> key q \<Longrightarrow> obj (snd (step q t)) k = obj t k"
    and found: "ok t \<Longrightarrow> obj t (key q) = Some c \<or> obj t (key q) = None \<and> made t (key q) = Some c \<Longrightarrow>
      fst (step q t) = fst (use q c) \<and> obj (snd (step q t)) (key q) = Some (snd (use q c))"
begin

lemma stream_step:
  assumes "ok t" "obj t k = Some c \<or> obj t k = None \<and> made t k = Some c"
  shows "outputs_of (\<lambda>q. key q = k) qs (fst (run_reqs step qs t)) = fst (run_reqs use (filter (\<lambda>q. key q = k) qs) c) \<and> ok (snd (run_reqs step qs t))"
  using assms
proof (induction qs arbitrary: t c)
  case (Cons q qs)
  obtain out t1 where s: "step q t = (out, t1)" by force
  have t1: "ok t1" "made t1 = made t" using ok_step [OF Cons.prems(1), of q] made_step [OF Cons.prems(1), of q] s by auto
  show ?case
  proof (cases "key q = k")
    case True
    then have "out = fst (use q c)" "obj t1 k = Some (snd (use q c))" using found [OF Cons.prems(1), of q c] Cons.prems(2) s by auto
    then show ?thesis using Cons.IH [OF t1(1), of "snd (use q c)"] True s by (auto simp: case_prod_unfold Let_def)
  next
    case False
    then have "obj t1 k = obj t k" using others [OF Cons.prems(1)] s by (metis snd_conv)
    then show ?thesis using Cons.IH [OF t1(1), of c] Cons.prems(2) t1(2) False s by (auto simp: case_prod_unfold Let_def)
  qed
qed simp

end

text \<open>The decoders: a request is a datagram, its key the source and the configuration in its header.\<close>

definition frame_key :: "endpoint \<times> bytes \<Rightarrow> endpoint \<times> (u8 \<times> u8) option" where
  "frame_key q = (fst q, frame_config (snd q))"

definition decoder_at :: "udp_transport \<Rightarrow> endpoint \<times> (u8 \<times> u8) option \<Rightarrow> fec_codec option" where
  "decoder_at t key = (case key of (ep, Some (k, m)) \<Rightarrow> codec_at (decoders_by_endpoint t) (decoder_key ep k m) | _ \<Rightarrow> None)"

definition new_decoder :: "endpoint \<times> (u8 \<times> u8) option \<Rightarrow> fec_codec option" where
  "new_decoder key = (case key of (ep, Some (k, m)) \<Rightarrow> (case FecCodec k m of Inl e \<Rightarrow> None | Inr c \<Rightarrow> Some c) | _ \<Rightarrow> None)"

definition use_decoder :: "endpoint \<times> bytes \<Rightarrow> fec_codec \<Rightarrow> (endpoint \<times> bytes) list \<times> fec_codec" where
  "use_decoder q c = (let (res, c') = decode c (snd q) in (case res of Inl e \<Rightarrow> [] | Inr ps \<Rightarrow> map (Pair (fst q)) ps, c'))"

definition receive_datagram :: "endpoint \<times> bytes \<Rightarrow> udp_transport \<Rightarrow> (endpoint \<times> bytes) list \<times> udp_transport" where
  "receive_datagram q t = on_receive_from (fst q) (Received (snd q)) t"

definition listening :: "udp_transport \<Rightarrow> bool" where
  "listening t \<longleftrightarrow> socket_open t \<and> on_receive_set t"

lemma caught_fields [simp]:
  "socket_open (caught e t) = socket_open t" "on_receive_set (caught e t) = on_receive_set t"
  "decoders_by_endpoint (caught e t) = decoders_by_endpoint t" "encoders_by_endpoint (caught e t) = encoders_by_endpoint t"
  "fec_options (caught e t) = fec_options t" "datagrams (caught e t) = datagrams t"
  by (simp_all add: caught_def)

lemma start_receive_fields [simp]:
  "socket_open (start_receive t) = socket_open t" "on_receive_set (start_receive t) = on_receive_set t"
  "decoders_by_endpoint (start_receive t) = decoders_by_endpoint t" "crashed (start_receive t) = crashed t"
  by (simp_all add: start_receive_def)

text \<open>The handler on a datagram, in terms of the table of decoders.\<close>

lemma receive_datagram_cases:
  assumes "listening t"
  shows "receive_datagram q t =
    (if snd q = [] then ([], start_receive (t\<lparr>receiving := False\<rparr>))
     else case frame_config (snd q) of
            None \<Rightarrow> ([q], start_receive (t\<lparr>receiving := False\<rparr>))
          | Some (k, m) \<Rightarrow> (let (out, t') = receive_fec (fst q) (snd q) k m (t\<lparr>receiving := False\<rparr>) in (out, start_receive t')))"
  using assms by (auto simp: receive_datagram_def on_receive_from_def listening_def frame_config_def split: prod.split)

lemma receive_fec_listening: "listening (snd (receive_fec ep raw k m t)) = listening t"
  by (auto simp: receive_fec_def decoder_for_def listening_def Let_def split: prod.splits option.splits sum.splits)

lemma receive_fec_others:
  "decoder_key ep k m \<noteq> key \<Longrightarrow> codec_at (decoders_by_endpoint (snd (receive_fec ep raw k m t))) key = codec_at (decoders_by_endpoint t) key"
  by (auto simp: receive_fec_def decoder_for_def Let_def codec_at_update split: prod.splits option.splits sum.splits)

lemma receive_fec_found:
  assumes "codec_at (decoders_by_endpoint t) (decoder_key ep k m) = Some c \<or>
    codec_at (decoders_by_endpoint t) (decoder_key ep k m) = None \<and> FecCodec k m = Inr c"
  shows "fst (receive_fec ep raw k m t) = fst (use_decoder (ep, raw) c) \<and>
    codec_at (decoders_by_endpoint (snd (receive_fec ep raw k m t))) (decoder_key ep k m) = Some (snd (use_decoder (ep, raw) c))"
  using assms
  by (auto simp: receive_fec_def decoder_for_def use_decoder_def Let_def codec_at_update split: prod.splits sum.splits)

interpretation decoders: keyed_table receive_datagram listening frame_key decoder_at "\<lambda>t. new_decoder" use_decoder
proof
  fix t q c k assume t: "listening t"
  let ?t = "t\<lparr>receiving := False\<rparr>"
  have l: "listening ?t" "decoders_by_endpoint ?t = decoders_by_endpoint t" using t by (simp_all add: listening_def)
  show "listening (snd (receive_datagram q t))"
    using l(1) receive_fec_listening [of "fst q" "snd q" _ _ ?t]
    by (auto simp: receive_datagram_cases [OF t] listening_def case_prod_unfold Let_def split: option.split)
  show "decoder_at (snd (receive_datagram q t)) k = decoder_at t k" if "k \<noteq> frame_key q"
  proof (cases k)
    case (Pair ep cfg)
    show ?thesis
    proof (cases cfg)
      case (Some km)
      obtain k' m' where km: "km = (k', m')" by force
      have "codec_at (decoders_by_endpoint (snd (receive_fec (fst q) (snd q) a b ?t))) (decoder_key ep k' m') =
          codec_at (decoders_by_endpoint t) (decoder_key ep k' m')" if "frame_config (snd q) = Some (a, b)" for a b
        using receive_fec_others [of "fst q" a b "decoder_key ep k' m'" "snd q" ?t] \<open>k \<noteq> frame_key q\<close> that Pair Some km
        by (auto simp: frame_key_def)
      then show ?thesis using Pair Some km
        by (auto simp: receive_datagram_cases [OF t] decoder_at_def case_prod_unfold Let_def split: option.split)
    qed (simp add: Pair decoder_at_def)
  qed
  assume f: "decoder_at t (frame_key q) = Some c \<or> decoder_at t (frame_key q) = None \<and> new_decoder (frame_key q) = Some c"
  then obtain a b where ab: "frame_config (snd q) = Some (a, b)"
    by (cases "frame_config (snd q)") (auto simp: frame_key_def decoder_at_def new_decoder_def)
  then have ne: "snd q \<noteq> []" by (auto simp: frame_config_def is_fec_frame_def kHeaderSize_def)
  have "fst (receive_fec (fst q) (snd q) a b ?t) = fst (use_decoder (fst q, snd q) c) \<and>
    codec_at (decoders_by_endpoint (snd (receive_fec (fst q) (snd q) a b ?t))) (decoder_key (fst q) a b) = Some (snd (use_decoder (fst q, snd q) c))"
    using f ab l(2) by (intro receive_fec_found) (auto simp: frame_key_def decoder_at_def new_decoder_def split: sum.splits)
  then show "fst (receive_datagram q t) = fst (use_decoder q c) \<and> decoder_at (snd (receive_datagram q t)) (frame_key q) = Some (snd (use_decoder q c))"
    using ab ne by (auto simp: receive_datagram_cases [OF t] decoder_at_def frame_key_def case_prod_unfold Let_def)
qed simp

text \<open>The encoders: a request is a packet for a destination, its output the datagrams it sends.\<close>

definition send_out :: "mesh_lib \<Rightarrow> endpoint \<times> routed_packet \<Rightarrow> udp_transport \<Rightarrow> (endpoint \<times> bytes) list \<times> udp_transport" where
  "send_out L q t = (let t' = udp_send_packet L (fst q) (snd q) t in (drop (length (datagrams t)) (datagrams t'), t'))"

definition encoder_at :: "udp_transport \<Rightarrow> endpoint \<Rightarrow> fec_codec option" where
  "encoder_at t ep = codec_at (encoders_by_endpoint t) (endpoint_key ep)"

definition new_encoder :: "udp_transport \<Rightarrow> fec_codec option" where
  "new_encoder t = (case FecCodec (data_shards (fec_options t)) (roots (fec_options t)) of Inl e \<Rightarrow> None | Inr c \<Rightarrow> Some c)"

definition use_encoder :: "mesh_lib \<Rightarrow> endpoint \<times> routed_packet \<Rightarrow> fec_codec \<Rightarrow> (endpoint \<times> bytes) list \<times> fec_codec" where
  "use_encoder L q c = (let (res, c') = encode c (packet_bytes L (snd q)) in (map (Pair (fst q)) (frames_of res), c'))"

definition coding :: "udp_transport \<Rightarrow> bool" where
  "coding t \<longleftrightarrow> socket_open t \<and> enabled (fec_options t)"

lemma send_datagram_fields [simp]:
  "socket_open (send_datagram ep dg t) = socket_open t" "fec_options (send_datagram ep dg t) = fec_options t"
  "encoders_by_endpoint (send_datagram ep dg t) = encoders_by_endpoint t" "crashed (send_datagram ep dg t) = crashed t"
  "decoders_by_endpoint (send_datagram ep dg t) = decoders_by_endpoint t"
  by (simp_all add: send_datagram_def)

lemma send_datagrams_fields [simp]:
  "socket_open (foldl (\<lambda>t f. send_datagram ep f t) t fs) = socket_open t"
  "fec_options (foldl (\<lambda>t f. send_datagram ep f t) t fs) = fec_options t"
  "encoders_by_endpoint (foldl (\<lambda>t f. send_datagram ep f t) t fs) = encoders_by_endpoint t"
  "decoders_by_endpoint (foldl (\<lambda>t f. send_datagram ep f t) t fs) = decoders_by_endpoint t"
  "crashed (foldl (\<lambda>t f. send_datagram ep f t) t fs) = crashed t"
  by (induction fs arbitrary: t) simp_all

lemma send_datagram_out [simp]: "socket_open t \<Longrightarrow> datagrams (send_datagram ep dg t) = datagrams t @ [(ep, dg)]"
  by (simp add: send_datagram_def)

lemma encoder_for_fields:
  "socket_open (snd (encoder_for ep t)) = socket_open t" "fec_options (snd (encoder_for ep t)) = fec_options t"
  "datagrams (snd (encoder_for ep t)) = datagrams t" "crashed (snd (encoder_for ep t)) = crashed t"
  "decoders_by_endpoint (snd (encoder_for ep t)) = decoders_by_endpoint t"
  "ep' \<noteq> ep \<Longrightarrow> encoder_at (snd (encoder_for ep t)) ep' = encoder_at t ep'"
  by (auto simp: encoder_for_def encoder_at_def Let_def codec_at_update split: sum.splits option.splits)

lemma send_datagrams:
  "socket_open t \<Longrightarrow> datagrams (foldl (\<lambda>t f. send_datagram ep f t) t fs) = datagrams t @ map (Pair ep) fs"
  by (induction fs arbitrary: t) simp_all

text \<open>What a call sends, in terms of the encoder of the destination.\<close>

lemma udp_send_packet_found:
  assumes t: "coding t" and c: "encoder_at t ep = Some c \<or> encoder_at t ep = None \<and> new_encoder t = Some c"
  shows "datagrams (udp_send_packet L ep pkt t) = datagrams t @ fst (use_encoder L (ep, pkt) c)"
    "encoder_at (udp_send_packet L ep pkt t) ep = Some (snd (use_encoder L (ep, pkt) c))"
    "fec_options (udp_send_packet L ep pkt t) = fec_options t" "socket_open (udp_send_packet L ep pkt t) = socket_open t"
proof -
  obtain t1 where e: "encoder_for ep t = (Inr c, t1)" "socket_open t1 = socket_open t" "fec_options t1 = fec_options t" "datagrams t1 = datagrams t"
    using c by (auto simp: encoder_for_def encoder_at_def new_encoder_def Let_def split: sum.splits)
  obtain res c' where enc: "encode c (packet_bytes L pkt) = (res, c')" by force
  have "datagrams (udp_send_packet L ep pkt t) = datagrams t @ fst (use_encoder L (ep, pkt) c)
    \<and> encoder_at (udp_send_packet L ep pkt t) ep = Some (snd (use_encoder L (ep, pkt) c))
    \<and> fec_options (udp_send_packet L ep pkt t) = fec_options t \<and> socket_open (udp_send_packet L ep pkt t) = socket_open t"
    using t e enc
    by (cases res) (auto simp: udp_send_packet_def coding_def Let_def use_encoder_def send_datagrams
        encoder_at_def codec_at_update)
  then show "datagrams (udp_send_packet L ep pkt t) = datagrams t @ fst (use_encoder L (ep, pkt) c)"
    "encoder_at (udp_send_packet L ep pkt t) ep = Some (snd (use_encoder L (ep, pkt) c))"
    "fec_options (udp_send_packet L ep pkt t) = fec_options t" "socket_open (udp_send_packet L ep pkt t) = socket_open t" by simp_all
qed

lemma udp_send_packet_coding:
  assumes "coding t"
  shows "coding (udp_send_packet L ep pkt t)" "fec_options (udp_send_packet L ep pkt t) = fec_options t"
    "ep' \<noteq> ep \<Longrightarrow> encoder_at (udp_send_packet L ep pkt t) ep' = encoder_at t ep'"
    "\<exists>fs. datagrams (udp_send_packet L ep pkt t) = datagrams t @ map (Pair ep) fs"
proof -
  obtain r t1 where e: "encoder_for ep t = (r, t1)" "socket_open t1 = socket_open t" "fec_options t1 = fec_options t"
      "datagrams t1 = datagrams t" "ep' \<noteq> ep \<Longrightarrow> encoder_at t1 ep' = encoder_at t ep'"
    using encoder_for_fields [where ep = ep and t = t] by (metis prod.collapse)
  have "coding (udp_send_packet L ep pkt t) \<and> fec_options (udp_send_packet L ep pkt t) = fec_options t
    \<and> (ep' \<noteq> ep \<longrightarrow> encoder_at (udp_send_packet L ep pkt t) ep' = encoder_at t ep')
    \<and> (\<exists>fs. datagrams (udp_send_packet L ep pkt t) = datagrams t @ map (Pair ep) fs)"
  proof (cases r)
    case (Inl err)
    then show ?thesis using assms e by (auto simp: udp_send_packet_def coding_def encoder_at_def)
  next
    case (Inr c)
    obtain res c' where enc: "encode c (packet_bytes L pkt) = (res, c')" by force
    have "\<exists>fs. datagrams t @ [(ep, f)] @ map (Pair ep) gs = datagrams t @ map (Pair ep) fs" for f gs
      by (rule exI [of _ "f # gs"]) simp
    then show ?thesis using assms e enc Inr
      by (cases res) (auto simp: udp_send_packet_def coding_def Let_def send_datagrams encoder_at_def codec_at_update)
  qed
  then show "coding (udp_send_packet L ep pkt t)" "fec_options (udp_send_packet L ep pkt t) = fec_options t"
    "ep' \<noteq> ep \<Longrightarrow> encoder_at (udp_send_packet L ep pkt t) ep' = encoder_at t ep'"
    "\<exists>fs. datagrams (udp_send_packet L ep pkt t) = datagrams t @ map (Pair ep) fs" by simp_all
qed

interpretation encoders: keyed_table "send_out L" coding fst encoder_at "\<lambda>t ep. new_encoder t" "use_encoder L" for L
proof
  fix t q c k assume t: "coding t"
  show "coding (snd (send_out L q t))" using udp_send_packet_coding(1) [OF t] by (simp add: send_out_def Let_def)
  show "(\<lambda>ep. new_encoder (snd (send_out L q t))) = (\<lambda>ep. new_encoder t)"
    using udp_send_packet_coding(2) [OF t] by (simp add: send_out_def Let_def new_encoder_def)
  show "encoder_at (snd (send_out L q t)) k = encoder_at t k" if "k \<noteq> fst q"
    using udp_send_packet_coding(3) [OF t that] by (simp add: send_out_def Let_def)
  assume "encoder_at t (fst q) = Some c \<or> encoder_at t (fst q) = None \<and> new_encoder t = Some c"
  from udp_send_packet_found(1,2) [OF t this, of L "snd q"]
  show "fst (send_out L q t) = fst (use_encoder L q c) \<and> encoder_at (snd (send_out L q t)) (fst q) = Some (snd (use_encoder L q c))"
    by (simp add: send_out_def Let_def)
qed

section \<open>What the two ends do together\<close>

definition frame_payloads :: "fec_error + bytes list \<Rightarrow> bytes list" where
  "frame_payloads r = (case r of Inl e \<Rightarrow> [] | Inr ps \<Rightarrow> ps)"

lemma run_use_decoder:
  "fst (run_reqs use_decoder (map (Pair ep) raws) c) = map (\<lambda>r. map (Pair ep) (frame_payloads r)) (fst (receive_all c raws))"
  by (induction raws arbitrary: c) (simp_all add: use_decoder_def frame_payloads_def case_prod_unfold Let_def split: sum.split)

lemma run_use_encoder:
  "fst (run_reqs (use_encoder L) (map (Pair ep) pkts) c) = map (\<lambda>r. map (Pair ep) (frames_of r)) (fst (send_all c (map (packet_bytes L) pkts)))"
  by (induction pkts arbitrary: c) (simp_all add: use_encoder_def case_prod_unfold Let_def)

lemma filter_source: "\<forall>q\<in>set qs. fst q = ep \<Longrightarrow> qs = map (Pair ep) (map snd qs)"
  by (induction qs) auto

text \<open>Sending a sequence of packets.\<close>

definition udp_send_all :: "mesh_lib \<Rightarrow> (endpoint \<times> routed_packet) list \<Rightarrow> udp_transport \<Rightarrow> udp_transport" where
  "udp_send_all L sends t = foldl (\<lambda>t (ep, pkt). udp_send_packet L ep pkt t) t sends"

lemma udp_send_all_run: "coding t \<Longrightarrow> datagrams (udp_send_all L sends t) = datagrams t @ concat (fst (run_reqs (send_out L) sends t))"
proof (induction sends arbitrary: t)
  case (Cons q sends)
  obtain ep pkt where q: "q = (ep, pkt)" by (cases q)
  let ?t = "udp_send_packet L ep pkt t"
  obtain fs where fs: "datagrams ?t = datagrams t @ map (Pair ep) fs" using udp_send_packet_coding(4) [OF Cons.prems] by blast
  then have "send_out L q t = (map (Pair ep) fs, ?t)" by (simp add: send_out_def q Let_def)
  then show ?case using Cons.IH [OF udp_send_packet_coding(1) [OF Cons.prems, of L ep pkt]] q fs
    by (auto simp: udp_send_all_def case_prod_unfold Let_def)
qed (simp add: udp_send_all_def)

text \<open>The datagrams for one destination are the outputs of the requests for it.\<close>

lemma datagrams_of_run:
  assumes "coding t"
  shows "filter (\<lambda>d. fst d = dest) (concat (fst (run_reqs (send_out L) sends t))) =
    concat (outputs_of (\<lambda>q. fst q = dest) sends (fst (run_reqs (send_out L) sends t)))"
  using assms
proof (induction sends arbitrary: t)
  case (Cons q sends)
  let ?t = "udp_send_packet L (fst q) (snd q) t"
  obtain fs where f: "datagrams ?t = datagrams t @ map (Pair (fst q)) fs" using udp_send_packet_coding(4) [OF Cons.prems] by blast
  have "filter (\<lambda>d. fst d = dest) (map (Pair (fst q)) fs) = (if fst q = dest then map (Pair (fst q)) fs else [])"
    by (induction fs) auto
  then show ?case using Cons.IH [OF udp_send_packet_coding(1) [OF Cons.prems, of L "fst q" "snd q"]] f
    by (simp add: send_out_def case_prod_unfold Let_def)
qed simp

lemma UdpTransport_Inr:
  assumes "UdpTransport binds port opts = Inr a"
  shows "socket_open a" "datagrams a = []" "encoder_at a ep = None" "decoder_at a key = None" "crashed a = False"
    "encoders_by_endpoint a = []" "decoders_by_endpoint a = []"
    "enabled (fec_options a) \<Longrightarrow> 1 \<le> unat (data_shards (fec_options a)) \<and> 1 \<le> unat (roots (fec_options a)) \<and>
      unat (data_shards (fec_options a)) + unat (roots (fec_options a)) \<le> 254"
proof -
  obtain o' where o': "a = \<lparr>socket_open = True, fec_options = o', encoders_by_endpoint = [],
             decoders_by_endpoint = [], on_receive_set = False, receiving = True, datagrams = [], crashed = False\<rparr>"
      "enabled o' \<Longrightarrow> roots o' \<noteq> 0 \<and> \<not> data_shards o' < 1 \<and> \<not> unat (data_shards o') + unat (roots o') > 254"
    using assms by (auto simp: UdpTransport_def start_receive_def Let_def split: if_splits option.splits)
  then show "socket_open a" "datagrams a = []" "encoder_at a ep = None" "decoder_at a key = None" "crashed a = False"
    "encoders_by_endpoint a = []" "decoders_by_endpoint a = []"
    by (simp_all add: encoder_at_def decoder_at_def codec_at_def split: prod.split option.split)
  show "1 \<le> unat (data_shards (fec_options a)) \<and> 1 \<le> unat (roots (fec_options a)) \<and>
      unat (data_shards (fec_options a)) + unat (roots (fec_options a)) \<le> 254" if "enabled (fec_options a)"
    using o' that by (auto simp: Suc_le_eq unat_gt_0)
qed

lemma stream_refines_codec:
  assumes "listening t" "decoder_at t (src, Some (k, m)) = None" "FecCodec k m = Inr c"
  shows "outputs_of (\<lambda>q. frame_key q = (src, Some (k, m))) arrivals (fst (run_reqs receive_datagram arrivals t)) =
    map (\<lambda>r. map (Pair src) (frame_payloads r))
      (fst (receive_all c (map snd (filter (\<lambda>q. frame_key q = (src, Some (k, m))) arrivals))))"
proof -
  let ?f = "filter (\<lambda>q. frame_key q = (src, Some (k, m))) arrivals"
  have "?f = map (Pair src) (map snd ?f)" by (rule filter_source) (auto simp: frame_key_def)
  then show ?thesis
    using decoders.stream_step [OF assms(1), of "(src, Some (k, m))" c arrivals] assms(2,3) run_use_decoder [of src "map snd ?f" c]
    by (simp add: new_decoder_def)
qed

section \<open>Sending and receiving at the same time\<close>

datatype udp_traffic = Outgoing "endpoint \<times> routed_packet" | Incoming "endpoint \<times> bytes"

fun traffic_step :: "mesh_lib \<Rightarrow> udp_traffic \<Rightarrow> udp_transport \<Rightarrow> (endpoint \<times> bytes) list \<times> udp_transport" where
  "traffic_step L (Outgoing q) t = send_out L q t"
| "traffic_step L (Incoming q) t = receive_datagram q t"

text \<open>The codec an event is for: the encoder of a destination, or the decoder of a source and a configuration.\<close>

fun traffic_key :: "udp_traffic \<Rightarrow> endpoint + endpoint \<times> (u8 \<times> u8) option" where
  "traffic_key (Outgoing q) = Inl (fst q)"
| "traffic_key (Incoming q) = Inr (frame_key q)"

fun codec_of :: "udp_transport \<Rightarrow> endpoint + endpoint \<times> (u8 \<times> u8) option \<Rightarrow> fec_codec option" where
  "codec_of t (Inl ep) = (if coding t then encoder_at t ep else None)"
| "codec_of t (Inr key) = decoder_at t key"

fun new_codec :: "udp_transport \<Rightarrow> endpoint + endpoint \<times> (u8 \<times> u8) option \<Rightarrow> fec_codec option" where
  "new_codec t (Inl ep) = (if coding t then new_encoder t else None)"
| "new_codec t (Inr key) = new_decoder key"

fun use_codec :: "mesh_lib \<Rightarrow> udp_traffic \<Rightarrow> fec_codec \<Rightarrow> (endpoint \<times> bytes) list \<times> fec_codec" where
  "use_codec L (Outgoing q) c = use_encoder L q c"
| "use_codec L (Incoming q) c = use_decoder q c"

text \<open>Sending leaves the receiving side alone, and the other way round.\<close>

lemma send_datagram_listening [simp]: "on_receive_set (foldl (\<lambda>t f. send_datagram ep f t) t fs) = on_receive_set t" "on_receive_set (send_datagram ep f t) = on_receive_set t"
  by (induction fs arbitrary: t) (simp_all add: send_datagram_def)

lemma udp_send_packet_receiving:
  "socket_open (udp_send_packet L ep pkt t) = socket_open t" "on_receive_set (udp_send_packet L ep pkt t) = on_receive_set t"
  "decoders_by_endpoint (udp_send_packet L ep pkt t) = decoders_by_endpoint t" "fec_options (udp_send_packet L ep pkt t) = fec_options t"
  by (auto simp: udp_send_packet_def encoder_for_def Let_def split: prod.splits sum.splits option.splits)

lemma receive_fec_sending:
  "encoders_by_endpoint (snd (receive_fec ep raw k m t)) = encoders_by_endpoint t" "fec_options (snd (receive_fec ep raw k m t)) = fec_options t"
  "socket_open (snd (receive_fec ep raw k m t)) = socket_open t"
  by (auto simp: receive_fec_def decoder_for_def Let_def split: prod.splits sum.splits option.splits)

lemma receive_datagram_sending:
  "encoders_by_endpoint (snd (receive_datagram q t)) = encoders_by_endpoint t" "fec_options (snd (receive_datagram q t)) = fec_options t"
  "socket_open (snd (receive_datagram q t)) = socket_open t"
  by (auto simp: receive_datagram_def on_receive_from_def start_receive_def case_prod_unfold Let_def receive_fec_sending split: option.splits)

lemma traffic_step_fields:
  "socket_open (snd (traffic_step L e t)) = socket_open t" "fec_options (snd (traffic_step L e t)) = fec_options t"
  by (cases e; simp add: send_out_def Let_def udp_send_packet_receiving receive_datagram_sending)+

lemma traffic_coding: "coding (snd (traffic_step L e t)) = coding t"
  by (simp add: coding_def traffic_step_fields)

interpretation traffic: keyed_table "traffic_step L" listening traffic_key codec_of new_codec "use_codec L" for L
proof
  fix t e k c assume t: "listening t"
  show "listening (snd (traffic_step L e t))"
    using t decoders.ok_step by (cases e) (simp_all add: send_out_def Let_def listening_def udp_send_packet_receiving)
  have "new_encoder (snd (traffic_step L e t)) = new_encoder t" by (simp add: new_encoder_def traffic_step_fields)
  then have "new_codec (snd (traffic_step L e t)) x = new_codec t x" for x by (cases x) (simp_all add: traffic_coding)
  then show "new_codec (snd (traffic_step L e t)) = new_codec t" by blast
  show "codec_of (snd (traffic_step L e t)) k = codec_of t k" if k: "k \<noteq> traffic_key e"
  proof (cases e)
    case (Outgoing q)
    have "coding t \<Longrightarrow> ep \<noteq> fst q \<Longrightarrow> encoder_at (snd (send_out L q t)) ep = encoder_at t ep" for ep by (rule encoders.others)
    moreover have "decoder_at (snd (send_out L q t)) key = decoder_at t key" for key
      by (simp add: decoder_at_def send_out_def Let_def udp_send_packet_receiving split: prod.split option.split)
    ultimately show ?thesis using k traffic_coding [of L e t] Outgoing by (cases k) auto
  next
    case (Incoming q)
    have "encoder_at (snd (receive_datagram q t)) ep = encoder_at t ep" for ep by (simp add: encoder_at_def receive_datagram_sending)
    then show ?thesis using k decoders.others [OF t] traffic_coding [of L e t] Incoming by (cases k) auto
  qed
  assume c: "codec_of t (traffic_key e) = Some c \<or> codec_of t (traffic_key e) = None \<and> new_codec t (traffic_key e) = Some c"
  show "fst (traffic_step L e t) = fst (use_codec L e c) \<and> codec_of (snd (traffic_step L e t)) (traffic_key e) = Some (snd (use_codec L e c))"
  proof (cases e)
    case (Outgoing q)
    then have "coding t" "encoder_at t (fst q) = Some c \<or> encoder_at t (fst q) = None \<and> new_encoder t = Some c"
      using c by (auto split: if_splits)
    from encoders.found [OF this] this(1) show ?thesis using Outgoing traffic_coding [of L e t] by simp
  next
    case (Incoming q)
    then show ?thesis using decoders.found [OF t, of q c] c by simp
  qed
qed

text \<open>The packets sent to one destination, and the frames of one source and one configuration.\<close>

fun packets_to :: "endpoint \<Rightarrow> udp_traffic list \<Rightarrow> routed_packet list" where
  "packets_to dest [] = []"
| "packets_to dest (Outgoing (ep, pkt) # es) = (if ep = dest then pkt # packets_to dest es else packets_to dest es)"
| "packets_to dest (Incoming q # es) = packets_to dest es"

fun frames_from :: "endpoint \<Rightarrow> u8 \<Rightarrow> u8 \<Rightarrow> udp_traffic list \<Rightarrow> bytes list" where
  "frames_from src k m [] = []"
| "frames_from src k m (Outgoing q # es) = frames_from src k m es"
| "frames_from src k m (Incoming (ep, raw) # es) =
     (if ep = src \<and> frame_config raw = Some (k, m) then raw # frames_from src k m es else frames_from src k m es)"

lemma run_encoder_events:
  "fst (run_reqs (use_codec L) (filter (\<lambda>e. traffic_key e = Inl dest) es) c) =
   map (\<lambda>r. map (Pair dest) (frames_of r)) (fst (send_all c (map (packet_bytes L) (packets_to dest es))))"
  by (induction dest es arbitrary: c rule: packets_to.induct) (auto simp: use_encoder_def case_prod_unfold Let_def)

lemma run_decoder_events:
  "fst (run_reqs (use_codec L) (filter (\<lambda>e. traffic_key e = Inr (src, Some (k, m))) es) c) =
   map (\<lambda>r. map (Pair src) (frame_payloads r)) (fst (receive_all c (frames_from src k m es)))"
  by (induction src k m es arbitrary: c rule: frames_from.induct)
    (auto simp: use_decoder_def frame_payloads_def frame_key_def case_prod_unfold Let_def split: sum.split)

text \<open>
  C8.  Peers do not disturb each other.  A transport that has just been made sends packets to and gets datagrams from any peers, in
  any order, mixed in any way.  With FEC on, the datagrams sent for one destination (address and port) are the
  frames of a single codec, of the configured parameters, that is fed exactly the packets for this destination; and the payloads handed up for the
  frames of one source and one valid configuration are those of a single codec that sees exactly these frames.
\<close>

theorem udp_streams_refine_codecs:
  assumes "UdpTransport binds port opts = Inr a" "outs = fst (run_reqs (traffic_step L) evs (set_on_receive a))"
  shows "(enabled (fec_options a) \<longrightarrow> (\<exists>c. FecCodec (data_shards (fec_options a)) (roots (fec_options a)) = Inr c \<and>
      (\<forall>dest. outputs_of (\<lambda>e. traffic_key e = Inl dest) evs outs =
         map (\<lambda>r. map (Pair dest) (frames_of r)) (fst (send_all c (map (packet_bytes L) (packets_to dest evs))))))) \<and>
    (\<forall>src k m c. FecCodec k m = Inr c \<longrightarrow> outputs_of (\<lambda>e. traffic_key e = Inr (src, Some (k, m))) evs outs =
       map (\<lambda>r. map (Pair src) (frame_payloads r)) (fst (receive_all c (frames_from src k m evs))))"
proof -
  note u = UdpTransport_Inr [OF assms(1)]
  let ?t = "set_on_receive a"
  have t: "listening ?t" "encoder_at ?t ep = None" "decoder_at ?t key = None" "fec_options ?t = fec_options a" "coding ?t = enabled (fec_options a)" for ep key
    using u(1,6,7) by (simp_all add: listening_def set_on_receive_def encoder_at_def decoder_at_def codec_at_def coding_def split: prod.split option.split)
  have run: "outputs_of (\<lambda>e. traffic_key e = k) evs outs = fst (run_reqs (use_codec L) (filter (\<lambda>e. traffic_key e = k) evs) c)"
    if "codec_of ?t k = None" "new_codec ?t k = Some c" for k c
    using traffic.stream_step [OF t(1), of k c evs L] that assms(2) by simp
  have "\<exists>c. FecCodec (data_shards (fec_options a)) (roots (fec_options a)) = Inr c" if "enabled (fec_options a)"
    using FecCodec_ok [of "data_shards (fec_options a)" "roots (fec_options a)"] u(8) [OF that] by auto
  then show ?thesis
    using run [of "Inl _"] run [of "Inr _"] t by (fastforce simp: new_encoder_def new_decoder_def run_encoder_events run_decoder_events)
qed

definition ex_bytes :: mesh_lib where
  "ex_bytes = \<lparr>packet_bytes = (\<lambda>p. map of_char (subtype p)), parse_packet = (\<lambda>b. None), envelope_bytes = (\<lambda>e. []),
     parse_envelope = (\<lambda>b. None), handshake_bytes = (\<lambda>h. []), parse_handshake = (\<lambda>b. None), uuid = (\<lambda>n. [])\<rparr>"

theorem udp_streams_refine_codecs_witness:
  "\<exists>a c. UdpTransport (\<lambda>p. None) 9000 \<lparr>enabled = True, data_shards = 1, roots = 1\<rparr> = Inr a \<and> FecCodec 1 1 = Inr c \<and>
     (let evs = [Outgoing ((''h'', 9), default_packet), Incoming ((''g'', 9), [5]), Outgoing ((''h'', 8), default_packet),
            Incoming ((''h'', 9), make_header 0 0 1 1 1 @ [7])];
          outs = fst (run_reqs (traffic_step ex_bytes) evs (set_on_receive a)) in
      outputs_of (\<lambda>e. traffic_key e = Inl (''h'', 8)) evs outs =
        map (\<lambda>r. map (Pair (''h'', 8)) (frames_of r)) (fst (send_all c [packet_bytes ex_bytes default_packet])) \<and>
      outputs_of (\<lambda>e. traffic_key e = Inr ((''h'', 9), Some (1, 1))) evs outs =
        map (\<lambda>r. map (Pair (''h'', 9)) (frame_payloads r)) (fst (receive_all c [make_header 0 0 1 1 1 @ [7]])))"
proof -
  obtain a where a: "UdpTransport (\<lambda>p. None) 9000 \<lparr>enabled = True, data_shards = 1, roots = 1\<rparr> = Inr a"
      "fec_options a = \<lparr>enabled = True, data_shards = 1, roots = 1\<rparr>"
    by (simp add: UdpTransport_def Let_def start_receive_def)
  obtain c where c: "FecCodec 1 1 = Inr c" using FecCodec_ok [of 1 1] by auto
  have "frame_config (make_header 0 0 1 1 1 @ [7]) = Some (1, 1)" "frame_config [5] \<noteq> Some (1, 1)"
    using parse_make_header [of 0 0 1 1 1 "[7]"] by (auto simp: frame_config_def parse_header_def is_fec_frame_def kHeaderSize_def split: if_splits)
  then show ?thesis
    using udp_streams_refine_codecs [OF a(1) refl, of "[Outgoing ((''h'', 9), default_packet), Incoming ((''g'', 9), [5]),
        Outgoing ((''h'', 8), default_packet), Incoming ((''h'', 9), make_header 0 0 1 1 1 @ [7])]" ex_bytes] a c
    by (intro exI [of _ a] exI [of _ c]) (simp add: Let_def)
qed

text \<open>The datagrams for a destination are the frames of its encoder.\<close>

lemma wire_of_codec:
  assumes a: "UdpTransport binds port opts = Inr a" and en: "enabled (fec_options a)"
    and c: "FecCodec (data_shards (fec_options a)) (roots (fec_options a)) = Inr c" and pkts: "map snd (filter (\<lambda>q. fst q = dest) sends) = pkts"
  shows "map snd (filter (\<lambda>d. fst d = dest) (datagrams (udp_send_all L sends a))) = on_wire (fst (send_all c (map (packet_bytes L) pkts)))"
proof -
  note u = UdpTransport_Inr [OF a]
  have co: "coding a" using u(1) en by (simp add: coding_def)
  let ?f = "filter (\<lambda>q. fst q = dest) sends" and ?ps = "map (packet_bytes L) pkts"
  have "?f = map (Pair dest) (map snd ?f)" by (rule filter_source) simp
  then have "outputs_of (\<lambda>q. fst q = dest) sends (fst (run_reqs (send_out L) sends a)) =
      map (\<lambda>r. map (Pair dest) (frames_of r)) (fst (send_all c ?ps))"
    using encoders.stream_step [OF co, of dest c sends L] u(3) c run_use_encoder [of L dest pkts c] pkts
    by (simp add: new_encoder_def)
  then show ?thesis
    using udp_send_all_run [OF co, of L sends] datagrams_of_run [OF co, of dest L sends] u(2)
    by (simp add: on_wire_def map_concat o_def)
qed

lemma frame_config_header [simp]: "frame_config (make_header g seq k m len @ payload) = Some (k, m)"
  using parse_make_header [of g seq k m len payload] by (auto simp: frame_config_def parse_header_def split: if_splits)

lemma emit_parity_config:
  "emit_parity c j vecs fs = Inr out \<Longrightarrow> \<forall>f\<in>set fs. frame_config f = Some (codec_k c, codec_m c) \<Longrightarrow>
   \<forall>f\<in>set out. frame_config f = Some (codec_k c, codec_m c)"
  by (induction c j vecs fs rule: emit_parity.induct) (auto simp: Let_def split: if_splits)

lemma encode_config: "f \<in> set (frames_of (fst (encode c p))) \<Longrightarrow> frame_config f = Some (codec_k c, codec_m c)"
  by (auto simp: encode_def Let_def dest: emit_parity_config split: if_splits sum.splits)

text \<open>
  C36.  Packets survive the loss of datagrams.  A node with FEC sends any packets to any
  destinations, among them the first \<open>k\<close> packets for \<open>dest\<close>; it puts exactly \<open>k + m\<close> datagrams for
  \<open>dest\<close> on the wire.  If the receiver gets any \<open>k\<close> of them, in any order, among any other
  traffic, it hands up exactly the \<open>k\<close> packets, in order.
\<close>

theorem udp_group_survives_loss:
  assumes a: "UdpTransport binds port opts = Inr a" and en: "enabled (fec_options a)"
    and k: "k = data_shards (fec_options a)" and m: "m = roots (fec_options a)"
    and pkts: "map snd (filter (\<lambda>q. fst q = dest) sends) = pkts" "length pkts = unat k"
      "\<forall>p\<in>set pkts. length (packet_bytes L p) \<le> 65535 - 2 * unat k"
    and wire: "wire = map snd (filter (\<lambda>d. fst d = dest) (datagrams (udp_send_all L sends a)))"
    and b: "listening b" "decoder_at b (src, Some (k, m)) = None"
    and idx: "distinct idx" "set idx \<subseteq> {..<unat k + unat m}" "length idx = unat k"
    and arr: "map snd (filter (\<lambda>q. frame_key q = (src, Some (k, m))) arrivals) = map ((!) wire) idx"
  shows "length wire = unat k + unat m \<and>
    concat (outputs_of (\<lambda>q. frame_key q = (src, Some (k, m))) arrivals (fst (run_reqs receive_datagram arrivals b))) =
    map (\<lambda>p. (src, packet_bytes L p)) pkts"
proof -
  note u = UdpTransport_Inr [OF a]
  obtain c where c: "FecCodec k m = Inr c" using FecCodec_ok [of k m] u(8) [OF en] k m by auto
  let ?ps = "map (packet_bytes L) pkts"
  have "wire = on_wire (fst (send_all c ?ps))" using wire_of_codec [OF a en _ pkts(1)] c k m wire by simp
  then have del: "length wire = unat k + unat m" "fst (receive_all c (map ((!) wire) idx)) = replicate (unat k - 1) (Inr []) @ [Inr ?ps]"
    using any_k_frames_deliver [OF c, of ?ps "[]" "[]" idx] FecCodec_Inr(5,7) [OF c] pkts(2,3) idx by (auto simp: Let_def)
  have "outputs_of (\<lambda>q. frame_key q = (src, Some (k, m))) arrivals (fst (run_reqs receive_datagram arrivals b)) =
      map (\<lambda>r. map (Pair src) (frame_payloads r)) (fst (receive_all c (map ((!) wire) idx)))"
    using stream_refines_codec [OF b c, of arrivals] arr by simp
  then show ?thesis using del by (simp add: frame_payloads_def map_replicate_const o_def)
qed

theorem udp_group_survives_loss_witness:
  "\<exists>a b. UdpTransport (\<lambda>p. None) 9000 \<lparr>enabled = True, data_shards = 1, roots = 1\<rparr> = Inr a \<and> listening b \<and>
     (let wire = map snd (filter (\<lambda>d. fst d = (''b'', 9)) (datagrams (udp_send_all ex_bytes [((''b'', 9), default_packet)] a)));
          arrivals = [((''c'', 7), [1]), ((''a'', 8), wire ! 1)]
      in length wire = 2 \<and> concat (outputs_of (\<lambda>q. frame_key q = ((''a'', 8), Some (1, 1))) arrivals
           (fst (run_reqs receive_datagram arrivals b))) = [((''a'', 8), [])])"
proof -
  obtain a where a: "UdpTransport (\<lambda>p. None) 9000 \<lparr>enabled = True, data_shards = 1, roots = 1\<rparr> = Inr a"
      "fec_options a = \<lparr>enabled = True, data_shards = 1, roots = 1\<rparr>"
    by (simp add: UdpTransport_def Let_def start_receive_def)
  let ?b = "set_on_receive a"
  have b: "listening ?b" "decoder_at ?b ((''a'', 8), Some (1, 1)) = None"
    using UdpTransport_Inr [OF a(1)] by (simp_all add: listening_def set_on_receive_def decoder_at_def codec_at_def)
  define wire where "wire = map snd (filter (\<lambda>d. fst d = (''b'', 9)) (datagrams (udp_send_all ex_bytes [((''b'', 9), default_packet)] a)))"
  obtain c where c: "FecCodec 1 1 = Inr c" using FecCodec_ok [of 1 1] by auto
  have w: "wire = frames_of (fst (encode c []))"
    using wire_of_codec [OF a(1), of c "(''b'', 9)" "[((''b'', 9), default_packet)]" "[default_packet]" ex_bytes] a(2) c
    by (simp add: wire_def ex_bytes_def default_packet_def case_prod_unfold Let_def)
  have l: "length wire = 2" using any_k_frames_deliver [OF c, of "[[]]" "[]" "[]" "[0]"] FecCodec_Inr(5,7) [OF c]
    by (simp add: w case_prod_unfold Let_def)
  have "frame_config (wire ! 1) = Some (1, 1)" using encode_config [of "wire ! 1" c "[]"] FecCodec_Inr(2,3) [OF c] w l by simp
  then have arr: "map snd (filter (\<lambda>q. frame_key q = ((''a'', 8), Some (1, 1))) [((''c'', 7), [1]), ((''a'', 8), wire ! 1)]) = map ((!) wire) [1]"
    by (simp add: frame_key_def)
  have en: "enabled (fec_options a)" "1 = data_shards (fec_options a)" "1 = roots (fec_options a)" by (simp_all add: a(2))
  have ps: "map snd (filter (\<lambda>q. fst q = (''b'', 9)) [((''b'', 9 :: u16), default_packet)]) = [default_packet]"
      "length [default_packet] = unat (1 :: u8)" "\<forall>p\<in>set [default_packet]. length (packet_bytes ex_bytes p) \<le> 65535 - 2 * unat (1 :: u8)"
    by (simp_all add: ex_bytes_def default_packet_def)
  have "distinct [1 :: nat]" "set [1] \<subseteq> {..<unat (1 :: u8) + unat (1 :: u8)}" "length [1 :: nat] = unat (1 :: u8)" by simp_all
  note r = udp_group_survives_loss [OF a(1) en ps wire_def b this arr]
  have pb: "packet_bytes ex_bytes default_packet = []" by (simp add: ex_bytes_def default_packet_def)
  show ?thesis unfolding Let_def
    by (rule exI [where x = a], rule exI [where x = ?b]) (use r pb a(1) b(1) in \<open>simp add: wire_def [symmetric]\<close>)
qed

section \<open>Assertions\<close>

text \<open>Every encoder of the table is ready to encode, every decoder to decode.\<close>

definition udp_ok :: "udp_transport \<Rightarrow> bool" where
  "udp_ok t \<longleftrightarrow> \<not> crashed t \<and> (\<forall>key c. codec_at (encoders_by_endpoint t) key = Some c \<longrightarrow> codec_ok c \<and> send_ok c)
     \<and> (\<forall>key c. codec_at (decoders_by_endpoint t) key = Some c \<longrightarrow> recv_ok c)"

lemma udp_okI:
  assumes "\<not> crashed t" "\<And>key c. codec_at (encoders_by_endpoint t) key = Some c \<Longrightarrow> codec_ok c \<and> send_ok c"
    "\<And>key c. codec_at (decoders_by_endpoint t) key = Some c \<Longrightarrow> recv_ok c"
  shows "udp_ok t"
  using assms unfolding udp_ok_def by blast

lemma udp_okD:
  assumes "udp_ok t"
  shows "\<not> crashed t" "codec_at (encoders_by_endpoint t) key = Some c \<Longrightarrow> codec_ok c \<and> send_ok c"
    "codec_at (decoders_by_endpoint t) key = Some c \<Longrightarrow> recv_ok c"
  using assms unfolding udp_ok_def by blast+

lemma FecCodec_no_assert: "FecCodec k m \<noteq> Inl AssertionFailed"
proof (cases "unat k < 1 \<or> unat m < 1 \<or> 254 < unat k + unat m")
  case True
  then show ?thesis using FecCodec_rejects [of k m] by auto
next
  case False
  then show ?thesis using FecCodec_ok [of k m] by auto
qed

lemma encoder_for_ok:
  assumes "udp_ok t" "encoder_for ep t = (r, t')"
  shows "udp_ok t' \<and> r \<noteq> Inl AssertionFailed \<and> (\<forall>c. r = Inr c \<longrightarrow> codec_ok c \<and> send_ok c)"
proof (cases "codec_at (encoders_by_endpoint t) (endpoint_key ep)")
  case (Some c)
  then show ?thesis using assms udp_okD(2) [OF assms(1) Some] by (auto simp: encoder_for_def)
next
  case None
  then show ?thesis
  proof (cases "FecCodec (data_shards (fec_options t)) (roots (fec_options t))")
    case (Inl e)
    then show ?thesis using None assms(2) FecCodec_no_assert [of "data_shards (fec_options t)" "roots (fec_options t)"] udp_okD [OF assms(1)]
      by (auto simp: encoder_for_def codec_at_update intro!: udp_okI split: if_splits)
  next
    case (Inr c)
    then show ?thesis using None assms(2) FecCodec_Inr(1,4) [OF Inr] udp_okD [OF assms(1)]
      by (auto simp: encoder_for_def codec_at_update intro!: udp_okI split: if_splits)
  qed
qed

lemma decoder_for_ok:
  assumes "udp_ok t" "decoder_for ep k m t = (r, t')"
  shows "udp_ok t' \<and> r \<noteq> Inl AssertionFailed \<and> (\<forall>c. r = Inr c \<longrightarrow> recv_ok c)"
proof (cases "codec_at (decoders_by_endpoint t) (decoder_key ep k m)")
  case (Some c)
  then show ?thesis using assms udp_okD(3) [OF assms(1) Some] by (auto simp: decoder_for_def)
next
  case None
  then show ?thesis
  proof (cases "FecCodec k m")
    case (Inl e)
    then show ?thesis using None assms(2) FecCodec_no_assert [of k m] udp_okD [OF assms(1)]
      by (auto simp: decoder_for_def codec_at_update intro!: udp_okI split: if_splits)
  next
    case (Inr c)
    then show ?thesis using None assms(2) FecCodec_Inr(6) [OF Inr] udp_okD [OF assms(1)]
      by (auto simp: decoder_for_def codec_at_update intro!: udp_okI split: if_splits)
  qed
qed

lemma udp_ok_simps [simp]:
  "udp_ok (start_receive t) = udp_ok t" "udp_ok (t\<lparr>receiving := r\<rparr>) = udp_ok t" "udp_ok (t\<lparr>socket_open := r\<rparr>) = udp_ok t"
  "udp_ok (t\<lparr>on_receive_set := r\<rparr>) = udp_ok t" "udp_ok (send_datagram ep f t) = udp_ok t"
  "e \<noteq> AssertionFailed \<Longrightarrow> udp_ok (caught e t) = udp_ok t"
  by (simp_all add: udp_ok_def start_receive_def send_datagram_def caught_def)

lemma udp_ok_sends [simp]: "udp_ok (foldl (\<lambda>t f. send_datagram ep f t) t fs) = udp_ok t"
  by (induction fs arbitrary: t) simp_all

lemma udp_ok_put_encoder:
  "udp_ok t \<Longrightarrow> codec_ok c \<Longrightarrow> send_ok c \<Longrightarrow> udp_ok (t\<lparr>encoders_by_endpoint := AList.update key (Some c) (encoders_by_endpoint t)\<rparr>)"
  by (rule udp_okI) (auto simp: codec_at_update split: if_splits dest: udp_okD)

lemma udp_ok_put_decoder:
  "udp_ok t \<Longrightarrow> recv_ok c \<Longrightarrow> udp_ok (t\<lparr>decoders_by_endpoint := AList.update key (Some c) (decoders_by_endpoint t)\<rparr>)"
  by (rule udp_okI) (auto simp: codec_at_update split: if_splits dest: udp_okD)

lemma encode_ok:
  assumes "codec_ok c" "send_ok c" "encode c p = (res, c')"
  shows "codec_ok c' \<and> send_ok c' \<and> res \<noteq> Inl AssertionFailed"
proof (cases "fits c p")
  case True
  then show ?thesis using encode_fits [OF assms(1,2) True] assms same_code_ok [of c' c] by auto
next
  case False
  then show ?thesis using encode_reject [OF False] assms by auto
qed

lemma udp_send_packet_ok: "udp_ok t \<Longrightarrow> udp_ok (udp_send_packet L ep pkt t)"
proof (cases "socket_open t \<and> enabled (fec_options t)")
  case True
  assume t: "udp_ok t"
  obtain r t1 where e: "encoder_for ep t = (r, t1)" by force
  note ok = encoder_for_ok [OF t e]
  show ?thesis
  proof (cases r)
    case (Inl err)
    then show ?thesis using True e ok by (simp add: udp_send_packet_def)
  next
    case (Inr c)
    obtain res c' where enc: "encode c (packet_bytes L pkt) = (res, c')" by force
    then have c': "codec_ok c'" "send_ok c'" "res \<noteq> Inl AssertionFailed" using encode_ok ok Inr by auto
    show ?thesis using True e Inr enc udp_ok_put_encoder [OF _ c'(1,2)] ok c'(3)
      by (cases res) (simp_all add: udp_send_packet_def Let_def)
  qed
qed (auto simp: udp_send_packet_def)

lemma receive_fec_ok: "udp_ok t \<Longrightarrow> udp_ok (snd (receive_fec ep raw k m t))"
proof -
  assume t: "udp_ok t"
  obtain r t1 where e: "decoder_for ep k m t = (r, t1)" by force
  note ok = decoder_for_ok [OF t e]
  show ?thesis
  proof (cases r)
    case (Inl err)
    then show ?thesis using e ok by (simp add: receive_fec_def)
  next
    case (Inr c)
    then obtain out c' where "decode c raw = (Inr out, c')" "recv_ok c'" using decode_total [of c raw] ok by blast
    then show ?thesis using e Inr udp_ok_put_decoder ok by (simp add: receive_fec_def Let_def)
  qed
qed

lemma on_receive_from_ok: "udp_ok t \<Longrightarrow> udp_ok (snd (on_receive_from ep r t))"
  by (auto simp: on_receive_from_def Let_def case_prod_unfold receive_fec_ok split: receive_result.split option.split)

text \<open>The operations a node performs on its transport, in any order.\<close>

datatype udp_op = OpSend endpoint routed_packet | OpReceive endpoint receive_result | OpSetCallback | OpShutdown

definition udp_do :: "mesh_lib \<Rightarrow> udp_transport \<Rightarrow> udp_op \<Rightarrow> udp_transport" where
  "udp_do L t op = (case op of
     OpSend ep pkt \<Rightarrow> udp_send_packet L ep pkt t
   | OpReceive ep r \<Rightarrow> snd (on_receive_from ep r t)
   | OpSetCallback \<Rightarrow> set_on_receive t
   | OpShutdown \<Rightarrow> udp_shutdown t)"

lemma udp_do_ok: "udp_ok t \<Longrightarrow> udp_ok (foldl (udp_do L) t ops)"
proof (induction ops arbitrary: t)
  case (Cons op ops)
  then have "udp_ok (udp_do L t op)"
    by (cases op) (simp_all add: udp_do_def udp_send_packet_ok on_receive_from_ok set_on_receive_def udp_shutdown_def)
  then show ?case using Cons.IH by simp
qed simp

text \<open>
  C37.  No traffic brings the transport down.  After any operations of the node and any
  datagrams and socket errors from the network no assertion of a codec has failed, and every decoder
  holds at most 256 unfinished groups.
\<close>

theorem udp_never_asserts:
  assumes "UdpTransport binds port opts = Inr t" "t' = foldl (udp_do L) t ops"
  shows "\<not> crashed t' \<and> (\<forall>key c. codec_at (decoders_by_endpoint t') key = Some c \<longrightarrow> length (recv_groups c) \<le> 256)"
proof -
  have "udp_ok t" using UdpTransport_Inr [OF assms(1)] by (simp add: udp_ok_def codec_at_def)
  then have "udp_ok t'" using udp_do_ok assms(2) by simp
  then show ?thesis using udp_okD recv_ok_bounded by blast
qed

theorem udp_never_asserts_witness:
  "\<exists>t. UdpTransport (\<lambda>p. None) 9000 default_fec_options = Inr t \<and>
     \<not> crashed (foldl (udp_do ex_bytes) t [OpSetCallback, OpReceive (''h'', 9) (Received (make_header 0 0 1 1 1 @ [7])), OpReceive (''h'', 9) ReceiveError])"
proof -
  obtain t where t: "UdpTransport (\<lambda>p. None) 9000 default_fec_options = Inr t" by (simp add: UdpTransport_def default_fec_options_def Let_def)
  show ?thesis using udp_never_asserts [OF t refl] t by blast
qed

end
