(* ===== verification/Stream_Session.thy ===== *)
theory Stream_Session
  imports Session
begin

text \<open>
  The life of a session around its framing: \<^verbatim>\<open>net/Stream.cpp\<close>, the two streams a session can own, and the
  construction, \<^verbatim>\<open>start\<close>, \<^verbatim>\<open>stop\<close> and destruction of \<^verbatim>\<open>GenericSession\<close> in \<^verbatim>\<open>net/Session.cpp\<close>.  The sockets and the TLS
  engine are Boost.Asio; their completions are steps with their outcome as argument.
\<close>

section \<open>Streams\<close>

text \<open>\<open>sock_remote\<close> is \<open>None\<close> where \<^verbatim>\<open>remote_endpoint\<close> throws; \<open>sock_cancelled\<close>: the operations that were outstanding are aborted.\<close>

record socket =
  sock_open :: bool
  sock_remote :: "string option"
  sock_cancelled :: bool

datatype stream = TcpStream socket | SslStream socket bool

datatype handshake_op = PostedSuccess | HandshakeAsServer | HandshakeAsClient

fun async_handshake :: "stream \<Rightarrow> handshake_op" where
  "async_handshake (TcpStream _) = PostedSuccess"
| "async_handshake (SslStream _ is_server) = (if is_server then HandshakeAsServer else HandshakeAsClient)"

fun stream_cancel :: "stream \<Rightarrow> stream" where
  "stream_cancel (TcpStream s) = TcpStream (s\<lparr>sock_cancelled := True\<rparr>)"
| "stream_cancel (SslStream s b) = SslStream (s\<lparr>sock_cancelled := True\<rparr>) b"

fun stream_close :: "stream \<Rightarrow> stream" where
  "stream_close (TcpStream s) = TcpStream (s\<lparr>sock_open := False\<rparr>)"
| "stream_close (SslStream s b) = SslStream (s\<lparr>sock_open := False\<rparr>) b"

fun stream_is_open :: "stream \<Rightarrow> bool" where
  "stream_is_open (TcpStream s) = sock_open s"
| "stream_is_open (SslStream s b) = sock_open s"

fun remote_address :: "stream \<Rightarrow> string" where
  "remote_address (TcpStream s) = (case sock_remote s of None \<Rightarrow> [] | Some a \<Rightarrow> a)"
| "remote_address (SslStream s b) = (case sock_remote s of None \<Rightarrow> [] | Some a \<Rightarrow> a)"

text \<open>What a session relies on of \<^verbatim>\<open>StreamLayer\<close>, and the way it stops.\<close>

locale stream_layer =
  fixes cancel close :: "'s \<Rightarrow> 's" and opened :: "'s \<Rightarrow> bool"
  assumes close_closes: "\<not> opened (close s)" and cancel_keeps: "opened (cancel s) = opened s"
begin

definition shut :: "'s \<Rightarrow> 's" where
  "shut s = (if opened s then close (cancel s) else s)"

lemma shut_closed: "\<not> opened (shut s)"
  by (simp add: shut_def close_closes)

lemma shut_twice: "shut (shut s) = shut s"
  by (simp add: shut_def close_closes)

end

interpretation layer: stream_layer stream_cancel stream_close stream_is_open
proof
  show "\<not> stream_is_open (stream_close s)" for s by (cases s) simp_all
  show "stream_is_open (stream_cancel s) = stream_is_open s" for s by (cases s) simp_all
qed

section \<open>Sessions\<close>

datatype handshake_state = NotStarted | Handshaking | Ready | HandshakeFailed

text \<open>\<open>sess_reader\<close> is \<open>None\<close> until the first read is issued.\<close>

record generic_session =
  sess_stream :: stream
  sess_handshake :: handshake_state
  sess_reader :: "reader option"
  sess_writer :: writer

definition GenericSession :: "stream \<Rightarrow> generic_session" where
  "GenericSession st = \<lparr>sess_stream = st, sess_handshake = NotStarted, sess_reader = None, sess_writer = new_writer\<rparr>"

definition make_tcp_session :: "socket \<Rightarrow> generic_session" where
  "make_tcp_session sock = GenericSession (TcpStream sock)"

definition make_ssl_session :: "socket \<Rightarrow> bool \<Rightarrow> generic_session" where
  "make_ssl_session sock is_server = GenericSession (SslStream sock is_server)"

definition remote_addr :: "generic_session \<Rightarrow> string" where
  "remote_addr s = remote_address (sess_stream s)"

text \<open>The posted handler of \<^verbatim>\<open>stop\<close>.\<close>

definition generic_stop :: "generic_session \<Rightarrow> generic_session" where
  "generic_stop s =
     (if \<not> stream_is_open (sess_stream s) then s
      else s\<lparr>sess_stream := stream_close (stream_cancel (sess_stream s)), sess_writer := session_stop (sess_writer s)\<rparr>)"

definition generic_start :: "generic_session \<Rightarrow> generic_session" where
  "generic_start s = s\<lparr>sess_handshake := Handshaking\<rparr>"

definition on_handshake :: "bool \<Rightarrow> generic_session \<Rightarrow> generic_session" where
  "on_handshake ec s =
     (if ec then generic_stop (s\<lparr>sess_handshake := HandshakeFailed\<rparr>)
      else s\<lparr>sess_handshake := Ready, sess_reader := Some new_reader\<rparr>)"

text \<open>Bytes arrive, or a read fails; the session stops itself after an oversized header.\<close>

definition on_bytes :: "bytes \<Rightarrow> generic_session \<Rightarrow> generic_session" where
  "on_bytes chunk s =
     (case sess_reader s of
        None \<Rightarrow> s
      | Some r \<Rightarrow> let r = receive chunk r; s = s\<lparr>sess_reader := Some r\<rparr> in if read_state r = Stopped then generic_stop s else s)"

definition on_read_error :: "generic_session \<Rightarrow> generic_session" where
  "on_read_error s =
     (case sess_reader s of None \<Rightarrow> s | Some r \<Rightarrow> generic_stop (s\<lparr>sess_reader := Some (r\<lparr>read_state := Stopped\<rparr>)\<rparr>))"

definition destroy_session :: "generic_session \<Rightarrow> generic_session" where
  "destroy_session s = s\<lparr>sess_stream := stream_close (sess_stream s)\<rparr>"

inductive session_step :: "generic_session \<Rightarrow> generic_session \<Rightarrow> bool" where
  s_start: "sess_handshake s = NotStarted \<Longrightarrow> session_step s (generic_start s)"
| s_handshake: "sess_handshake s = Handshaking \<Longrightarrow> session_step s (on_handshake ec s)"
| s_bytes: "stream_is_open (sess_stream s) \<Longrightarrow> session_step s (on_bytes chunk s)"
| s_read_error: "session_step s (on_read_error s)"
| s_send: "session_step s (s\<lparr>sess_writer := enqueue data (sess_writer s)\<rparr>)"
| s_written: "in_flight (sess_writer s) \<noteq> None \<Longrightarrow> on_written ec (sess_writer s) = Inr w \<Longrightarrow>
    session_step s (if ec then generic_stop (s\<lparr>sess_writer := (sess_writer s)\<lparr>in_flight := None\<rparr>\<rparr>) else s\<lparr>sess_writer := w\<rparr>)"
| s_stop: "session_step s (generic_stop s)"

section \<open>Reading waits for the handshake, writing does not\<close>

text \<open>A session reads only after its handshake, and the outbox is empty once its stream is closed by the session.\<close>

definition session_inv :: "generic_session \<Rightarrow> bool" where
  "session_inv s \<longleftrightarrow> (sess_reader s \<noteq> None \<longrightarrow> sess_handshake s = Ready) \<and> (stream_open (sess_writer s) \<longleftrightarrow> stream_is_open (sess_stream s))"

lemma writer_stream [simp]: "stream_open (enqueue d w) = stream_open w" "\<not> stream_open (session_stop w)" "on_written False w = Inr w' \<Longrightarrow> stream_open w' = stream_open w"
  by (auto simp: enqueue_def do_write_def session_stop_def on_written_def Let_def split: if_splits)

lemma generic_stop_stream: "sess_stream (generic_stop s) = layer.shut (sess_stream s)"
  by (simp add: generic_stop_def layer.shut_def)

lemma generic_stop_inv:
  assumes "sess_reader s \<noteq> None \<longrightarrow> sess_handshake s = Ready" "stream_open (sess_writer s) \<longleftrightarrow> stream_is_open (sess_stream s)"
  shows "session_inv (generic_stop s)" "\<not> stream_is_open (sess_stream (generic_stop s))"
  using assms layer.shut_closed [of "sess_stream s"] unfolding generic_stop_stream [symmetric] by (auto simp: session_inv_def generic_stop_def)

lemma session_step_inv: "session_step s s' \<Longrightarrow> session_inv s \<Longrightarrow> session_inv s'"
proof (induction rule: session_step.induct)
  case (s_start s)
  then show ?case by (simp add: session_inv_def generic_start_def)
next
  case (s_handshake s ec)
  then show ?case by (auto simp: on_handshake_def intro!: generic_stop_inv) (auto simp: session_inv_def)
next
  case (s_bytes s chunk)
  then show ?case by (auto simp: on_bytes_def Let_def session_inv_def [of s] intro!: generic_stop_inv split: option.split) (auto simp: session_inv_def)
next
  case (s_read_error s)
  then show ?case by (auto simp: on_read_error_def session_inv_def [of s] intro!: generic_stop_inv split: option.split)
next
  case (s_send s data)
  then show ?case by (simp add: session_inv_def)
next
  case (s_written s ec w)
  then show ?case by (cases ec) (auto simp: session_inv_def [of s] intro!: generic_stop_inv, auto simp: session_inv_def)
next
  case (s_stop s)
  then show ?case by (simp add: session_inv_def [of s] generic_stop_inv)
qed

lemma reads_only_after_handshake:
  assumes "session_step\<^sup>*\<^sup>* (GenericSession st) s" "stream_is_open st" "sess_reader s = Some r"
  shows "sess_handshake s = Ready"
proof -
  have "session_inv (GenericSession st)" using assms(2) by (simp add: session_inv_def GenericSession_def new_writer_def)
  with assms(1) have "session_inv s" by (induction rule: rtranclp_induct) (auto intro: session_step_inv)
  then show ?thesis using assms(3) by (simp add: session_inv_def)
qed

text \<open>
  \<^verbatim>\<open>RpcConnection::start\<close> sends its request right after \<^verbatim>\<open>start\<close>: the write is issued on the stream while the TLS handshake is
  still going on.
\<close>

lemma writes_during_handshake:
  "\<exists>s. session_step\<^sup>*\<^sup>* (make_ssl_session sock is_server) s \<and> sess_handshake s = Handshaking \<and> in_flight (sess_writer s) = Some data"
proof -
  let ?s0 = "make_ssl_session sock is_server"
  let ?s1 = "generic_start ?s0" let ?s2 = "?s1\<lparr>sess_writer := enqueue data (sess_writer ?s1)\<rparr>"
  have "session_step ?s0 ?s1" by (rule s_start) (simp add: make_ssl_session_def GenericSession_def)
  moreover have "session_step ?s1 ?s2" by (rule s_send)
  ultimately have "session_step\<^sup>*\<^sup>* ?s0 ?s2" by (meson converse_rtranclp_into_rtranclp r_into_rtranclp)
  then show ?thesis
    by (intro exI [of _ ?s2]) (simp add: generic_start_def make_ssl_session_def GenericSession_def enqueue_def new_writer_def do_write_def)
qed

text \<open>\<^verbatim>\<open>RpcConnection::start\<close> passes \<^verbatim>\<open>initiator\<close> as \<^verbatim>\<open>is_server\<close>: the side that connected acts as the TLS server, the other as its client.\<close>

lemma tls_roles:
  "async_handshake (sess_stream (make_ssl_session a True)) = HandshakeAsServer" "async_handshake (sess_stream (make_ssl_session b False)) = HandshakeAsClient"
  "async_handshake (sess_stream (make_tcp_session c)) = PostedSuccess"
  by (simp_all add: make_ssl_session_def make_tcp_session_def GenericSession_def)

end
