(* ===== verification/Rpc_Connection.thy ===== *)
theory Rpc_Connection
  imports Stream_Session Async_Timers Example_Lib
begin

text \<open>
  \<^verbatim>\<open>RpcConnection\<close> of \<^verbatim>\<open>rpc/RpcConnection.cpp\<close> and the two handlers of \<^verbatim>\<open>rpc/handlers\<close>.  A future is a
  number; an operation returns the results it gives to futures.  The blocking \<^verbatim>\<open>start\<close> is cut at
  its wait: \<open>start_send\<close> runs up to it, \<open>handshake_reply\<close> and \<open>accept_result\<close> from there on.
  The fields of the two endpoints are what \<^verbatim>\<open>local_endpoint\<close> and \<^verbatim>\<open>remote_endpoint\<close> of the socket
  returned; the session is part of the connection.
\<close>

section \<open>State\<close>

datatype future_result = Value bytes | Failed string

datatype conn_error = NullSession | SessionError session_error

record rpc_connection =
  conn_peer_id :: peer_id
  my_udp_port :: int
  use_ssl :: bool
  local_endpoint :: endpoint
  remote_endpoint :: endpoint
  remote_udp_endpoint :: endpoint
  authenticated_remote_id :: peer_id
  handshake_promise :: "peer_record option option"
  pending_rpcs :: "(bytes \<times> nat \<times> nat) list"
  rpc_timers :: "bytes timer_table"
  next_future :: nat
  session :: "generic_session option"
  handler_set :: bool

definition RpcConnection :: "endpoint \<Rightarrow> endpoint \<Rightarrow> peer_id \<Rightarrow> int \<Rightarrow> bool \<Rightarrow> rpc_connection" where
  "RpcConnection local remote peer udp ssl = \<lparr>conn_peer_id = peer, my_udp_port = udp, use_ssl = ssl, local_endpoint = local,
     remote_endpoint = remote, remote_udp_endpoint = (''0.0.0.0'', 0), authenticated_remote_id = [],
     handshake_promise = None, pending_rpcs = [], rpc_timers = no_timers, next_future = 0, session = None, handler_set = False\<rparr>"

section \<open>Operations\<close>

definition conn_shutdown :: "rpc_connection \<Rightarrow> (nat \<times> future_result) list \<times> rpc_connection" where
  "conn_shutdown c =
     (map (\<lambda>(req_id, f, n). (f, Failed ''RpcLayer destroyed'')) (pending_rpcs c),
      c\<lparr>session := map_option generic_stop (session c), pending_rpcs := [],
        rpc_timers := foldl (\<lambda>tt (req_id, f, n). cancel_wait n tt) (rpc_timers c) (pending_rpcs c)\<rparr>)"

definition set_on_dispatch :: "rpc_connection \<Rightarrow> rpc_connection" where
  "set_on_dispatch c = c\<lparr>handler_set := True\<rparr>"

definition get_local_peer_ip :: "rpc_connection \<Rightarrow> peer_ip" where
  "get_local_peer_ip c = \<lparr>ip = fst (local_endpoint c), tcp_port = uint (snd (local_endpoint c)), udp_port = my_udp_port c\<rparr>"

definition get_remote_peer_ip :: "rpc_connection \<Rightarrow> peer_ip" where
  "get_remote_peer_ip c = \<lparr>ip = fst (remote_endpoint c), tcp_port = uint (snd (remote_endpoint c)),
     udp_port = uint (snd (remote_udp_endpoint c))\<rparr>"

definition get_self_peer_id :: "rpc_connection \<Rightarrow> peer_id" where
  "get_self_peer_id c = conn_peer_id c"

definition get_remote_peer_id :: "rpc_connection \<Rightarrow> peer_id" where
  "get_remote_peer_id c = authenticated_remote_id c"

definition set_remote_peer_id :: "peer_id \<Rightarrow> rpc_connection \<Rightarrow> rpc_connection" where
  "set_remote_peer_id p c = c\<lparr>authenticated_remote_id := p\<rparr>"

text \<open>\<^verbatim>\<open>pending_requests_[req_id] = ...\<close>: a promise that is overwritten is broken, its timer cancelled.\<close>

definition put_pending :: "bytes \<Rightarrow> nat \<Rightarrow> rpc_connection \<Rightarrow> (nat \<times> future_result) list \<times> rpc_connection" where
  "put_pending req_id f c =
     (let (n, tt) = start_wait req_id (rpc_timers c);
          c' = c\<lparr>pending_rpcs := AList.update req_id (f, n) (pending_rpcs c)\<rparr>
      in case map_of (pending_rpcs c) req_id of
           None \<Rightarrow> ([], c'\<lparr>rpc_timers := tt\<rparr>)
         | Some (f', n') \<Rightarrow> ([(f', Failed ''Broken promise'')], c'\<lparr>rpc_timers := cancel_wait n' tt\<rparr>))"

definition async_send_message :: "bytes \<Rightarrow> bytes \<Rightarrow> rpc_connection \<Rightarrow> conn_error + rpc_connection" where
  "async_send_message req_id message c =
     (case session c of
        None \<Rightarrow> Inl NullSession
      | Some s \<Rightarrow> (case frame_message req_id message of
          Inl e \<Rightarrow> Inl (SessionError e)
        | Inr None \<Rightarrow> Inr c
        | Inr (Some data) \<Rightarrow> Inr (c\<lparr>session := Some (s\<lparr>sess_writer := enqueue data (sess_writer s)\<rparr>)\<rparr>)))"

definition addressed :: "envelope \<Rightarrow> rpc_connection \<Rightarrow> envelope" where
  "addressed env c = env\<lparr>env_from := get_local_peer_ip c, env_to := get_remote_peer_ip c\<rparr>"

text \<open>The future the caller gets, the results given to futures, the state; \<open>Inl\<close> is undefined behaviour.\<close>

definition send_message :: "mesh_lib \<Rightarrow> envelope \<Rightarrow> rpc_connection
    \<Rightarrow> (conn_error + nat) \<times> (nat \<times> future_result) list \<times> rpc_connection" where
  "send_message L envelope c =
     (let envelope = addressed envelope c;
          message_contents = envelope_bytes L envelope;
          req_id = msg_id envelope;
          f = next_future c;
          c = c\<lparr>next_future := Suc f\<rparr>;
          (rs, c) = (if env_expect_response envelope then put_pending req_id f c else ([(f, Value [])], c))
      in case async_send_message req_id message_contents c of
           Inl e \<Rightarrow> (Inl e, rs, c)
         | Inr c \<Rightarrow> (Inr f, rs, c))"

text \<open>The lambda of the timer.\<close>

definition on_rpc_timer :: "bytes \<Rightarrow> bool \<Rightarrow> rpc_connection \<Rightarrow> (nat \<times> future_result) list \<times> rpc_connection" where
  "on_rpc_timer req_id aborted c =
     (if aborted then ([], c)
      else case map_of (pending_rpcs c) req_id of
             None \<Rightarrow> ([], c)
           | Some (f, n) \<Rightarrow> ([(f, Failed ''RPC failed: timeout'')],
               c\<lparr>pending_rpcs := AList.delete req_id (pending_rpcs c), rpc_timers := cancel_wait n (rpc_timers c)\<rparr>))"

definition store_response :: "bytes \<Rightarrow> bytes \<Rightarrow> rpc_connection \<Rightarrow> (nat \<times> future_result) list \<times> rpc_connection" where
  "store_response mid response c =
     (case map_of (pending_rpcs c) mid of
        None \<Rightarrow> ([], c)
      | Some (f, n) \<Rightarrow> ([(f, Value response)],
          c\<lparr>pending_rpcs := AList.delete mid (pending_rpcs c), rpc_timers := cancel_wait n (rpc_timers c)\<rparr>))"

text \<open>The envelope, if any, that is given to the dispatch callback comes first.\<close>

definition on_message :: "mesh_lib \<Rightarrow> bytes \<Rightarrow> bytes \<Rightarrow> rpc_connection
    \<Rightarrow> envelope option \<times> (nat \<times> future_result) list \<times> rpc_connection" where
  "on_message L mid payload c =
     (case parse_envelope L payload of
        None \<Rightarrow> (None, [], c)
      | Some env \<Rightarrow> (let (rs, c) = store_response mid payload c in (if handler_set c then Some env else None, rs, c)))"

definition fulfill_handshake_promise :: "peer_record \<Rightarrow> rpc_connection \<Rightarrow> rpc_connection" where
  "fulfill_handshake_promise rec c =
     (case handshake_promise c of Some None \<Rightarrow> c\<lparr>handshake_promise := Some (Some rec)\<rparr> | _ \<Rightarrow> c)"

section \<open>The handshake\<close>

text \<open>The socket the connection was made with, and the session on it: TLS if there is an \<^verbatim>\<open>ssl_ctx_\<close>, started at once.\<close>

definition conn_socket :: "rpc_connection \<Rightarrow> socket" where
  "conn_socket c = \<lparr>sock_open = True, sock_remote = Some (fst (remote_endpoint c)), sock_cancelled = False\<rparr>"

definition open_session :: "bool \<Rightarrow> rpc_connection \<Rightarrow> rpc_connection" where
  "open_session initiator c =
     c\<lparr>handshake_promise := Some None,
       session := Some (generic_start (if \<not> use_ssl c then make_tcp_session (conn_socket c) else make_ssl_session (conn_socket c) initiator))\<rparr>"

text \<open>The draw \<open>u\<close> is the id of the request.\<close>

definition start_send :: "mesh_lib \<Rightarrow> bytes \<Rightarrow> bool \<Rightarrow> rpc_connection
    \<Rightarrow> (conn_error + nat option) \<times> (nat \<times> future_result) list \<times> rpc_connection" where
  "start_send L u initiator c =
     (let c = open_session initiator c in
      if initiator
      then let env = MakeHandshakeRequest L u (get_local_peer_ip c) (get_remote_peer_ip c) (conn_peer_id c);
               (r, rs, c) = send_message L env c
           in (case r of Inl e \<Rightarrow> Inl e | Inr f \<Rightarrow> Inr (Some f), rs, c)
      else (Inr None, [], c))"

definition handshake_reply :: "mesh_lib \<Rightarrow> future_result \<Rightarrow> rpc_connection \<Rightarrow> (string + peer_record) \<times> rpc_connection" where
  "handshake_reply L r c =
     (case r of
        Failed e \<Rightarrow> (Inl (''Handshake error: '' @ e), c)
      | Value response \<Rightarrow>
          (case parse_envelope L response of
             None \<Rightarrow> (Inl ''failed to parse handshake response envelope'', c)
           | Some response_envelope \<Rightarrow>
               if env_type response_envelope \<noteq> HANDSHAKE then (Inl ''invalid handshake response type'', c)
               else (case parse_handshake L (env_payload response_envelope) of
                       None \<Rightarrow> (Inl ''failed to parse handshake payload'', c)
                     | Some handshake_response \<Rightarrow>
                         (Inr (hs_peer_record handshake_response),
                          c\<lparr>remote_udp_endpoint := (fst (remote_endpoint c),
                              word_of_int (udp_port (rec_peer_ip (hs_peer_record handshake_response))))\<rparr>))))"

definition accept_result :: "rpc_connection \<Rightarrow> (string + peer_record) \<times> (nat \<times> future_result) list \<times> rpc_connection" where
  "accept_result c =
     (case handshake_promise c of
        Some (Some rec) \<Rightarrow> (Inr rec, [], c)
      | _ \<Rightarrow> (let (rs, c) = conn_shutdown c in (Inl ''mesh handshake timed out'', rs, c)))"

definition HandshakeHandler :: "mesh_lib \<Rightarrow> bytes \<Rightarrow> envelope \<Rightarrow> rpc_connection
    \<Rightarrow> conn_error option \<times> (nat \<times> future_result) list \<times> rpc_connection" where
  "HandshakeHandler L u env c =
     (if \<not> env_expect_response env then (None, [], c)
      else case parse_handshake L (env_payload env) of
             None \<Rightarrow> (None, [], c)
           | Some req \<Rightarrow>
               let c = c\<lparr>remote_udp_endpoint := (fst (remote_endpoint c), word_of_int (udp_port (rec_peer_ip (hs_peer_record req))))\<rparr>;
                   response = (MakeHandshakeResponse L u (get_local_peer_ip c) (env_from env) (get_self_peer_id c))\<lparr>msg_id := msg_id env\<rparr>;
                   (r, rs, c) = send_message L response c
               in case r of
                    Inl e \<Rightarrow> (Some e, rs, c)
                  | Inr f \<Rightarrow> (None, rs, fulfill_handshake_promise (hs_peer_record req) c))"

definition HeartbeatHandler :: "mesh_lib \<Rightarrow> bytes \<Rightarrow> envelope \<Rightarrow> rpc_connection
    \<Rightarrow> conn_error option \<times> (nat \<times> future_result) list \<times> rpc_connection" where
  "HeartbeatHandler L u env c =
     (if \<not> env_expect_response env then (None, [], c)
      else let response = (MakeHeartbeatResponse u (get_local_peer_ip c) (env_from env))\<lparr>msg_id := msg_id env\<rparr>;
               (r, rs, c) = send_message L response c
           in (case r of Inl e \<Rightarrow> Some e | Inr f \<Rightarrow> None, rs, c))"

section \<open>Steps\<close>

inductive conn_step :: "mesh_lib \<Rightarrow> rpc_connection \<Rightarrow> nat list \<Rightarrow> nat list \<Rightarrow> rpc_connection \<Rightarrow> bool" for L where
  conn_send: "send_message L env c = (r, rs, c') \<Longrightarrow> conn_step L c [next_future c] (map fst rs) c'"
| conn_message: "on_message L mid payload c = (d, rs, c') \<Longrightarrow> conn_step L c [] (map fst rs) c'"
| conn_timer: "may_fire n aborted (rpc_timers c) \<Longrightarrow> map_of (waiting (rpc_timers c)) n = Some req_id \<Longrightarrow>
    on_rpc_timer req_id aborted (c\<lparr>rpc_timers := take_handler n (rpc_timers c)\<rparr>) = (rs, c') \<Longrightarrow> conn_step L c [] (map fst rs) c'"
| conn_stop: "conn_shutdown c = (rs, c') \<Longrightarrow> conn_step L c [] (map fst rs) c'"
| conn_fields: "conn_step L c [] [] (c\<lparr>remote_udp_endpoint := ep, authenticated_remote_id := p, handshake_promise := h, session := s, handler_set := b\<rparr>)"

definition waiting_futures :: "rpc_connection \<Rightarrow> nat set" where
  "waiting_futures c = {f. \<exists>r n. map_of (pending_rpcs c) r = Some (f, n)}"

definition conn_inv :: "rpc_connection \<Rightarrow> bool" where
  "conn_inv c \<longleftrightarrow> distinct (map fst (pending_rpcs c)) \<and> timers_ok (rpc_timers c) \<and>
     (\<forall>r f n. map_of (pending_rpcs c) r = Some (f, n) \<longrightarrow>
        map_of (waiting (rpc_timers c)) n = Some r \<and> n \<notin> set (cancelled (rpc_timers c)) \<and> f < next_future c) \<and>
     (\<forall>r r' f n n'. map_of (pending_rpcs c) r = Some (f, n) \<longrightarrow> map_of (pending_rpcs c) r' = Some (f, n') \<longrightarrow> r = r')"

lemma conn_invD:
  assumes "conn_inv c"
  shows "distinct (map fst (pending_rpcs c))" "timers_ok (rpc_timers c)"
    "map_of (pending_rpcs c) r = Some (f, n) \<Longrightarrow> map_of (waiting (rpc_timers c)) n = Some r"
    "map_of (pending_rpcs c) r = Some (f, n) \<Longrightarrow> n \<notin> set (cancelled (rpc_timers c))"
    "map_of (pending_rpcs c) r = Some (f, n) \<Longrightarrow> f < next_future c"
    "map_of (pending_rpcs c) r = Some (f, n) \<Longrightarrow> map_of (pending_rpcs c) r' = Some (f, n') \<Longrightarrow> r = r'"
  using assms unfolding conn_inv_def by blast+

lemma conn_invI:
  assumes "distinct (map fst (pending_rpcs c))" "timers_ok (rpc_timers c)"
    "\<And>r f n. map_of (pending_rpcs c) r = Some (f, n) \<Longrightarrow> map_of (waiting (rpc_timers c)) n = Some r \<and> n \<notin> set (cancelled (rpc_timers c)) \<and> f < next_future c"
    "\<And>r r' f n n'. map_of (pending_rpcs c) r = Some (f, n) \<Longrightarrow> map_of (pending_rpcs c) r' = Some (f, n') \<Longrightarrow> r = r'"
  shows "conn_inv c"
  using assms unfolding conn_inv_def by blast

lemma conn_timer_bound: "conn_inv c \<Longrightarrow> map_of (pending_rpcs c) r = Some (f, n) \<Longrightarrow> n < next_timer (rpc_timers c)"
  by (rule timers_ok_bound [OF conn_invD(2) conn_invD(3)])

lemma conn_timer_inj:
  assumes "conn_inv c" "map_of (pending_rpcs c) r = Some (f, n)" "map_of (pending_rpcs c) r' = Some (f', n)"
  shows "r = r'"
  using conn_invD(3) [OF assms(1,2)] conn_invD(3) [OF assms(1,3)] by simp

text \<open>Taking a request out of the table.\<close>

lemma erase_rpc:
  assumes inv: "conn_inv c" and e: "map_of (pending_rpcs c) r = Some (f, n)"
    and c': "c' = c\<lparr>pending_rpcs := AList.delete r (pending_rpcs c), rpc_timers := cancel_wait n (rpc_timers c)\<rparr>"
  shows "conn_inv c'" "waiting_futures c' = waiting_futures c - {f}" "f \<in> waiting_futures c"
proof -
  have m: "map_of (pending_rpcs c') r' = (if r' = r then None else map_of (pending_rpcs c) r')" for r'
    by (simp add: c' delete_conv')
  show "conn_inv c'"
  proof (rule conn_invI)
    show "distinct (map fst (pending_rpcs c'))" using conn_invD(1) [OF inv] by (simp add: c' distinct_delete)
    show "timers_ok (rpc_timers c')" using conn_invD(2) [OF inv] conn_timer_bound [OF inv e] by (simp add: c')
    fix r' f' n' assume h: "map_of (pending_rpcs c') r' = Some (f', n')"
    then have h': "map_of (pending_rpcs c) r' = Some (f', n')" "r' \<noteq> r" by (auto simp: m split: if_splits)
    have "n' \<noteq> n" using conn_timer_inj [OF inv h'(1), of r f] e h'(2) by metis
    then show "map_of (waiting (rpc_timers c')) n' = Some r' \<and> n' \<notin> set (cancelled (rpc_timers c')) \<and> f' < next_future c'"
      using conn_invD(3-5) [OF inv h'(1)] by (simp add: c')
  next
    fix r1 r2 f' n1 n2 assume "map_of (pending_rpcs c') r1 = Some (f', n1)" "map_of (pending_rpcs c') r2 = Some (f', n2)"
    then have "map_of (pending_rpcs c) r1 = Some (f', n1)" "map_of (pending_rpcs c) r2 = Some (f', n2)" by (simp_all add: m split: if_splits)
    then show "r1 = r2" by (rule conn_invD(6) [OF inv])
  qed
  have f: "f' \<noteq> f" if "map_of (pending_rpcs c) r' = Some (f', n')" "r' \<noteq> r" for r' f' n'
    using conn_invD(6) [OF inv e, of r' n'] that by metis
  show "waiting_futures c' = waiting_futures c - {f}"
  proof (intro set_eqI iffI)
    fix x assume "x \<in> waiting_futures c'"
    then obtain r' n' where "map_of (pending_rpcs c) r' = Some (x, n')" "r' \<noteq> r" by (auto simp: waiting_futures_def m split: if_splits)
    then show "x \<in> waiting_futures c - {f}" using f by (auto simp: waiting_futures_def)
  next
    fix x assume "x \<in> waiting_futures c - {f}"
    then obtain r' n' where r': "map_of (pending_rpcs c) r' = Some (x, n')" "x \<noteq> f" by (auto simp: waiting_futures_def)
    then have "r' \<noteq> r" using e by auto
    with r'(1) show "x \<in> waiting_futures c'" by (auto simp: waiting_futures_def m)
  qed
  show "f \<in> waiting_futures c" using e by (auto simp: waiting_futures_def)
qed

text \<open>Putting a request into the table, overwriting or not.\<close>

lemma put_pending_inv:
  assumes inv: "conn_inv c" and p: "put_pending req_id (next_future c) (c\<lparr>next_future := Suc (next_future c)\<rparr>) = (rs, c')"
  shows "conn_inv c' \<and> distinct (map fst rs) \<and> set (map fst rs) \<subseteq> waiting_futures c \<and>
    waiting_futures c' = insert (next_future c) (waiting_futures c - set (map fst rs)) \<and> next_future c' = Suc (next_future c)"
proof -
  let ?old = "map_of (pending_rpcs c) req_id" and ?t = "next_timer (rpc_timers c)"
  have c': "pending_rpcs c' = AList.update req_id (next_future c, ?t) (pending_rpcs c)" "next_future c' = Suc (next_future c)"
      "rpc_timers c' = (case ?old of None \<Rightarrow> snd (start_wait req_id (rpc_timers c)) | Some (f, n) \<Rightarrow> cancel_wait n (snd (start_wait req_id (rpc_timers c))))"
    and rs: "map fst rs = (case ?old of None \<Rightarrow> [] | Some (f, n) \<Rightarrow> [f])"
    using p by (auto simp: put_pending_def Let_def case_prod_unfold split: option.splits)
  have m: "map_of (pending_rpcs c') r' = (if r' = req_id then Some (next_future c, ?t) else map_of (pending_rpcs c) r')" for r'
    by (simp add: c' update_conv')
  have t: "waiting (rpc_timers c') = (?t, req_id) # waiting (rpc_timers c)"
      "set (cancelled (rpc_timers c')) = set (cancelled (rpc_timers c)) \<union> (case ?old of None \<Rightarrow> {} | Some (f, n) \<Rightarrow> {n})"
    by (auto simp: c'(3) split: option.split)
  have ct: "?t \<notin> set (cancelled (rpc_timers c))" using conn_invD(2) [OF inv] by (auto simp: timers_ok_def)
  have "conn_inv c'"
  proof (rule conn_invI)
    show "distinct (map fst (pending_rpcs c'))" using conn_invD(1) [OF inv] by (simp add: c' distinct_update)
    show "timers_ok (rpc_timers c')" using conn_invD(2) [OF inv] by (auto simp: c'(3) less_SucI dest!: conn_timer_bound [OF inv] split: option.split)
    fix r' f' n' assume h: "map_of (pending_rpcs c') r' = Some (f', n')"
    show "map_of (waiting (rpc_timers c')) n' = Some r' \<and> n' \<notin> set (cancelled (rpc_timers c')) \<and> f' < next_future c'"
    proof (cases "r' = req_id")
      case True
      then have "n' = ?t" "f' = next_future c" using h by (simp_all add: m)
      then show ?thesis using True ct by (auto simp: t c'(2) dest: conn_timer_bound [OF inv] split: option.split)
    next
      case False
      then have h': "map_of (pending_rpcs c) r' = Some (f', n')" using h by (simp add: m)
      have "n' \<noteq> ?t" "\<And>f. ?old \<noteq> Some (f, n')" using conn_timer_bound [OF inv h'] conn_timer_inj [OF inv h', of req_id] False by blast+
      then show ?thesis using conn_invD(3-5) [OF inv h'] by (auto simp: t c'(2) split: option.split)
    qed
  next
    fix r1 r2 f' n1 n2 assume "map_of (pending_rpcs c') r1 = Some (f', n1)" "map_of (pending_rpcs c') r2 = Some (f', n2)"
    then consider "r1 = r2" | "map_of (pending_rpcs c) r1 = Some (f', n1)" "map_of (pending_rpcs c) r2 = Some (f', n2)"
      | r where "map_of (pending_rpcs c) r = Some (next_future c, n1)" | r where "map_of (pending_rpcs c) r = Some (next_future c, n2)"
      by (auto simp: m split: if_splits)
    then show "r1 = r2"
    proof cases
      case 2
      then show ?thesis by (rule conn_invD(6) [OF inv])
    qed (auto dest: conn_invD(5) [OF inv])
  qed
  moreover have "waiting_futures c' = insert (next_future c) (waiting_futures c - set (map fst rs))"
  proof (intro set_eqI iffI)
    fix x assume "x \<in> waiting_futures c'"
    then consider "x = next_future c" | r' n' where "map_of (pending_rpcs c) r' = Some (x, n')" "r' \<noteq> req_id"
      by (auto simp: waiting_futures_def m split: if_splits)
    then show "x \<in> insert (next_future c) (waiting_futures c - set (map fst rs))"
    proof cases
      case 2
      then have "x \<notin> set (map fst rs)" using conn_invD(6) [OF inv 2(1), of req_id]
        by (cases "map_of (pending_rpcs c) req_id") (auto simp: rs)
      then show ?thesis using 2 by (auto simp: waiting_futures_def)
    qed simp
  next
    fix x assume "x \<in> insert (next_future c) (waiting_futures c - set (map fst rs))"
    then consider "x = next_future c" | r' n' where "map_of (pending_rpcs c) r' = Some (x, n')" "r' \<noteq> req_id"
      unfolding waiting_futures_def by (cases "map_of (pending_rpcs c) req_id") (auto simp: rs, metis option.distinct(1), metis option.inject prod.inject)
    then show "x \<in> waiting_futures c'" by cases (auto simp: waiting_futures_def m)
  qed
  moreover have "set (map fst rs) \<subseteq> waiting_futures c" "distinct (map fst rs)"
    unfolding waiting_futures_def by (cases "map_of (pending_rpcs c) req_id"; auto simp: rs)+
  ultimately show ?thesis using c'(2) by blast
qed

lemma conn_inv_session [simp]:
  "conn_inv (c\<lparr>session := s\<rparr>) = conn_inv c" "waiting_futures (c\<lparr>session := s\<rparr>) = waiting_futures c"
  by (simp_all add: conn_inv_def waiting_futures_def)

lemma async_send_inv:
  assumes "async_send_message r m c = Inr c'"
  shows "conn_inv c' = conn_inv c" "waiting_futures c' = waiting_futures c" "next_future c' = next_future c"
  using assms by (auto simp: async_send_message_def split: option.splits sum.splits)

lemma send_message_inv:
  assumes inv: "conn_inv c" and s: "send_message L env c = (r, rs, c')"
  shows "conn_inv c' \<and> distinct (map fst rs) \<and> set (map fst rs) \<subseteq> insert (next_future c) (waiting_futures c) \<and>
    waiting_futures c' = insert (next_future c) (waiting_futures c) - set (map fst rs) \<and> next_future c' = Suc (next_future c)"
proof -
  let ?c = "c\<lparr>next_future := Suc (next_future c)\<rparr>" and ?id = "msg_id (addressed env c)"
  have fresh: "next_future c \<notin> waiting_futures c" using conn_invD(5) [OF inv] by (auto simp: waiting_futures_def)
  obtain rs1 c1 where c1: "(if env_expect_response (addressed env c) then put_pending ?id (next_future c) ?c else ([(next_future c, Value [])], ?c)) = (rs1, c1)"
    by force
  have "conn_inv c1 \<and> distinct (map fst rs1) \<and> set (map fst rs1) \<subseteq> insert (next_future c) (waiting_futures c) \<and>
    waiting_futures c1 = insert (next_future c) (waiting_futures c) - set (map fst rs1) \<and> next_future c1 = Suc (next_future c)"
  proof (cases "env_expect_response (addressed env c)")
    case True
    then show ?thesis using put_pending_inv [OF inv, of ?id rs1 c1] c1 fresh by auto
  next
    case False
    then have "rs1 = [(next_future c, Value [])]" "c1 = ?c" using c1 by auto
    moreover have "conn_inv ?c" using conn_invD [OF inv] by (intro conn_invI) (auto simp: less_SucI)
    ultimately show ?thesis using fresh by (auto simp: waiting_futures_def)
  qed
  moreover have "rs = rs1 \<and> conn_inv c' = conn_inv c1 \<and> waiting_futures c' = waiting_futures c1 \<and> next_future c' = next_future c1"
    using s c1 async_send_inv [of ?id "envelope_bytes L (addressed env c)" c1]
    by (auto simp: send_message_def Let_def split: sum.splits)
  ultimately show ?thesis by simp
qed

lemma erase_rpc_step:
  assumes inv: "conn_inv c" and s: "(case map_of (pending_rpcs c) r of None \<Rightarrow> ([], c)
      | Some (f, n) \<Rightarrow> ([(f, res)], c\<lparr>pending_rpcs := AList.delete r (pending_rpcs c), rpc_timers := cancel_wait n (rpc_timers c)\<rparr>)) = (rs, c')"
  shows "conn_inv c' \<and> distinct (map fst rs) \<and> set (map fst rs) \<subseteq> waiting_futures c \<and>
    waiting_futures c' = waiting_futures c - set (map fst rs) \<and> next_future c' = next_future c"
proof (cases "map_of (pending_rpcs c) r")
  case None
  then show ?thesis using assms by simp
next
  case (Some fn)
  obtain f n where fn: "fn = (f, n)" by force
  then have "rs = [(f, res)]" and c': "c' = c\<lparr>pending_rpcs := AList.delete r (pending_rpcs c), rpc_timers := cancel_wait n (rpc_timers c)\<rparr>"
    using s Some by auto
  then show ?thesis using erase_rpc [OF inv _ c', of f] Some fn by auto
qed

lemma on_message_inv:
  assumes "conn_inv c" "on_message L mid payload c = (d, rs, c')"
  shows "conn_inv c' \<and> distinct (map fst rs) \<and> set (map fst rs) \<subseteq> waiting_futures c \<and>
    waiting_futures c' = waiting_futures c - set (map fst rs) \<and> next_future c' = next_future c"
proof (cases "parse_envelope L payload")
  case None
  then show ?thesis using assms by (simp add: on_message_def)
next
  case (Some env)
  then have "store_response mid payload c = (rs, c')" using assms(2) by (auto simp: on_message_def split: prod.splits)
  then show ?thesis unfolding store_response_def by (rule erase_rpc_step [OF assms(1)])
qed

lemma on_rpc_timer_inv:
  assumes "conn_inv c" "on_rpc_timer r aborted c = (rs, c')"
  shows "conn_inv c' \<and> distinct (map fst rs) \<and> set (map fst rs) \<subseteq> waiting_futures c \<and>
    waiting_futures c' = waiting_futures c - set (map fst rs) \<and> next_future c' = next_future c"
proof (cases aborted)
  case True
  then show ?thesis using assms by (simp add: on_rpc_timer_def)
next
  case False
  then have "(case map_of (pending_rpcs c) r of None \<Rightarrow> ([], c)
      | Some (f, n) \<Rightarrow> ([(f, Failed ''RPC failed: timeout'')],
          c\<lparr>pending_rpcs := AList.delete r (pending_rpcs c), rpc_timers := cancel_wait n (rpc_timers c)\<rparr>)) = (rs, c')"
    using assms(2) by (simp only: on_rpc_timer_def if_False)
  then show ?thesis by (rule erase_rpc_step [OF assms(1)])
qed

lemma on_rpc_timer_take:
  "on_rpc_timer r ab (c\<lparr>rpc_timers := take_handler n (rpc_timers c)\<rparr>) =
     (let (rs, c') = on_rpc_timer r ab c in (rs, c'\<lparr>rpc_timers := take_handler n (rpc_timers c')\<rparr>))"
  by (auto simp: on_rpc_timer_def take_handler_def cancel_wait_def split: option.splits)

text \<open>Once its handler has run, a timer guards no request.\<close>

lemma on_rpc_timer_unused:
  assumes inv: "conn_inv c'" and o: "on_rpc_timer req_id ab c = (rs, c')"
    and w: "map_of (waiting (rpc_timers c)) n = Some req_id" and cn: "ab \<Longrightarrow> n \<in> set (cancelled (rpc_timers c))"
  shows "map_of (pending_rpcs c') r \<noteq> Some (f, n)"
proof
  assume e: "map_of (pending_rpcs c') r = Some (f, n)"
  have "waiting (rpc_timers c') = waiting (rpc_timers c)" "set (cancelled (rpc_timers c)) \<subseteq> set (cancelled (rpc_timers c'))"
    using o by (auto simp: on_rpc_timer_def split: if_splits option.splits)
  then have "r = req_id" "\<not> ab" using conn_invD(3,4) [OF inv e] w cn by auto
  then show False using e o by (auto simp: on_rpc_timer_def delete_conv' split: option.splits)
qed

lemma take_rpc_inv:
  assumes inv: "conn_inv c" and u: "\<And>r f. map_of (pending_rpcs c) r \<noteq> Some (f, n)"
  shows "conn_inv (c\<lparr>rpc_timers := take_handler n (rpc_timers c)\<rparr>)"
proof (rule conn_invI)
  fix r f m assume "map_of (pending_rpcs (c\<lparr>rpc_timers := take_handler n (rpc_timers c)\<rparr>)) r = Some (f, m)"
  then have e: "map_of (pending_rpcs c) r = Some (f, m)" by simp
  moreover have "m \<noteq> n" using e u [of r f] by auto
  ultimately show "map_of (waiting (rpc_timers (c\<lparr>rpc_timers := take_handler n (rpc_timers c)\<rparr>))) m = Some r \<and>
      m \<notin> set (cancelled (rpc_timers (c\<lparr>rpc_timers := take_handler n (rpc_timers c)\<rparr>))) \<and> f < next_future (c\<lparr>rpc_timers := take_handler n (rpc_timers c)\<rparr>)"
    using conn_invD(3-5) [OF inv e] by (simp add: delete_conv')
qed (use conn_invD [OF inv] in \<open>auto\<close>)

lemma cancel_all_fields:
  "waiting (foldl (\<lambda>tt (r, f, n). cancel_wait n tt) tt al) = waiting tt"
  "next_timer (foldl (\<lambda>tt (r, f, n). cancel_wait n tt) tt al) = next_timer tt"
  by (induction al arbitrary: tt) auto

lemma cancel_all_ok:
  "timers_ok tt \<Longrightarrow> \<forall>(r, f, n)\<in>set al. n < next_timer tt \<Longrightarrow> timers_ok (foldl (\<lambda>tt (r, f, n). cancel_wait n tt) tt al)"
  by (induction al arbitrary: tt) auto

lemma conn_shutdown_inv:
  assumes inv: "conn_inv c" and s: "conn_shutdown c = (rs, c')"
  shows "conn_inv c' \<and> distinct (map fst rs) \<and> set (map fst rs) = waiting_futures c \<and> waiting_futures c' = {} \<and> next_future c' = next_future c"
proof -
  have d: "distinct (map fst (pending_rpcs c))" by (rule conn_invD(1) [OF inv])
  have m: "(r, f, n) \<in> set (pending_rpcs c) \<longleftrightarrow> map_of (pending_rpcs c) r = Some (f, n)" for r f n
    using d by (auto dest: map_of_SomeD)
  have rs: "map fst rs = map (fst \<circ> snd) (pending_rpcs c)" and c': "pending_rpcs c' = []" "next_future c' = next_future c"
      "rpc_timers c' = foldl (\<lambda>tt (r, f, n). cancel_wait n tt) (rpc_timers c) (pending_rpcs c)"
    using s by (auto simp: conn_shutdown_def)
  have "inj_on (fst \<circ> snd) (set (pending_rpcs c))"
  proof (rule inj_onI)
    fix x y assume x: "x \<in> set (pending_rpcs c)" and y: "y \<in> set (pending_rpcs c)" and "(fst \<circ> snd) x = (fst \<circ> snd) y"
    then obtain r f n r' n' where e: "x = (r, f, n)" "y = (r', f, n')" by (metis comp_apply prod.collapse)
    then have "map_of (pending_rpcs c) r = Some (f, n)" "map_of (pending_rpcs c) r' = Some (f, n')" using x y by (auto simp: m)
    then show "x = y" using conn_invD(6) [OF inv] e by fastforce
  qed
  then have "distinct (map fst rs)" using d by (simp add: rs distinct_map)
  moreover have "waiting_futures c = (fst \<circ> snd) ` set (pending_rpcs c)" unfolding waiting_futures_def m [symmetric] by force
  then have "set (map fst rs) = waiting_futures c" by (simp add: rs)
  moreover have "\<forall>(r, f, n)\<in>set (pending_rpcs c). n < next_timer (rpc_timers c)" using conn_timer_bound [OF inv] by (auto simp: m)
  then have "timers_ok (rpc_timers c')" using cancel_all_ok [OF conn_invD(2) [OF inv]] by (simp add: c')
  then have "conn_inv c'" by (simp add: conn_inv_def c')
  ultimately show ?thesis using c' by (simp add: waiting_futures_def)
qed

lemma conn_step_inv:
  assumes "conn_step L c st fin c'" "conn_inv c"
  shows "conn_inv c' \<and> distinct fin \<and> set fin \<subseteq> waiting_futures c \<union> set st \<and>
    waiting_futures c' = (waiting_futures c \<union> set st) - set fin \<and> st = [next_future c..<next_future c'] \<and> next_future c \<le> next_future c'"
  using assms
proof (cases rule: conn_step.cases)
  case (conn_send env r rs)
  then show ?thesis using send_message_inv [OF assms(2) conn_send(3)] by (auto simp: upt_rec)
next
  case (conn_message mid payload d rs)
  then show ?thesis using on_message_inv [OF assms(2) conn_message(3)] by auto
next
  case (conn_timer n aborted req_id rs)
  obtain c1 where c1: "on_rpc_timer req_id aborted c = (rs, c1)" "c' = c1\<lparr>rpc_timers := take_handler n (rpc_timers c1)\<rparr>"
    using conn_timer(5) by (auto simp: on_rpc_timer_take split: prod.splits)
  note i = on_rpc_timer_inv [OF assms(2) c1(1)]
  have cn: "aborted \<Longrightarrow> n \<in> set (cancelled (rpc_timers c))" using conn_timer(3) by (simp add: may_fire_def)
  have "conn_inv c'" unfolding c1(2)
    using i by (intro take_rpc_inv on_rpc_timer_unused [OF _ c1(1) conn_timer(4) cn]) auto
  then show ?thesis using i conn_timer(1,2) by (simp add: c1(2) waiting_futures_def)
next
  case (conn_stop rs)
  then show ?thesis using conn_shutdown_inv [OF assms(2) conn_stop(3)] by simp
next
  case (conn_fields ep p h s b)
  then show ?thesis using assms(2) by (simp add: conn_inv_def waiting_futures_def)
qed

interpretation conn: completions "conn_step L" conn_inv waiting_futures for L
  by unfold_locales (auto dest!: conn_step_inv)

lemma new_connection_inv [simp]:
  "conn_inv (RpcConnection l r p u ssl)" "waiting_futures (RpcConnection l r p u ssl) = {}" "next_future (RpcConnection l r p u ssl) = 0"
  by (simp_all add: conn_inv_def waiting_futures_def RpcConnection_def)

lemma conn_history_futures:
  assumes "history (conn_step L) c0 st fin c" "conn_inv c0"
  shows "conn_inv c \<and> next_future c0 \<le> next_future c \<and> st = [next_future c0..<next_future c]"
  using assms
proof (induction rule: history.induct)
  case (history_step st fin c st' fin' c')
  then have IH: "conn_inv c" "next_future c0 \<le> next_future c" "st = [next_future c0..<next_future c]" by simp_all
  have s: "st' = [next_future c..<next_future c']" "conn_inv c'" "next_future c \<le> next_future c'"
    using conn_step_inv [OF history_step(2) IH(1)] by simp_all
  obtain k where k: "next_future c' = next_future c + k" using s(3) le_Suc_ex by blast
  have "st @ st' = [next_future c0..<next_future c']" unfolding IH(3) s(1) k by (rule upt_add_eq_append [OF IH(2), symmetric])
  then show ?case using s(2,3) IH(2) by simp
qed simp

text \<open>
  C11.  Every future of a connection is resolved exactly once: by the response, by the timeout, by being
  overwritten by a request with the same id, by the shutdown or, if no response is expected,
  at once.  In every history of a connection, whatever the ids and the order of messages,
  timers and shutdowns, a future that was handed out has one result if its request is no
  longer in the table, and none if it is.
\<close>

theorem rpc_future_resolved_once:
  assumes "history (conn_step L) (RpcConnection l r p u ssl) st fin c" "f < next_future c"
  shows "count_list fin f = (if f \<in> waiting_futures c then 0 else 1)"
proof -
  have "st = [0..<next_future c]" using conn_history_futures [OF assms(1)] by simp
  then show ?thesis using conn.count_finished [OF assms(1), of f] assms(2) by simp
qed

theorem rpc_future_resolved_once_witness:
  "\<exists>L c. history (conn_step L) (RpcConnection (''a'', 1) (''b'', 2) ''p'' 5 False) [0] [0] c \<and> 0 < next_future c \<and> 0 \<notin> waiting_futures c"
proof -
  define L where "L = ex_proto (\<lambda>n. [])"
  define c0 where "c0 = RpcConnection (''a'', 1) (''b'', 2) ''p'' 5 False"
  define c1 where "c1 = c0\<lparr>next_future := Suc 0\<rparr>"
  have c0: "session c0 = None" "next_future c0 = 0" by (simp_all add: c0_def RpcConnection_def)
  then have "send_message L default_envelope c0 = (Inl NullSession, [(0, Value [])], c1)"
    by (simp add: send_message_def addressed_def async_send_message_def Let_def c1_def) (simp add: default_envelope_def)
  from conn_send [OF this] have "conn_step L c0 [0] [0] c1" by (simp add: c0)
  then have "history (conn_step L) c0 ([] @ [0]) ([] @ [0]) c1" by (rule history_step [OF history_start])
  then have h: "history (conn_step L) c0 [0] [0] c1" by simp
  have n: "0 < next_future c1" by (simp add: c1_def)
  have "count_list [0 :: nat] 0 = (if 0 \<in> waiting_futures c1 then 0 else 1)"
    by (rule rpc_future_resolved_once [OF h [unfolded c0_def] n])
  then have "0 \<notin> waiting_futures c1" by (cases "0 \<in> waiting_futures c1") simp_all
  then show ?thesis using h n unfolding c0_def by blast
qed

section \<open>Two connections\<close>

text \<open>
  The session's handshake completes: without TLS it is a posted success.  The outcome of a TLS handshake is not
  described (the first message is written before it is over), so there is no result then.
\<close>

definition session_ready :: "rpc_connection \<Rightarrow> rpc_connection option" where
  "session_ready c =
     (case session c of
        None \<Rightarrow> None
      | Some s \<Rightarrow> if async_handshake (sess_stream s) = PostedSuccess then Some (c\<lparr>session := Some (on_handshake False s)\<rparr>) else None)"

text \<open>The session of \<open>b\<close> gets everything \<open>a\<close> has written or queued: the messages it hands up, and its new state.\<close>

definition receives :: "rpc_connection \<Rightarrow> rpc_connection \<Rightarrow> (bytes \<times> bytes) list \<times> rpc_connection" where
  "receives a b =
     (case (session a, session b) of
        (Some s, Some s') \<Rightarrow>
          (let s' = on_bytes (concat (accounted (sess_writer s))) s'
           in (case sess_reader s' of None \<Rightarrow> [] | Some r \<Rightarrow> handled r, b\<lparr>session := Some s'\<rparr>))
      | _ \<Rightarrow> ([], b))"

text \<open>
  The handshake of an initiator \<open>a\<close> and an acceptor \<open>b\<close>: both open their sessions, the initiator sends its request, the
  acceptor's session hands it to the dispatcher and from there to \<open>HandshakeHandler\<close>, and the
  reply goes back to the initiator.  The result is what \<^verbatim>\<open>start\<close> returns on both sides.
\<close>

definition handshake_run :: "mesh_lib \<Rightarrow> bytes \<Rightarrow> bytes \<Rightarrow> rpc_connection \<Rightarrow> rpc_connection
    \<Rightarrow> (((string + peer_record) \<times> rpc_connection) \<times> (string + peer_record) \<times> rpc_connection) option" where
  "handshake_run L u v a b =
     (let (r, rs, a) = start_send L u True a; (r', rs', b) = start_send L v False (set_on_dispatch b) in
      case (session_ready a, session_ready b) of
        (Some a, Some b) \<Rightarrow>
          (case receives a b of
             ([(i, m)], b) \<Rightarrow>
               (case on_message L i m b of
                  (Some env, rs, b) \<Rightarrow>
                    (case HandshakeHandler L v env b of
                       (None, rs, b) \<Rightarrow>
                         (case receives b a of
                            ([(i, m)], a) \<Rightarrow>
                              (case on_message L i m a of
                                 (d, [(f, res)], a) \<Rightarrow>
                                   if r = Inr (Some f) then (let (x, rs, b) = accept_result b in Some (handshake_reply L res a, x, b)) else None
                               | _ \<Rightarrow> None)
                          | _ \<Rightarrow> None)
                     | _ \<Rightarrow> None)
                | _ \<Rightarrow> None)
           | _ \<Rightarrow> None)
      | _ \<Rightarrow> None)"

lemma receives_frame:
  assumes "sendable (i, m)" "session a = Some s" "sess_writer s = enqueue (frame (i, m)) new_writer" "session b = Some s'" "sess_reader s' = Some new_reader"
  obtains s'' where "receives a b = ([(i, m)], b\<lparr>session := Some s''\<rparr>)" "sess_writer s'' = sess_writer s'"
proof -
  have h: "handled (receive (frame (i, m)) new_reader) = [(i, m)]" "read_state (receive (frame (i, m)) new_reader) \<noteq> Stopped"
    using assms(1) read_frames [of "[(i, m)]" "[]"] by (simp_all add: receive_def new_reader_def)
  have w: "concat (accounted (enqueue (frame (i, m)) new_writer)) = frame (i, m)"
    by (simp add: enqueue_def new_writer_def do_write_def accounted_def)
  show thesis
    by (rule that [of "s'\<lparr>sess_reader := Some (receive (frame (i, m)) new_reader)\<rparr>"])
      (use assms(2-5) h w in \<open>simp_all add: receives_def on_bytes_def\<close>)
qed

lemma frame_message_sendable: "sendable (i, m) \<Longrightarrow> frame_message i m = Inr (Some (frame (i, m)))"
  by (simp add: sendable_def frame_message_def frame_def)

text \<open>Sending on a fresh session.\<close>

lemma send_on_new_session:
  assumes "session c = Some s" "sess_writer s = new_writer" "sendable (msg_id env, envelope_bytes L (addressed env c))"
  shows "\<exists>c'. send_message L env c = (Inr (next_future c), if env_expect_response env then fst (put_pending (msg_id env) (next_future c) (c\<lparr>next_future := Suc (next_future c)\<rparr>)) else [(next_future c, Value [])], c')
    \<and> session c' = Some (s\<lparr>sess_writer := enqueue (frame (msg_id env, envelope_bytes L (addressed env c))) new_writer\<rparr>)
    \<and> pending_rpcs c' = (if env_expect_response env then AList.update (msg_id env) (next_future c, next_timer (rpc_timers c)) (pending_rpcs c) else pending_rpcs c)
    \<and> remote_endpoint c' = remote_endpoint c \<and> remote_udp_endpoint c' = remote_udp_endpoint c \<and> handshake_promise c' = handshake_promise c
    \<and> handler_set c' = handler_set c"
proof -
  let ?c = "c\<lparr>next_future := Suc (next_future c)\<rparr>"
  obtain rs c1 where c1: "(if env_expect_response env then put_pending (msg_id env) (next_future c) ?c else ([(next_future c, Value [])], ?c)) = (rs, c1)"
    by force
  have f: "session c1 = Some s" "remote_endpoint c1 = remote_endpoint c" "remote_udp_endpoint c1 = remote_udp_endpoint c"
      "handshake_promise c1 = handshake_promise c" "handler_set c1 = handler_set c"
      "pending_rpcs c1 = (if env_expect_response env then AList.update (msg_id env) (next_future c, next_timer (rpc_timers c)) (pending_rpcs c) else pending_rpcs c)"
    using c1 assms(1) by (auto simp: put_pending_def Let_def case_prod_unfold split: if_splits option.splits)
  let ?m = "(msg_id env, envelope_bytes L (addressed env c))"
  define c2 where "c2 = c1\<lparr>session := Some (s\<lparr>sess_writer := enqueue (frame ?m) new_writer\<rparr>)\<rparr>"
  have a: "msg_id (addressed env c) = msg_id env" "env_expect_response (addressed env c) = env_expect_response env"
    by (simp_all add: addressed_def)
  have "send_message L env c = (Inr (next_future c), rs, c2)"
    using c1 f(1) frame_message_sendable [OF assms(3)] assms(2)
    by (cases "env_expect_response env") (simp_all add: send_message_def Let_def a async_send_message_def c2_def)
  moreover have "rs = (if env_expect_response env then fst (put_pending (msg_id env) (next_future c) ?c) else [(next_future c, Value [])])"
    using c1 by (auto split: if_splits)
  ultimately show ?thesis using f by (intro exI [of _ c2]) (simp add: c2_def)
qed

definition handshake_request :: "mesh_lib \<Rightarrow> bytes \<Rightarrow> rpc_connection \<Rightarrow> envelope" where
  "handshake_request L u a = addressed (MakeHandshakeRequest L u (get_local_peer_ip a) (get_remote_peer_ip a) (conn_peer_id a)) a"

definition handshake_response :: "mesh_lib \<Rightarrow> bytes \<Rightarrow> bytes \<Rightarrow> rpc_connection \<Rightarrow> rpc_connection \<Rightarrow> envelope" where
  "handshake_response L u v a b = addressed ((MakeHandshakeResponse L v (get_local_peer_ip b) (env_from (handshake_request L u a)) (conn_peer_id b))\<lparr>msg_id := u\<rparr>)
     (b\<lparr>remote_udp_endpoint := (fst (remote_endpoint b), word_of_int (my_udp_port a))\<rparr>)"

lemma handshake_request_parts:
  assumes "a = RpcConnection la ra pa ua ssl"
  shows "env_expect_response (handshake_request L u a)" "msg_id (handshake_request L u a) = u" "env_from (handshake_request L u a) = get_local_peer_ip a"
    "env_payload (handshake_request L u a) = handshake_bytes L (handshake_for (get_local_peer_ip a) pa)"
    "hs_peer_record (handshake_for (get_local_peer_ip a) pa) = \<lparr>rec_peer_id = pa, rec_peer_ip = get_local_peer_ip a\<rparr>" "udp_port (get_local_peer_ip a) = ua"
  by (simp_all add: handshake_request_def addressed_def MakeHandshakeRequest_def handshake_for_def get_local_peer_ip_def assms RpcConnection_def)

lemma initiator_sends:
  assumes u: "length u = 16" and a: "a = RpcConnection la ra pa ua False" and size: "length (envelope_bytes L (handshake_request L u a)) \<le> 10 * 1024 * 1024"
  obtains a1 a2 n s where "start_send L u True a = (Inr (Some 0), [], a1)" "session_ready a1 = Some a2" "session a2 = Some s"
    "sess_writer s = enqueue (frame (u, envelope_bytes L (handshake_request L u a))) new_writer" "sess_reader s = Some new_reader"
    "pending_rpcs a2 = [(u, 0, n)]" "remote_endpoint a2 = ra"
proof -
  define a0 where "a0 = open_session True a"
  let ?s = "generic_start (make_tcp_session (conn_socket a))"
  have a0: "session a0 = Some ?s" "sess_writer ?s = new_writer" "pending_rpcs a0 = []" "next_future a0 = 0" "remote_endpoint a0 = ra"
      "get_local_peer_ip a0 = get_local_peer_ip a" "get_remote_peer_ip a0 = get_remote_peer_ip a" "conn_peer_id a0 = conn_peer_id a"
    by (simp_all add: a0_def open_session_def a RpcConnection_def get_local_peer_ip_def get_remote_peer_ip_def generic_start_def make_tcp_session_def GenericSession_def)
  let ?env = "MakeHandshakeRequest L u (get_local_peer_ip a0) (get_remote_peer_ip a0) (conn_peer_id a0)"
  have req: "addressed ?env a0 = handshake_request L u a" by (simp add: handshake_request_def addressed_def a0)
  have ef: "msg_id ?env = u" "env_expect_response ?env" by (simp_all add: MakeHandshakeRequest_def)
  let ?s1 = "?s\<lparr>sess_writer := enqueue (frame (u, envelope_bytes L (handshake_request L u a))) new_writer\<rparr>"
  obtain a1 where a1: "send_message L ?env a0 = (Inr 0, fst (put_pending u 0 (a0\<lparr>next_future := Suc 0\<rparr>)), a1)"
      "session a1 = Some ?s1" "pending_rpcs a1 = [(u, 0, next_timer (rpc_timers a0))]" "remote_endpoint a1 = ra"
    using send_on_new_session [OF a0(1,2), of ?env L] a0 ef req size u by (auto simp: sendable_def)
  have "start_send L u True a = (Inr (Some 0), [], a1)"
    using a1(1) by (simp add: start_send_def Let_def a0_def [symmetric] put_pending_def case_prod_unfold a0(3))
  moreover have "session_ready a1 = Some (a1\<lparr>session := Some (on_handshake False ?s1)\<rparr>)"
    by (simp add: session_ready_def a1(2) generic_start_def make_tcp_session_def GenericSession_def)
  ultimately show thesis using that a1 by (simp add: on_handshake_def)
qed

lemma acceptor_replies:
  assumes hl: "handshake_law L" and u: "length u = 16" and a: "a = RpcConnection la ra pa ua False" and b: "b = RpcConnection lb rb pb ub False"
    and size: "length (envelope_bytes L (handshake_response L u v a b)) \<le> 10 * 1024 * 1024"
    and b1: "b1 = (open_session False (set_on_dispatch b))\<lparr>session := Some s\<rparr>" "sess_writer s = new_writer"
  obtains b4 s' where "HandshakeHandler L v (handshake_request L u a) b1 = (None, [(0, Value [])], b4)" "session b4 = Some s'"
    "sess_writer s' = enqueue (frame (u, envelope_bytes L (handshake_response L u v a b))) new_writer"
    "accept_result b4 = (Inr \<lparr>rec_peer_id = pa, rec_peer_ip = get_local_peer_ip a\<rparr>, [], b4)" "remote_udp_endpoint b4 = (fst rb, word_of_int ua)"
proof -
  note rf = handshake_request_parts(1-4) [OF a, of L u] handshake_request_parts(5,6) [OF a]
  let ?b2 = "b1\<lparr>remote_udp_endpoint := (fst rb, word_of_int ua)\<rparr>"
  have f: "session ?b2 = Some s" "next_future b1 = 0" "handshake_promise b1 = Some None" "remote_endpoint b1 = rb"
    by (simp_all add: b1 open_session_def set_on_dispatch_def b RpcConnection_def)
  let ?env = "(MakeHandshakeResponse L v (get_local_peer_ip ?b2) (env_from (handshake_request L u a)) (get_self_peer_id ?b2))\<lparr>msg_id := u\<rparr>"
  have resp: "addressed ?env ?b2 = handshake_response L u v a b"
    by (simp add: handshake_response_def addressed_def b1 open_session_def set_on_dispatch_def get_local_peer_ip_def get_remote_peer_ip_def
        get_self_peer_id_def a b RpcConnection_def)
  have ef: "msg_id ?env = u" "\<not> env_expect_response ?env" by (simp_all add: MakeHandshakeResponse_def)
  obtain b3 where b3: "send_message L ?env ?b2 = (Inr 0, [(0, Value [])], b3)"
      "session b3 = Some (s\<lparr>sess_writer := enqueue (frame (u, envelope_bytes L (handshake_response L u v a b))) new_writer\<rparr>)"
      "handshake_promise b3 = Some None" "remote_udp_endpoint b3 = (fst rb, word_of_int ua)"
    using send_on_new_session [OF f(1) b1(2), of ?env L] f ef resp size u by (auto simp: sendable_def)
  let ?rec = "\<lparr>rec_peer_id = pa, rec_peer_ip = get_local_peer_ip a\<rparr>"
  have "HandshakeHandler L v (handshake_request L u a) b1 = (None, [(0, Value [])], b3\<lparr>handshake_promise := Some (Some ?rec)\<rparr>)"
    using hl b3(1,3) rf f(4) by (simp add: HandshakeHandler_def handshake_law_def Let_def fulfill_handshake_promise_def)
  then show thesis using that b3 by (simp add: accept_result_def)
qed

text \<open>
  C13.  The handshake tells both sides who the other is.  For two fresh connections without TLS, a request
  id of 16 bytes and messages within the limit of the session, the run ends with success on both
  sides: each learns the peer id the other was constructed with, and sets the UDP endpoint of
  the other to the address it sees and the port the other announced.
\<close>

theorem handshake_exchanges_identities:
  assumes laws: "envelope_law L" "handshake_law L" and u: "length u = 16"
    and a: "a = RpcConnection la ra pa ua False" and b: "b = RpcConnection lb rb pb ub False"
    and size: "length (envelope_bytes L (handshake_request L u a)) \<le> 10 * 1024 * 1024" "length (envelope_bytes L (handshake_response L u v a b)) \<le> 10 * 1024 * 1024"
  shows "\<exists>a' b'. handshake_run L u v a b = Some ((Inr \<lparr>rec_peer_id = pb, rec_peer_ip = get_local_peer_ip b\<rparr>, a'), Inr \<lparr>rec_peer_id = pa, rec_peer_ip = get_local_peer_ip a\<rparr>, b')
    \<and> remote_udp_endpoint a' = (fst ra, word_of_int ub) \<and> remote_udp_endpoint b' = (fst rb, word_of_int ua)"
proof -
  let ?q = "handshake_request L u a" and ?e = "handshake_response L u v a b" and ?rec = "\<lparr>rec_peer_id = pb, rec_peer_ip = get_local_peer_ip b\<rparr>"
  obtain a1 a2 n s where a2: "start_send L u True a = (Inr (Some 0), [], a1)" "session_ready a1 = Some a2" "session a2 = Some s"
      "sess_writer s = enqueue (frame (u, envelope_bytes L ?q)) new_writer" "sess_reader s = Some new_reader" "pending_rpcs a2 = [(u, 0, n)]" "remote_endpoint a2 = ra"
    by (rule initiator_sends [OF u a size(1)])
  define b0 where "b0 = open_session False (set_on_dispatch b)"
  define s0 where "s0 = on_handshake False (generic_start (make_tcp_session (conn_socket b)))"
  have b0: "session_ready b0 = Some (b0\<lparr>session := Some s0\<rparr>)" "pending_rpcs b0 = []" "handler_set b0" "sess_reader s0 = Some new_reader" "sess_writer s0 = new_writer"
    by (simp_all add: b0_def s0_def session_ready_def open_session_def set_on_dispatch_def b RpcConnection_def conn_socket_def generic_start_def make_tcp_session_def GenericSession_def on_handshake_def)
  obtain s1 where s1: "receives a2 (b0\<lparr>session := Some s0\<rparr>) = ([(u, envelope_bytes L ?q)], b0\<lparr>session := Some s1\<rparr>)" "sess_writer s1 = new_writer"
    using receives_frame [OF _ a2(3,4), of "b0\<lparr>session := Some s0\<rparr>" s0] u size(1) b0(4,5) by (auto simp: sendable_def)
  obtain b4 s' where b4: "HandshakeHandler L v ?q (b0\<lparr>session := Some s1\<rparr>) = (None, [(0, Value [])], b4)" "session b4 = Some s'"
      "sess_writer s' = enqueue (frame (u, envelope_bytes L ?e)) new_writer"
      "accept_result b4 = (Inr \<lparr>rec_peer_id = pa, rec_peer_ip = get_local_peer_ip a\<rparr>, [], b4)" "remote_udp_endpoint b4 = (fst rb, word_of_int ua)"
    by (rule acceptor_replies [OF laws(2) u a b size(2) _ s1(2), unfolded b0_def [symmetric], OF refl])
  have om: "on_message L u (envelope_bytes L ?q) (b0\<lparr>session := Some s1\<rparr>) = (Some ?q, [], b0\<lparr>session := Some s1\<rparr>)"
    using laws(1) b0(2,3) by (simp add: on_message_def envelope_law_def store_response_def)
  obtain s2 where s2: "receives b4 a2 = ([(u, envelope_bytes L ?e)], a2\<lparr>session := Some s2\<rparr>)"
    using receives_frame [OF _ b4(2,3) a2(3,5)] u size(2) by (auto simp: sendable_def)
  obtain d a3 where a3: "on_message L u (envelope_bytes L ?e) (a2\<lparr>session := Some s2\<rparr>) = (d, [(0, Value (envelope_bytes L ?e))], a3)" "remote_endpoint a3 = ra"
    using laws(1) a2(6,7) by (auto simp: on_message_def envelope_law_def store_response_def)
  have pf: "env_type ?e = HANDSHAKE" "env_payload ?e = handshake_bytes L (handshake_for (get_local_peer_ip b) pb)"
      "hs_peer_record (handshake_for (get_local_peer_ip b) pb) = ?rec" "udp_port (get_local_peer_ip b) = ub"
    by (simp_all add: handshake_response_def addressed_def MakeHandshakeResponse_def handshake_for_def get_local_peer_ip_def b RpcConnection_def)
  have hr: "handshake_reply L (Value (envelope_bytes L ?e)) a3 = (Inr ?rec, a3\<lparr>remote_udp_endpoint := (fst ra, word_of_int ub)\<rparr>)"
    using laws pf a3(2) by (simp add: handshake_reply_def envelope_law_def handshake_law_def)
  have "start_send L v False (set_on_dispatch b) = (Inr None, [], b0)" by (simp add: start_send_def b0_def Let_def)
  then have "handshake_run L u v a b = Some (handshake_reply L (Value (envelope_bytes L ?e)) a3, Inr \<lparr>rec_peer_id = pa, rec_peer_ip = get_local_peer_ip a\<rparr>, b4)"
    using a2(1,2) b0(1) s1(1) om b4(1,4) s2 a3(1) by (simp add: handshake_run_def)
  then show ?thesis using hr b4(5) by simp
qed

theorem handshake_exchanges_identities_witness:
  "\<exists>a' b'. handshake_run (ex_proto (\<lambda>n. [])) (replicate 16 0) [] (RpcConnection (''x'', 1) (''y'', 2) ''pa'' 3 False)
       (RpcConnection (''y'', 2) (''x'', 1) ''pb'' 4 False) =
     Some ((Inr \<lparr>rec_peer_id = ''pb'', rec_peer_ip = \<lparr>ip = ''y'', tcp_port = 2, udp_port = 4\<rparr>\<rparr>, a'),
       Inr \<lparr>rec_peer_id = ''pa'', rec_peer_ip = \<lparr>ip = ''x'', tcp_port = 1, udp_port = 3\<rparr>\<rparr>, b') \<and>
     remote_udp_endpoint a' = (''y'', 4) \<and> remote_udp_endpoint b' = (''x'', 3)"
proof -
  define L where "L = ex_proto (\<lambda>n. [])"
  define a where "a = RpcConnection (''x'', 1) (''y'', 2) ''pa'' 3 False"
  define b where "b = RpcConnection (''y'', 2) (''x'', 1) ''pb'' 4 False"
  have laws: "envelope_law L" "handshake_law L" by (simp_all add: L_def)
  have ips: "get_local_peer_ip a = \<lparr>ip = ''x'', tcp_port = 1, udp_port = 3\<rparr>" "get_local_peer_ip b = \<lparr>ip = ''y'', tcp_port = 2, udp_port = 4\<rparr>"
    by (simp_all add: a_def b_def get_local_peer_ip_def RpcConnection_def)
  have s1: "length (envelope_bytes L (handshake_request L (replicate 16 0) a)) \<le> 10 * 1024 * 1024"
    by (simp add: L_def ex_proto_def a_def RpcConnection_def handshake_request_def addressed_def MakeHandshakeRequest_def default_envelope_def handshake_for_def
        get_local_peer_ip_def get_remote_peer_ip_def MeshVersion_def coder_sizes envelope_coder_def envelope_fields_def ip_fields_def ip_coder_def
        handshake_coder_def handshake_fields_def string_coder_def int_coder_def bool_coder_def envelope_type_coder_def)
  have s2: "length (envelope_bytes L (handshake_response L (replicate 16 0) [] a b)) \<le> 10 * 1024 * 1024"
    by (simp add: L_def ex_proto_def a_def b_def RpcConnection_def handshake_request_def handshake_response_def addressed_def MakeHandshakeRequest_def MakeHandshakeResponse_def
        default_envelope_def handshake_for_def get_local_peer_ip_def get_remote_peer_ip_def MeshVersion_def coder_sizes envelope_coder_def
        envelope_fields_def ip_fields_def ip_coder_def handshake_coder_def handshake_fields_def string_coder_def int_coder_def bool_coder_def
        envelope_type_coder_def)
  from handshake_exchanges_identities [OF laws _ a_def b_def s1 s2] show ?thesis
    unfolding L_def [symmetric] a_def [symmetric] b_def [symmetric] ips by simp
qed

end
