(* ===== verification/Rpc_Manager.thy ===== *)
theory Rpc_Manager
  imports Rpc_Connection Udp_Transport Router
begin

text \<open>
  \<^verbatim>\<open>RpcManager\<close> of \<^verbatim>\<open>rpc/RpcManager.cpp\<close>: the connections of a node, found by peer id and by address.
  A connection object is shared by the two maps and by the handlers that use it, so objects
  live in \<open>store\<close> under a number and the maps hold numbers.  Each operation holds the
  lock where the code does; blocking calls and handlers given to Boost.Asio are cut at the point
  where they wait.  Calls on the message sink are collected in \<open>sink_calls\<close>.  The timers,
  sockets and the resolver belong to Boost.Asio: the results they give are arguments of the handlers.
\<close>

section \<open>State\<close>

definition MAX_HEARTBEAT_FAILURES :: nat where "MAX_HEARTBEAT_FAILURES = 5"

datatype send_error = INVALID_PEER

datatype sink_call = PushData peer_id bytes | PeerConnected peer_id | PeerDisconnected peer_id

record connect_attempt =
  att_key :: string
  att_completed :: bool
  att_conn :: "nat option"

record rpc_manager =
  mgr_peer_id :: peer_id
  mgr_udp_port :: int
  mgr_ssl :: bool
  store :: "(nat \<times> rpc_connection) list"
  next_conn :: nat
  starting :: "nat list"
  connections_by_peer :: "(peer_id \<times> nat) list"
  connections_by_ip :: "(string \<times> nat) list"
  pending_connections :: "string list"
  attempts :: "connect_attempt list"
  auto_connections :: "peer_ip list"
  shutting_down :: bool
  accepting :: bool
  maintenance_armed :: bool
  udp :: udp_transport
  has_sink :: bool
  sink_calls :: "sink_call list"
  consecutive_failed :: "(peer_id \<times> nat) list"
  mgr_uuid_count :: nat
  undefined_behaviour :: bool

type_synonym future = "nat \<times> nat"

type_synonym connect_result = "string + peer_id"

definition call_sink :: "sink_call \<Rightarrow> rpc_manager \<Rightarrow> rpc_manager" where
  "call_sink x s = (if has_sink s then s\<lparr>sink_calls := sink_calls s @ [x]\<rparr> else s)"

definition mgr_uuid :: "mesh_lib \<Rightarrow> rpc_manager \<Rightarrow> bytes \<times> rpc_manager" where
  "mgr_uuid L s = (uuid L (mgr_uuid_count s), s\<lparr>mgr_uuid_count := Suc (mgr_uuid_count s)\<rparr>)"

definition conn_at :: "nat \<Rightarrow> rpc_manager \<Rightarrow> rpc_connection" where
  "conn_at a s = the (map_of (store s) a)"

definition put_conn :: "nat \<Rightarrow> rpc_connection \<Rightarrow> rpc_manager \<Rightarrow> rpc_manager" where
  "put_conn a c s = s\<lparr>store := AList.update a c (store s)\<rparr>"

section \<open>Construction and shutdown\<close>

definition run_maintenance_cycle :: "rpc_manager \<Rightarrow> rpc_manager" where
  "run_maintenance_cycle s = (if shutting_down s then s else s\<lparr>maintenance_armed := True\<rparr>)"

text \<open>\<open>ok\<close>: opening, binding and listening succeeded; otherwise the error is logged.\<close>

definition start_listening :: "bool \<Rightarrow> rpc_manager \<Rightarrow> rpc_manager" where
  "start_listening ok s = (if ok then s\<lparr>accepting := True\<rparr> else s)"

text \<open>What the operating system does when the sockets of a node are opened.\<close>

record sockets =
  udp_binds :: "u16 \<Rightarrow> string option"
  tcp_listens :: bool

definition ex_sockets :: sockets where
  "ex_sockets = \<lparr>udp_binds = (\<lambda>p. None), tcp_listens = True\<rparr>"

definition RpcManager :: "peer_id \<Rightarrow> int \<Rightarrow> bool \<Rightarrow> bool \<Rightarrow> udp_fec_options \<Rightarrow> sockets \<Rightarrow> string + rpc_manager" where
  "RpcManager peer uport sink ssl options net =
     (case UdpTransport (udp_binds net) (word_of_int uport) options of
        Inl e \<Rightarrow> Inl e
      | Inr t \<Rightarrow> Inr (start_listening (tcp_listens net) (run_maintenance_cycle
          \<lparr>mgr_peer_id = peer, mgr_udp_port = uport, mgr_ssl = ssl, store = [], next_conn = 0, starting = [],
            connections_by_peer = [], connections_by_ip = [], pending_connections = [], attempts = [], auto_connections = [],
            shutting_down = False, accepting = False, maintenance_armed = False, udp = set_on_receive t, has_sink = sink,
            sink_calls = [], consecutive_failed = [], mgr_uuid_count = 0, undefined_behaviour = False\<rparr>)))"

definition set_sink :: "bool \<Rightarrow> rpc_manager \<Rightarrow> rpc_manager" where
  "set_sink sink s = s\<lparr>has_sink := sink\<rparr>"

definition shutdown_conn :: "(future \<times> future_result) list \<times> rpc_manager \<Rightarrow> nat \<Rightarrow> (future \<times> future_result) list \<times> rpc_manager" where
  "shutdown_conn rs_s a =
     (let (rs, s) = rs_s; (rs', c) = conn_shutdown (conn_at a s) in (rs @ map (\<lambda>(f, r). ((a, f), r)) rs', put_conn a c s))"

definition mgr_shutdown :: "rpc_manager \<Rightarrow> (future \<times> future_result) list \<times> rpc_manager" where
  "mgr_shutdown s =
     (if shutting_down s then ([], s)
      else let s = s\<lparr>shutting_down := True, accepting := False, maintenance_armed := False, udp := udp_shutdown (udp s)\<rparr>;
               connections = map snd (connections_by_peer s);
               s = s\<lparr>connections_by_peer := [], connections_by_ip := [], auto_connections := []\<rparr>
           in foldl shutdown_conn ([], s) connections)"

section \<open>Connections\<close>

definition add_connection_internal :: "peer_id \<Rightarrow> nat \<Rightarrow> rpc_manager \<Rightarrow> rpc_manager" where
  "add_connection_internal peer a s =
     (let host = ip (get_remote_peer_ip (conn_at a s));
          s = (if map_of (connections_by_peer s) peer = None
               then s\<lparr>connections_by_peer := AList.update peer a (connections_by_peer s)\<rparr> else s);
          s = (if map_of (connections_by_ip s) host = None
               then s\<lparr>connections_by_ip := AList.update host a (connections_by_ip s)\<rparr> else s)
      in call_sink (PeerConnected peer) s)"

text \<open>\<^verbatim>\<open>std::make_shared<RpcConnection>\<close> and \<^verbatim>\<open>set_on_dispatch\<close>\<close>

definition make_connection :: "endpoint \<Rightarrow> endpoint \<Rightarrow> rpc_manager \<Rightarrow> nat \<times> rpc_manager" where
  "make_connection local remote s =
     (let a = next_conn s;
          c = set_on_dispatch (RpcConnection local remote (mgr_peer_id s) (mgr_udp_port s) (mgr_ssl s))
      in (a, (put_conn a c s)\<lparr>next_conn := Suc a, starting := a # starting s\<rparr>))"

text \<open>\<^verbatim>\<open>handle_connection_startup\<close> up to the wait in \<^verbatim>\<open>start\<close>, and from its result on.\<close>

definition startup_begin :: "mesh_lib \<Rightarrow> nat \<Rightarrow> bool \<Rightarrow> rpc_manager \<Rightarrow> nat option \<times> rpc_manager" where
  "startup_begin L a initiator s =
     (let (u, s) = mgr_uuid L s; (r, rs, c) = start_send L u initiator (conn_at a s); s = put_conn a c s
      in case r of Inl e \<Rightarrow> (None, s\<lparr>undefined_behaviour := True\<rparr>) | Inr f \<Rightarrow> (f, s))"

definition startup_finish :: "nat \<Rightarrow> string + peer_record \<Rightarrow> rpc_manager \<Rightarrow> connect_result \<times> rpc_manager" where
  "startup_finish a res s =
     (let s = s\<lparr>starting := removeAll a (starting s)\<rparr> in
      case res of
        Inl e \<Rightarrow> (Inl e, s)
      | Inr rec \<Rightarrow>
          (let remote_peer_id = rec_peer_id rec;
               s = put_conn a (set_remote_peer_id remote_peer_id (conn_at a s)) s
           in (Inr remote_peer_id, add_connection_internal remote_peer_id a s)))"

definition remove_connection :: "peer_id \<Rightarrow> rpc_manager \<Rightarrow> bool \<times> rpc_manager" where
  "remove_connection peer s =
     (case map_of (connections_by_peer s) peer of
        None \<Rightarrow> (False, s)
      | Some a \<Rightarrow>
          (True, call_sink (PeerDisconnected peer)
             (s\<lparr>connections_by_ip := AList.delete (ip (get_remote_peer_ip (conn_at a s))) (connections_by_ip s),
                connections_by_peer := AList.delete peer (connections_by_peer s)\<rparr>)))"

text \<open>The result is an \<^verbatim>\<open>optional\<close> of a pointer; \<open>Some None\<close> is an optional that holds a null pointer.\<close>

definition get_connection :: "peer_id \<Rightarrow> rpc_manager \<Rightarrow> nat option option" where
  "get_connection peer s =
     (case map_of (connections_by_peer s) peer of None \<Rightarrow> Some None | Some a \<Rightarrow> Some (Some a))"

section \<open>Incoming and outgoing messages\<close>

definition on_udp_receive :: "rpc_manager \<Rightarrow> endpoint \<times> bytes \<Rightarrow> rpc_manager" where
  "on_udp_receive s eb =
     (case map_of (connections_by_ip s) (fst (fst eb)) of
        None \<Rightarrow> s
      | Some a \<Rightarrow> call_sink (PushData (get_remote_peer_id (conn_at a s)) (snd eb)) s)"

definition udp_datagram :: "endpoint \<Rightarrow> receive_result \<Rightarrow> rpc_manager \<Rightarrow> rpc_manager" where
  "udp_datagram ep r s = (let (out, t) = on_receive_from ep r (udp s) in foldl on_udp_receive (s\<lparr>udp := t\<rparr>) out)"

definition dispatch_message :: "mesh_lib \<Rightarrow> nat \<Rightarrow> envelope \<Rightarrow> rpc_manager \<Rightarrow> (future \<times> future_result) list \<times> rpc_manager" where
  "dispatch_message L a env s =
     (if env_type env = HANDSHAKE \<or> env_type env = HEARTBEAT
      then let (u, s) = mgr_uuid L s;
               (e, rs, c) = (if env_type env = HANDSHAKE then HandshakeHandler L u env (conn_at a s) else HeartbeatHandler L u env (conn_at a s));
               s = put_conn a c s
           in (map (\<lambda>(f, r). ((a, f), r)) rs, if e = None then s else s\<lparr>undefined_behaviour := True\<rparr>)
      else if env_type env = DATA then ([], call_sink (PushData (get_remote_peer_id (conn_at a s)) (env_payload env)) s)
      else ([], s))"

text \<open>A message the session of connection \<open>a\<close> has read.\<close>

definition conn_received :: "mesh_lib \<Rightarrow> nat \<Rightarrow> bytes \<Rightarrow> bytes \<Rightarrow> rpc_manager \<Rightarrow> (future \<times> future_result) list \<times> rpc_manager" where
  "conn_received L a mid payload s =
     (let (d, rs, c) = on_message L mid payload (conn_at a s); s = put_conn a c s; rs = map (\<lambda>(f, r). ((a, f), r)) rs
      in case d of None \<Rightarrow> (rs, s) | Some env \<Rightarrow> (let (rs', s) = dispatch_message L a env s in (rs @ rs', s)))"

definition send_tcp_message :: "mesh_lib \<Rightarrow> peer_id \<Rightarrow> envelope \<Rightarrow> rpc_manager
    \<Rightarrow> (send_error + future) \<times> (future \<times> future_result) list \<times> rpc_manager" where
  "send_tcp_message L peer env s =
     (case map_of (connections_by_peer s) peer of
        None \<Rightarrow> (Inl INVALID_PEER, [], s)
      | Some a \<Rightarrow>
          (let (r, rs, c) = send_message L env (conn_at a s); s = put_conn a c s; rs = map (\<lambda>(f, r). ((a, f), r)) rs
           in case r of Inl e \<Rightarrow> (Inr (a, 0), rs, s\<lparr>undefined_behaviour := True\<rparr>) | Inr f \<Rightarrow> (Inr (a, f), rs, s)))"

definition send_udp_message :: "mesh_lib \<Rightarrow> peer_id \<Rightarrow> routed_packet \<Rightarrow> rpc_manager \<Rightarrow> (send_error + unit) \<times> rpc_manager" where
  "send_udp_message L peer pkt s =
     (case map_of (connections_by_peer s) peer of
        None \<Rightarrow> (Inl INVALID_PEER, s)
      | Some a \<Rightarrow> (Inr (), s\<lparr>udp := udp_send_packet L (remote_udp_endpoint (conn_at a s)) pkt (udp s)\<rparr>))"

section \<open>Connecting\<close>

text \<open>
  \<^verbatim>\<open>complete\<close> of attempt \<open>n\<close>: the calls of the connect callback come first.  The exchange of the flag and the erasure of the address,
  which takes the lock, are one step: another thread that looks at the table in between finds the address as it was before the step.
\<close>

definition complete_attempt :: "nat \<Rightarrow> connect_result \<Rightarrow> rpc_manager
    \<Rightarrow> (nat \<times> connect_result) list \<times> (future \<times> future_result) list \<times> rpc_manager" where
  "complete_attempt n res s =
     (let att = attempts s ! n in
      if att_completed att then ([], [], s)
      else let s = s\<lparr>attempts := (attempts s)[n := att\<lparr>att_completed := True\<rparr>]\<rparr>;
               (rs, s) = (case (res, att_conn att) of (Inl e, Some a) \<Rightarrow> shutdown_conn ([], s) a | _ \<Rightarrow> ([], s))
           in ([(n, res)], rs, s\<lparr>pending_connections := removeAll (att_key att) (pending_connections s)\<rparr>))"

definition connect_async :: "string \<Rightarrow> int \<Rightarrow> rpc_manager \<Rightarrow> (nat \<times> connect_result) list \<times> rpc_manager" where
  "connect_async host port s =
     (let key = host @ '':'' @ to_string port; n = length (attempts s) in
      if key \<in> set (pending_connections s) \<or> map_of (connections_by_ip s) host \<noteq> None
      then ([(n, Inl ''connection already pending or active'')],
            s\<lparr>attempts := attempts s @ [\<lparr>att_key = key, att_completed = True, att_conn = None\<rparr>]\<rparr>)
      else ([], s\<lparr>pending_connections := key # pending_connections s,
                  attempts := attempts s @ [\<lparr>att_key = key, att_completed = False, att_conn = None\<rparr>]\<rparr>))"

definition on_connect_timer :: "nat \<Rightarrow> bool \<Rightarrow> rpc_manager
    \<Rightarrow> (nat \<times> connect_result) list \<times> (future \<times> future_result) list \<times> rpc_manager" where
  "on_connect_timer n aborted s = (if aborted then ([], [], s) else complete_attempt n (Inl ''connect timed out'') s)"

definition on_resolved :: "nat \<Rightarrow> string option \<Rightarrow> rpc_manager
    \<Rightarrow> (nat \<times> connect_result) list \<times> (future \<times> future_result) list \<times> rpc_manager" where
  "on_resolved n ec s =
     (if att_completed (attempts s ! n) then ([], [], s)
      else case ec of Some e \<Rightarrow> complete_attempt n (Inl (''resolve failed: '' @ e)) s | None \<Rightarrow> ([], [], s))"

text \<open>The new connection, if any, whose startup thread is spawned comes first.\<close>

definition on_tcp_connected :: "nat \<Rightarrow> string + endpoint \<times> endpoint \<Rightarrow> rpc_manager
    \<Rightarrow> nat option \<times> (nat \<times> connect_result) list \<times> (future \<times> future_result) list \<times> rpc_manager" where
  "on_tcp_connected n ec s =
     (if att_completed (attempts s ! n) then (None, [], [], s)
      else case ec of
             Inl e \<Rightarrow> (None, complete_attempt n (Inl (''tcp connect failed: '' @ e)) s)
           | Inr (local, remote) \<Rightarrow>
               (let (a, s) = make_connection local remote s
                in (Some a, [], [], s\<lparr>attempts := (attempts s)[n := (attempts s ! n)\<lparr>att_conn := Some a\<rparr>]\<rparr>)))"

text \<open>The handler of \<^verbatim>\<open>async_accept\<close>.\<close>

datatype accept_result_code = AcceptAborted | AcceptFailed | Accepted "(endpoint \<times> endpoint) option"

definition on_accept :: "accept_result_code \<Rightarrow> rpc_manager \<Rightarrow> nat option \<times> rpc_manager" where
  "on_accept r s =
     (let s = s\<lparr>accepting := False\<rparr> in
      if shutting_down s then (None, s)
      else case r of
             AcceptAborted \<Rightarrow> (None, s)
           | AcceptFailed \<Rightarrow> (None, s\<lparr>accepting := True\<rparr>)
           | Accepted None \<Rightarrow> (None, s\<lparr>accepting := True\<rparr>)
           | Accepted (Some (local, remote)) \<Rightarrow> (let (a, s) = make_connection local remote s in (Some a, s\<lparr>accepting := True\<rparr>)))"

section \<open>Automatic connections\<close>

definition same_address :: "peer_ip \<Rightarrow> peer_ip \<Rightarrow> bool" where
  "same_address a b \<longleftrightarrow> ip a = ip b \<and> tcp_port a = tcp_port b"

definition add_auto_connection :: "peer_ip \<Rightarrow> rpc_manager \<Rightarrow> rpc_manager" where
  "add_auto_connection rec s =
     (if list_ex (same_address rec) (auto_connections s) then s else s\<lparr>auto_connections := auto_connections s @ [rec]\<rparr>)"

fun remove_first :: "('a \<Rightarrow> bool) \<Rightarrow> 'a list \<Rightarrow> 'a list" where
  "remove_first P [] = []"
| "remove_first P (x # xs) = (if P x then xs else x # remove_first P xs)"

definition remove_auto_connection :: "peer_ip \<Rightarrow> rpc_manager \<Rightarrow> rpc_manager" where
  "remove_auto_connection rec s = s\<lparr>auto_connections := remove_first (same_address rec) (auto_connections s)\<rparr>"

definition missing_targets :: "rpc_manager \<Rightarrow> peer_ip list" where
  "missing_targets s = filter (\<lambda>t. \<not> (map_of (connections_by_ip s) (ip t) \<noteq> None \<or>
     ip t @ '':'' @ to_string (tcp_port t) \<in> set (pending_connections s))) (auto_connections s)"

definition check_for_auto_connections_locked :: "rpc_manager \<Rightarrow> (nat \<times> connect_result) list \<times> rpc_manager" where
  "check_for_auto_connections_locked s =
     (if shutting_down s then ([], s)
      else foldl (\<lambda>(out, s) t. let (out', s) = connect_async (ip t) (tcp_port t) s in (out @ out', s)) ([], s) (missing_targets s))"

definition on_maintenance_timer :: "bool \<Rightarrow> rpc_manager \<Rightarrow> (nat \<times> connect_result) list \<times> rpc_manager" where
  "on_maintenance_timer aborted s =
     (let s = s\<lparr>maintenance_armed := False\<rparr> in
      if shutting_down s then ([], s)
      else if aborted then ([], s)
      else let (out, s) = check_for_auto_connections_locked s in (out, run_maintenance_cycle s))"

section \<open>Heartbeats\<close>

text \<open>One round of \<^verbatim>\<open>send_heartbeats\<close>: sending, and, once the futures have their results, counting.\<close>

definition keepalive_packet :: "peer_id \<Rightarrow> bytes \<Rightarrow> peer_id \<Rightarrow> routed_packet" where
  "keepalive_packet self u peer = MakeBinaryRoutedPacket u self peer 1 ''mesh.Heartbeat'' UDP [] False"

definition heartbeat_to :: "mesh_lib \<Rightarrow> (peer_id \<times> future) list \<times> rpc_manager \<Rightarrow> peer_id \<Rightarrow> (peer_id \<times> future) list \<times> rpc_manager" where
  "heartbeat_to L fs_s peer =
     (let (fs, s) = fs_s in
      if shutting_down s then (fs, s)
      else case map_of (connections_by_peer s) peer of
             None \<Rightarrow> (fs, s)
           | Some a \<Rightarrow>
               (let (u, s) = mgr_uuid L s; c = conn_at a s;
                    (r, rs, c) = send_message L (MakeHeartbeatRequest u (get_local_peer_ip c) (get_remote_peer_ip c)) c;
                    s = put_conn a c s;
                    (fs, s) = (case r of Inl e \<Rightarrow> (fs, s\<lparr>undefined_behaviour := True\<rparr>) | Inr f \<Rightarrow> (fs @ [(peer, a, f)], s))
                in if snd (remote_udp_endpoint c) \<noteq> 0
                   then let (u, s) = mgr_uuid L s
                        in (fs, s\<lparr>udp := udp_send_packet L (remote_udp_endpoint c) (keepalive_packet (mgr_peer_id s) u peer) (udp s)\<rparr>)
                   else (fs, s)))"

definition heartbeat_send :: "mesh_lib \<Rightarrow> rpc_manager \<Rightarrow> (peer_id \<times> future) list \<times> rpc_manager" where
  "heartbeat_send L s =
     (if shutting_down s then ([], s) else foldl (heartbeat_to L) ([], s) (map fst (connections_by_peer s)))"

definition heartbeat_result :: "rpc_manager \<Rightarrow> peer_id \<times> bool \<Rightarrow> rpc_manager" where
  "heartbeat_result s pr =
     (let (peer, ok) = pr in
      if shutting_down s then s
      else if ok
      then if map_of (consecutive_failed s) peer = None
           then s\<lparr>consecutive_failed := AList.update peer 0 (consecutive_failed s)\<rparr> else s
      else let current_failures = Suc (case map_of (consecutive_failed s) peer of None \<Rightarrow> 0 | Some n \<Rightarrow> n);
               s = s\<lparr>consecutive_failed := AList.update peer current_failures (consecutive_failed s)\<rparr>
           in if current_failures \<ge> MAX_HEARTBEAT_FAILURES
              then s\<lparr>connections_by_peer := AList.delete peer (connections_by_peer s),
                     consecutive_failed := AList.delete peer (consecutive_failed s)\<rparr>
              else s)"

definition heartbeat_collect :: "(peer_id \<times> bool) list \<Rightarrow> rpc_manager \<Rightarrow> rpc_manager" where
  "heartbeat_collect results s = foldl heartbeat_result s results"

end
