(* ===== verification/Rpc_Manager_Inv.thy ===== *)
theory Rpc_Manager_Inv
  imports Rpc_Manager Async_Timers
begin

text \<open>
  The steps of the connection manager and their invariant: the maps lead to connections of the
  right peer and address, and the set of pending connections is the set of the addresses of
  unfinished attempts.
\<close>

section \<open>What connections keep\<close>

definition same_identity :: "rpc_connection \<Rightarrow> rpc_connection \<Rightarrow> bool" where
  "same_identity c d \<longleftrightarrow> authenticated_remote_id c = authenticated_remote_id d \<and> remote_endpoint c = remote_endpoint d"

lemma same_identity_refl [simp]: "same_identity c c"
  by (simp add: same_identity_def)

lemma same_identity_trans: "same_identity a b \<Longrightarrow> same_identity b c \<Longrightarrow> same_identity a c"
  by (simp add: same_identity_def)

lemma conn_shutdown_identity: "same_identity (snd (conn_shutdown c)) c"
  by (simp add: conn_shutdown_def same_identity_def)

lemma put_pending_identity: "same_identity (snd (put_pending r f c)) c"
  by (auto simp: put_pending_def same_identity_def Let_def case_prod_unfold split: option.split)

lemma async_send_identity: "async_send_message r m c = Inr c' \<Longrightarrow> same_identity c' c"
  by (auto simp: async_send_message_def same_identity_def split: option.splits sum.splits)

lemma send_message_identity: "same_identity (snd (snd (send_message L env c))) c"
proof -
  let ?c = "c\<lparr>next_future := Suc (next_future c)\<rparr>"
  obtain rs c1 where c1: "(if env_expect_response (addressed env c) then put_pending (msg_id (addressed env c)) (next_future c) ?c
      else ([(next_future c, Value [])], ?c)) = (rs, c1)" by force
  have "same_identity c1 c"
    using put_pending_identity [of "msg_id (addressed env c)" "next_future c" ?c] c1 by (auto simp: same_identity_def split: if_splits)
  then show ?thesis using c1
    by (auto simp: send_message_def Let_def intro: same_identity_trans [OF async_send_identity] split: sum.split)
qed

lemma on_message_identity: "same_identity (snd (snd (on_message L mid p c))) c"
  by (auto simp: on_message_def store_response_def same_identity_def Let_def case_prod_unfold split: option.split)

lemma on_rpc_timer_identity: "same_identity (snd (on_rpc_timer r ab c)) c"
  by (auto simp: on_rpc_timer_def same_identity_def split: option.split)

lemma start_send_identity: "same_identity (snd (snd (start_send L u i c))) c"
proof -
  have "same_identity (open_session i c) c" by (simp add: open_session_def same_identity_def)
  moreover from same_identity_trans [OF send_message_identity this] have "same_identity (snd (snd (send_message L env (open_session i c)))) c" for env .
  ultimately show ?thesis by (auto simp: start_send_def Let_def case_prod_unfold)
qed

lemma HeartbeatHandler_identity: "same_identity (snd (snd (HeartbeatHandler L u env c))) c"
  using send_message_identity by (auto simp: HeartbeatHandler_def Let_def case_prod_unfold)

lemma HandshakeHandler_identity: "same_identity (snd (snd (HandshakeHandler L u env c))) c"
proof (cases "parse_handshake L (env_payload env)")
  case (Some req)
  let ?c = "c\<lparr>remote_udp_endpoint := (fst (remote_endpoint c), word_of_int (udp_port (rec_peer_ip (hs_peer_record req))))\<rparr>"
  obtain r rs c' where s: "send_message L ((MakeHandshakeResponse L u (get_local_peer_ip ?c) (env_from env) (get_self_peer_id ?c))\<lparr>msg_id := msg_id env\<rparr>) ?c = (r, rs, c')"
    by (metis prod_cases3)
  have "same_identity c' c" using send_message_identity [of L "(MakeHandshakeResponse L u (get_local_peer_ip ?c) (env_from env) (get_self_peer_id ?c))\<lparr>msg_id := msg_id env\<rparr>" ?c] s
    by (simp add: same_identity_def)
  moreover have "same_identity (fulfill_handshake_promise rec c') c'" for rec
    by (simp add: fulfill_handshake_promise_def same_identity_def split: option.split)
  ultimately show ?thesis using Some s by (auto simp: HandshakeHandler_def Let_def intro: same_identity_trans split: sum.split)
qed (simp add: HandshakeHandler_def)

section \<open>What steps keep of the manager\<close>

text \<open>The maps and the attempts are the same, and every connection keeps its identity.\<close>

definition mgr_frame :: "rpc_manager \<Rightarrow> rpc_manager \<Rightarrow> bool" where
  "mgr_frame s s' \<longleftrightarrow> connections_by_peer s' = connections_by_peer s \<and> connections_by_ip s' = connections_by_ip s \<and>
     pending_connections s' = pending_connections s \<and> attempts s' = attempts s \<and> next_conn s' = next_conn s \<and> starting s' = starting s \<and>
     (\<forall>a. rel_option same_identity (map_of (store s') a) (map_of (store s) a))"

lemma rel_identity_refl [simp]: "rel_option same_identity x x"
  by (cases x) simp_all

lemma rel_identity_trans: "rel_option same_identity x y \<Longrightarrow> rel_option same_identity y z \<Longrightarrow> rel_option same_identity x z"
  by (cases x; cases y; cases z) (auto intro: same_identity_trans)

lemma mgr_frame_refl [simp]: "mgr_frame s s"
  by (simp add: mgr_frame_def)

lemma mgr_frame_trans: "mgr_frame s t \<Longrightarrow> mgr_frame t u \<Longrightarrow> mgr_frame s u"
  unfolding mgr_frame_def using rel_identity_trans by metis

lemma mgr_frame_fields [simp]:
  "mgr_frame s (s\<lparr>udp := t\<rparr>)" "mgr_frame s (s\<lparr>undefined_behaviour := b\<rparr>)" "mgr_frame s (s\<lparr>mgr_uuid_count := n\<rparr>)"
  "mgr_frame s (s\<lparr>has_sink := b\<rparr>)" "mgr_frame s (s\<lparr>auto_connections := l\<rparr>)" "mgr_frame s (s\<lparr>accepting := b\<rparr>)"
  "mgr_frame s (s\<lparr>maintenance_armed := b\<rparr>)" "mgr_frame s (s\<lparr>shutting_down := b\<rparr>)" "mgr_frame s (s\<lparr>consecutive_failed := f\<rparr>)"
  "mgr_frame s (call_sink x s)" "mgr_frame s (run_maintenance_cycle s)"
  by (simp_all add: mgr_frame_def call_sink_def run_maintenance_cycle_def)

lemma mgr_frame_put:
  assumes "map_of (store s) a = Some c" "same_identity c' c"
  shows "mgr_frame s (put_conn a c' s)"
  using assms by (simp add: mgr_frame_def put_conn_def update_conv')

lemma conn_at_Some: "map_of (store s) a = Some c \<Longrightarrow> conn_at a s = c"
  by (simp add: conn_at_def)

lemma mgr_frame_conn: "mgr_frame s s' \<Longrightarrow> map_of (store s) a \<noteq> None \<Longrightarrow> map_of (store s') a \<noteq> None"
  by (metis mgr_frame_def option.rel_distinct(1) not_None_eq)

lemma mgr_uuid_frame: "mgr_frame s (snd (mgr_uuid L s))"
  by (simp add: mgr_uuid_def)

lemma mgr_uuid_store [simp]: "store (snd (mgr_uuid L s)) = store s" "conn_at a (snd (mgr_uuid L s)) = conn_at a s"
  by (simp_all add: mgr_uuid_def conn_at_def)

text \<open>Replacing a connection by one with the same identity, after a draw of a UUID.\<close>

lemma put_identity_frame:
  assumes "map_of (store s) a \<noteq> None" "same_identity c' (conn_at a s)"
  shows "mgr_frame s (put_conn a c' s)"
  using assms by (auto simp: conn_at_def intro: mgr_frame_put)

lemma send_tcp_frame:
  assumes "\<forall>a. map_of (connections_by_peer s) p = Some a \<longrightarrow> map_of (store s) a \<noteq> None"
  shows "mgr_frame s (snd (snd (send_tcp_message L p env s)))"
proof (cases "map_of (connections_by_peer s) p")
  case (Some a)
  obtain r rs c where m: "send_message L env (conn_at a s) = (r, rs, c)" by (metis prod_cases3)
  have f: "mgr_frame s (put_conn a c s)"
    using assms Some send_message_identity [of L env "conn_at a s"] m by (intro put_identity_frame) auto
  then show ?thesis using Some m
    by (cases r) (auto simp: send_tcp_message_def Let_def intro: mgr_frame_trans [OF f])
qed (simp add: send_tcp_message_def)

lemma send_udp_frame: "mgr_frame s (snd (send_udp_message L p pkt s))"
  by (auto simp: send_udp_message_def split: option.split)

lemma udp_datagram_frame: "mgr_frame s (udp_datagram ep r s)"
proof -
  have one: "mgr_frame t (on_udp_receive t x)" for t x by (auto simp: on_udp_receive_def split: option.split)
  have "mgr_frame t (foldl on_udp_receive t out)" for t out
    by (induction out arbitrary: t) (auto intro: mgr_frame_trans one)
  then show ?thesis by (auto simp: udp_datagram_def split: prod.split intro: mgr_frame_trans [OF mgr_frame_fields(1)])
qed

lemma dispatch_frame:
  assumes "map_of (store s) a \<noteq> None"
  shows "mgr_frame s (snd (dispatch_message L a env s))"
proof (cases "env_type env = HANDSHAKE \<or> env_type env = HEARTBEAT")
  case True
  obtain u s1 where u: "mgr_uuid L s = (u, s1)" by force
  have s1: "mgr_frame s s1" "map_of (store s1) a \<noteq> None" using mgr_uuid_frame [of s L] mgr_uuid_store(1) [of L s] u assms by simp_all
  obtain e rs c where h: "(if env_type env = HANDSHAKE then HandshakeHandler L u env (conn_at a s1) else HeartbeatHandler L u env (conn_at a s1)) = (e, rs, c)"
    by (metis prod_cases3)
  have "same_identity c (conn_at a s1)"
    using h HandshakeHandler_identity [of L u env "conn_at a s1"] HeartbeatHandler_identity [of L u env "conn_at a s1"] by (auto split: if_splits)
  then have f: "mgr_frame s (put_conn a c s1)" using put_identity_frame [OF s1(2)] s1(1) mgr_frame_trans by blast
  then have "mgr_frame s ((put_conn a c s1)\<lparr>undefined_behaviour := True\<rparr>)" using mgr_frame_trans mgr_frame_fields(2) by blast
  then show ?thesis using True u h f by (simp add: dispatch_message_def Let_def)
qed (auto simp: dispatch_message_def)

lemma conn_received_frame:
  assumes "map_of (store s) a \<noteq> None"
  shows "mgr_frame s (snd (conn_received L a mid payload s))"
proof -
  obtain d rs c where m: "on_message L mid payload (conn_at a s) = (d, rs, c)" by (metis prod_cases3)
  let ?s = "put_conn a c s"
  have f: "mgr_frame s ?s" using on_message_identity [of L mid payload "conn_at a s"] m assms by (intro put_identity_frame) auto
  moreover have "mgr_frame ?s (snd (dispatch_message L a env ?s))" for env by (rule dispatch_frame) (use f assms mgr_frame_conn in blast)
  ultimately show ?thesis using m
    by (auto simp: conn_received_def Let_def case_prod_unfold intro: mgr_frame_trans split: option.split)
qed

lemma startup_begin_frame:
  assumes "map_of (store s) a \<noteq> None"
  shows "mgr_frame s (snd (startup_begin L a i s))"
proof -
  obtain u s1 where u: "mgr_uuid L s = (u, s1)" by force
  have s1: "mgr_frame s s1" "map_of (store s1) a \<noteq> None" using mgr_uuid_frame [of s L] mgr_uuid_store(1) [of L s] u assms by simp_all
  obtain r rs c where h: "start_send L u i (conn_at a s1) = (r, rs, c)" by (metis prod_cases3)
  have f: "mgr_frame s (put_conn a c s1)"
    using start_send_identity [of L u i "conn_at a s1"] h put_identity_frame [OF s1(2)] s1(1) mgr_frame_trans by (metis snd_conv)
  then have "mgr_frame s ((put_conn a c s1)\<lparr>undefined_behaviour := True\<rparr>)" using mgr_frame_trans mgr_frame_fields(2) by blast
  then show ?thesis using u h f by (cases r) (simp_all add: startup_begin_def Let_def)
qed

lemma shutdown_conn_frame:
  assumes "map_of (store (snd x)) a \<noteq> None"
  shows "mgr_frame (snd x) (snd (shutdown_conn x a))"
  using conn_shutdown_identity [of "conn_at a (snd x)"] put_identity_frame [OF assms]
  by (auto simp: shutdown_conn_def Let_def case_prod_unfold)

lemma shutdown_conns_frame:
  "\<forall>a\<in>set as. map_of (store (snd x)) a \<noteq> None \<Longrightarrow> mgr_frame (snd x) (snd (foldl shutdown_conn x as))"
proof (induction as arbitrary: x)
  case (Cons a as)
  then have f: "mgr_frame (snd x) (snd (shutdown_conn x a))" by (intro shutdown_conn_frame) simp
  then have "\<forall>b\<in>set as. map_of (store (snd (shutdown_conn x a))) b \<noteq> None" using Cons.prems mgr_frame_conn by (metis list.set_intros(2))
  then show ?case using Cons.IH mgr_frame_trans [OF f] by simp
qed simp

lemma heartbeat_to_frame:
  assumes "\<forall>p a. map_of (connections_by_peer (snd x)) p = Some a \<longrightarrow> map_of (store (snd x)) a \<noteq> None"
  shows "mgr_frame (snd x) (snd (heartbeat_to L x peer))"
proof (cases "shutting_down (snd x) \<or> map_of (connections_by_peer (snd x)) peer = None")
  case True
  then show ?thesis by (auto simp: heartbeat_to_def Let_def case_prod_unfold)
next
  case False
  obtain fs s where x: "x = (fs, s)" by force
  from False x obtain a where a: "\<not> shutting_down s" "map_of (connections_by_peer s) peer = Some a" by auto
  obtain u s1 where u: "mgr_uuid L s = (u, s1)" by force
  have s1: "mgr_frame s s1" "map_of (store s1) a \<noteq> None" "conn_at a s1 = conn_at a s"
    using mgr_uuid_frame [of s L] mgr_uuid_store(1) [of L s] mgr_uuid_store(2) [of a L s] u assms a(2) x by auto
  obtain r rs c where m: "send_message L (MakeHeartbeatRequest u (get_local_peer_ip (conn_at a s)) (get_remote_peer_ip (conn_at a s))) (conn_at a s) = (r, rs, c)"
    by (metis prod_cases3)
  have f: "mgr_frame s (put_conn a c s1)"
    using send_message_identity [of L _ "conn_at a s"] m put_identity_frame [OF s1(2)] s1(1,3) mgr_frame_trans by (metis snd_conv)
  obtain fs2 s2 where s2: "(case r of Inl e \<Rightarrow> (fs, (put_conn a c s1)\<lparr>undefined_behaviour := True\<rparr>) | Inr f \<Rightarrow> (fs @ [(peer, a, f)], put_conn a c s1)) = (fs2, s2)" by force
  then have f2: "mgr_frame s s2" using f mgr_frame_trans [OF f mgr_frame_fields(2)] by (auto split: sum.splits)
  obtain v s3 where v: "mgr_uuid L s2 = (v, s3)" by force
  have "mgr_frame s (s3\<lparr>udp := t\<rparr>)" for t
    using mgr_uuid_frame [of s2 L] v f2 mgr_frame_trans mgr_frame_fields(1) by (metis snd_conv)
  then show ?thesis using x a u m s1(3) s2 f2 v by (simp add: heartbeat_to_def Let_def)
qed

section \<open>The invariant\<close>

definition open_attempts :: "rpc_manager \<Rightarrow> connect_attempt list" where
  "open_attempts s = filter (\<lambda>att. \<not> att_completed att) (attempts s)"

definition manager_inv :: "rpc_manager \<Rightarrow> bool" where
  "manager_inv s \<longleftrightarrow> distinct (map fst (connections_by_peer s)) \<and> distinct (map fst (connections_by_ip s)) \<and>
     (\<forall>p a. map_of (connections_by_peer s) p = Some a \<longrightarrow>
        (\<exists>c. map_of (store s) a = Some c \<and> authenticated_remote_id c = p) \<and> a \<notin> set (starting s)) \<and>
     (\<forall>h a. map_of (connections_by_ip s) h = Some a \<longrightarrow>
        (\<exists>c. map_of (store s) a = Some c \<and> fst (remote_endpoint c) = h) \<and> a \<notin> set (starting s)) \<and>
     (\<forall>a. map_of (store s) a \<noteq> None \<longrightarrow> a < next_conn s) \<and> (\<forall>a\<in>set (starting s). map_of (store s) a \<noteq> None) \<and>
     (\<forall>att\<in>set (attempts s). \<forall>a. att_conn att = Some a \<longrightarrow> map_of (store s) a \<noteq> None) \<and>
     set (pending_connections s) = att_key ` set (open_attempts s) \<and> distinct (map att_key (open_attempts s))"

lemma manager_invD:
  assumes "manager_inv s"
  shows "distinct (map fst (connections_by_peer s))" "distinct (map fst (connections_by_ip s))"
    "map_of (connections_by_peer s) p = Some a \<Longrightarrow> \<exists>c. map_of (store s) a = Some c \<and> authenticated_remote_id c = p"
    "map_of (connections_by_peer s) p = Some a \<Longrightarrow> a \<notin> set (starting s)"
    "map_of (connections_by_ip s) h = Some a \<Longrightarrow> \<exists>c. map_of (store s) a = Some c \<and> fst (remote_endpoint c) = h"
    "map_of (connections_by_ip s) h = Some a \<Longrightarrow> a \<notin> set (starting s)"
    "map_of (store s) a \<noteq> None \<Longrightarrow> a < next_conn s" "a \<in> set (starting s) \<Longrightarrow> map_of (store s) a \<noteq> None"
    "att \<in> set (attempts s) \<Longrightarrow> att_conn att = Some a \<Longrightarrow> map_of (store s) a \<noteq> None"
    "set (pending_connections s) = att_key ` set (open_attempts s)" "distinct (map att_key (open_attempts s))"
proof -
  from assms have h: "distinct (map fst (connections_by_peer s))" "distinct (map fst (connections_by_ip s))"
     "\<forall>p a. map_of (connections_by_peer s) p = Some a \<longrightarrow>
        (\<exists>c. map_of (store s) a = Some c \<and> authenticated_remote_id c = p) \<and> a \<notin> set (starting s)"
     "\<forall>h a. map_of (connections_by_ip s) h = Some a \<longrightarrow>
        (\<exists>c. map_of (store s) a = Some c \<and> fst (remote_endpoint c) = h) \<and> a \<notin> set (starting s)"
     "\<forall>a. map_of (store s) a \<noteq> None \<longrightarrow> a < next_conn s" "\<forall>a\<in>set (starting s). map_of (store s) a \<noteq> None"
     "\<forall>att\<in>set (attempts s). \<forall>a. att_conn att = Some a \<longrightarrow> map_of (store s) a \<noteq> None"
     "set (pending_connections s) = att_key ` set (open_attempts s)" "distinct (map att_key (open_attempts s))"
    unfolding manager_inv_def by - (elim conjE, assumption)+
  show "distinct (map fst (connections_by_peer s))" "distinct (map fst (connections_by_ip s))"
    "set (pending_connections s) = att_key ` set (open_attempts s)" "distinct (map att_key (open_attempts s))" by (fact h)+
  show "map_of (connections_by_peer s) p = Some a \<Longrightarrow> \<exists>c. map_of (store s) a = Some c \<and> authenticated_remote_id c = p"
    "map_of (connections_by_peer s) p = Some a \<Longrightarrow> a \<notin> set (starting s)" using h(3) by blast+
  show "map_of (connections_by_ip s) h = Some a \<Longrightarrow> \<exists>c. map_of (store s) a = Some c \<and> fst (remote_endpoint c) = h"
    "map_of (connections_by_ip s) h = Some a \<Longrightarrow> a \<notin> set (starting s)" using h(4) by blast+
  show "map_of (store s) a \<noteq> None \<Longrightarrow> a < next_conn s" "a \<in> set (starting s) \<Longrightarrow> map_of (store s) a \<noteq> None"
    using h(5,6) by blast+
  show "att \<in> set (attempts s) \<Longrightarrow> att_conn att = Some a \<Longrightarrow> map_of (store s) a \<noteq> None" using h(7) by blast
qed

lemma manager_invI:
  assumes "distinct (map fst (connections_by_peer s))" "distinct (map fst (connections_by_ip s))"
    "\<And>p a. map_of (connections_by_peer s) p = Some a \<Longrightarrow> (\<exists>c. map_of (store s) a = Some c \<and> authenticated_remote_id c = p) \<and> a \<notin> set (starting s)"
    "\<And>h a. map_of (connections_by_ip s) h = Some a \<Longrightarrow> (\<exists>c. map_of (store s) a = Some c \<and> fst (remote_endpoint c) = h) \<and> a \<notin> set (starting s)"
    "\<And>a. map_of (store s) a \<noteq> None \<Longrightarrow> a < next_conn s" "\<And>a. a \<in> set (starting s) \<Longrightarrow> map_of (store s) a \<noteq> None"
    "\<And>att a. att \<in> set (attempts s) \<Longrightarrow> att_conn att = Some a \<Longrightarrow> map_of (store s) a \<noteq> None"
    "set (pending_connections s) = att_key ` set (open_attempts s)" "distinct (map att_key (open_attempts s))"
  shows "manager_inv s"
  unfolding manager_inv_def by (intro conjI allI ballI impI) (use assms in \<open>blast | simp\<close>)+

lemma frame_rel:
  assumes "mgr_frame s s'"
  shows "map_of (store s) a = Some c \<Longrightarrow> \<exists>c'. map_of (store s') a = Some c' \<and> same_identity c' c"
    "map_of (store s') a \<noteq> None \<longleftrightarrow> map_of (store s) a \<noteq> None"
proof -
  have r: "rel_option same_identity (map_of (store s') a) (map_of (store s) a)" using assms by (simp add: mgr_frame_def)
  then show "map_of (store s) a = Some c \<Longrightarrow> \<exists>c'. map_of (store s') a = Some c' \<and> same_identity c' c"
    by (cases "map_of (store s') a") auto
  show "map_of (store s') a \<noteq> None \<longleftrightarrow> map_of (store s) a \<noteq> None" using r by (cases "map_of (store s') a"; cases "map_of (store s) a") auto
qed

lemma manager_inv_frame:
  assumes inv: "manager_inv s" and f: "mgr_frame s s'"
  shows "manager_inv s'"
proof -
  have e: "connections_by_peer s' = connections_by_peer s" "connections_by_ip s' = connections_by_ip s"
      "pending_connections s' = pending_connections s" "attempts s' = attempts s" "next_conn s' = next_conn s" "starting s' = starting s"
    using f by (simp_all add: mgr_frame_def)
  show ?thesis
  proof (rule manager_invI)
    fix p a assume "map_of (connections_by_peer s') p = Some a"
    then have h: "map_of (connections_by_peer s) p = Some a" by (simp add: e)
    from manager_invD(3) [OF inv h] obtain c where "map_of (store s) a = Some c" "authenticated_remote_id c = p" by blast
    then show "(\<exists>c. map_of (store s') a = Some c \<and> authenticated_remote_id c = p) \<and> a \<notin> set (starting s')"
      using frame_rel(1) [OF f] manager_invD(4) [OF inv h] by (fastforce simp: e same_identity_def)
  next
    fix p a assume "map_of (connections_by_ip s') p = Some a"
    then have h: "map_of (connections_by_ip s) p = Some a" by (simp add: e)
    from manager_invD(5) [OF inv h] obtain c where "map_of (store s) a = Some c" "fst (remote_endpoint c) = p" by blast
    then show "(\<exists>c. map_of (store s') a = Some c \<and> fst (remote_endpoint c) = p) \<and> a \<notin> set (starting s')"
      using frame_rel(1) [OF f] manager_invD(6) [OF inv h] by (fastforce simp: e same_identity_def)
  next
    fix att a assume "att \<in> set (attempts s')" "att_conn att = Some a"
    then show "map_of (store s') a \<noteq> None" using manager_invD(9) [OF inv] frame_rel(2) [OF f] by (simp only: e) blast
  qed (use manager_invD(1,2,7,8,10,11) [OF inv] frame_rel(2) [OF f] in \<open>simp_all add: e open_attempts_def\<close>)
qed

section \<open>Operations that change the maps\<close>

lemma make_connection_inv:
  assumes inv: "manager_inv s" and m: "make_connection l r s = (a, s')"
  shows "manager_inv s' \<and> a = next_conn s \<and> attempts s' = attempts s \<and> map_of (store s') a \<noteq> None"
proof -
  define c where "c = set_on_dispatch (RpcConnection l r (mgr_peer_id s) (mgr_udp_port s) (mgr_ssl s))"
  have a: "a = next_conn s" and s': "s' = (put_conn a c s)\<lparr>next_conn := Suc a, starting := a # starting s\<rparr>"
    using m by (auto simp: make_connection_def Let_def c_def)
  have st: "map_of (store s') b = (if b = a then Some c else map_of (store s) b)" for b by (simp add: s' put_conn_def update_conv')
  have f: "map_of (store s) a = None" using manager_invD(7) [OF inv, of a] a by (cases "map_of (store s) a") auto
  have e: "connections_by_peer s' = connections_by_peer s" "connections_by_ip s' = connections_by_ip s" "attempts s' = attempts s"
      "pending_connections s' = pending_connections s" "next_conn s' = Suc a" "starting s' = a # starting s"
    by (simp_all add: s' put_conn_def)
  have "manager_inv s'"
  proof (rule manager_invI)
    fix p b assume "map_of (connections_by_peer s') p = Some b"
    then have h: "map_of (connections_by_peer s) p = Some b" by (simp add: e)
    then have "b \<noteq> a" using manager_invD(3) [OF inv h] f by auto
    then show "(\<exists>c. map_of (store s') b = Some c \<and> authenticated_remote_id c = p) \<and> b \<notin> set (starting s')"
      using manager_invD(3,4) [OF inv h] by (simp add: st e)
  next
    fix p b assume "map_of (connections_by_ip s') p = Some b"
    then have h: "map_of (connections_by_ip s) p = Some b" by (simp add: e)
    then have "b \<noteq> a" using manager_invD(5) [OF inv h] f by auto
    then show "(\<exists>c. map_of (store s') b = Some c \<and> fst (remote_endpoint c) = p) \<and> b \<notin> set (starting s')"
      using manager_invD(5,6) [OF inv h] by (simp add: st e)
  next
    fix b assume "map_of (store s') b \<noteq> None"
    then show "b < next_conn s'" using manager_invD(7) [OF inv, of b] a by (auto simp: st e split: if_splits)
  next
    fix b assume "b \<in> set (starting s')"
    then show "map_of (store s') b \<noteq> None" using manager_invD(8) [OF inv, of b] by (auto simp: st e)
  next
    fix att b assume "att \<in> set (attempts s')" "att_conn att = Some b"
    then show "map_of (store s') b \<noteq> None" using manager_invD(9) [OF inv, of att b] by (auto simp: st e)
  qed (use manager_invD(1,2,10,11) [OF inv] in \<open>simp_all add: e open_attempts_def\<close>)
  then show ?thesis using a e st by simp
qed

lemma manager_inv_starting:
  "manager_inv s \<Longrightarrow> manager_inv (s\<lparr>starting := removeAll a (starting s)\<rparr>)"
  by (rule manager_invI) (auto simp: open_attempts_def dest: manager_invD)

lemma call_sink_fields [simp]:
  "connections_by_peer (call_sink x s) = connections_by_peer s" "connections_by_ip (call_sink x s) = connections_by_ip s"
  "store (call_sink x s) = store s" "attempts (call_sink x s) = attempts s" "starting (call_sink x s) = starting s"
  "pending_connections (call_sink x s) = pending_connections s" "next_conn (call_sink x s) = next_conn s"
  "shutting_down (call_sink x s) = shutting_down s" "auto_connections (call_sink x s) = auto_connections s"
  "consecutive_failed (call_sink x s) = consecutive_failed s" "udp (call_sink x s) = udp s"
  by (simp_all add: call_sink_def)

text \<open>A connection that nothing refers to yet gets its identity and is entered into the maps.\<close>

lemma add_connection_inv:
  assumes inv: "manager_inv s" and a: "map_of (store s) a = Some c" "authenticated_remote_id c = p" "a \<notin> set (starting s)"
  shows "manager_inv (add_connection_internal p a s) \<and> attempts (add_connection_internal p a s) = attempts s"
proof -
  let ?h = "ip (get_remote_peer_ip (conn_at a s))"
  have h: "?h = fst (remote_endpoint c)" using a(1) by (simp add: conn_at_def get_remote_peer_ip_def)
  define s1 where "s1 = (if map_of (connections_by_peer s) p = None then s\<lparr>connections_by_peer := AList.update p a (connections_by_peer s)\<rparr> else s)"
  have "manager_inv s1"
  proof (cases "map_of (connections_by_peer s) p = None")
    case True
    then show ?thesis unfolding s1_def using a manager_invD [OF inv]
      by (intro manager_invI) (auto simp: distinct_update update_conv' open_attempts_def split: if_splits)
  qed (auto simp: s1_def inv)
  moreover have e: "connections_by_ip s1 = connections_by_ip s" "store s1 = store s" "starting s1 = starting s" "attempts s1 = attempts s" by (simp_all add: s1_def)
  define s2 where "s2 = (if map_of (connections_by_ip s1) ?h = None then s1\<lparr>connections_by_ip := AList.update ?h a (connections_by_ip s1)\<rparr> else s1)"
  have "manager_inv s2"
  proof (cases "map_of (connections_by_ip s1) ?h = None")
    case True
    then show ?thesis unfolding s2_def using a e h manager_invD [OF \<open>manager_inv s1\<close>]
      by (intro manager_invI) (auto simp: distinct_update update_conv' open_attempts_def split: if_splits)
  qed (auto simp: s2_def \<open>manager_inv s1\<close>)
  moreover have "add_connection_internal p a s = call_sink (PeerConnected p) s2" by (simp add: add_connection_internal_def Let_def s1_def s2_def)
  moreover have "attempts s2 = attempts s" by (simp add: s2_def e)
  ultimately show ?thesis using manager_inv_frame [OF _ mgr_frame_fields(10)] by simp
qed

lemma put_conn_free:
  assumes inv: "manager_inv s" and a: "a \<in> set (starting s)"
  shows "manager_inv (put_conn a c s)"
proof -
  have st: "map_of (store (put_conn a c s)) b = (if b = a then Some c else map_of (store s) b)" for b by (simp add: put_conn_def update_conv')
  have e: "connections_by_peer (put_conn a c s) = connections_by_peer s" "connections_by_ip (put_conn a c s) = connections_by_ip s"
      "attempts (put_conn a c s) = attempts s" "pending_connections (put_conn a c s) = pending_connections s"
      "next_conn (put_conn a c s) = next_conn s" "starting (put_conn a c s) = starting s" by (simp_all add: put_conn_def)
  show ?thesis
  proof (rule manager_invI)
    fix p b assume "map_of (connections_by_peer (put_conn a c s)) p = Some b"
    then have h: "map_of (connections_by_peer s) p = Some b" by (simp add: e)
    then show "(\<exists>d. map_of (store (put_conn a c s)) b = Some d \<and> authenticated_remote_id d = p) \<and> b \<notin> set (starting (put_conn a c s))"
      using manager_invD(3,4) [OF inv h] a by (auto simp: st e)
  next
    fix p b assume "map_of (connections_by_ip (put_conn a c s)) p = Some b"
    then have h: "map_of (connections_by_ip s) p = Some b" by (simp add: e)
    then show "(\<exists>d. map_of (store (put_conn a c s)) b = Some d \<and> fst (remote_endpoint d) = p) \<and> b \<notin> set (starting (put_conn a c s))"
      using manager_invD(5,6) [OF inv h] a by (auto simp: st e)
  next
    fix b assume "map_of (store (put_conn a c s)) b \<noteq> None"
    then show "b < next_conn (put_conn a c s)" using manager_invD(7) [OF inv, of b] manager_invD(7) [OF inv manager_invD(8) [OF inv a]]
      by (auto simp: st e split: if_splits)
  next
    fix b assume "b \<in> set (starting (put_conn a c s))"
    then show "map_of (store (put_conn a c s)) b \<noteq> None" using manager_invD(8) [OF inv, of b] by (simp add: st e)
  next
    fix att b assume "att \<in> set (attempts (put_conn a c s))" "att_conn att = Some b"
    then show "map_of (store (put_conn a c s)) b \<noteq> None" using manager_invD(9) [OF inv, of att b] by (simp add: st e)
  qed (use manager_invD(1,2,10,11) [OF inv] in \<open>simp_all add: e open_attempts_def\<close>)
qed

lemma startup_finish_inv:
  assumes inv: "manager_inv s" and a: "a \<in> set (starting s)" and f: "startup_finish a res s = (r, s')"
  shows "manager_inv s' \<and> attempts s' = attempts s"
proof (cases res)
  case (Inl e)
  then show ?thesis using f manager_inv_starting [OF inv, of a] by (auto simp: startup_finish_def)
next
  case (Inr rec)
  let ?s = "s\<lparr>starting := removeAll a (starting s)\<rparr>" and ?p = "rec_peer_id rec"
  define c where "c = set_remote_peer_id ?p (conn_at a s)"
  have c: "authenticated_remote_id c = ?p" by (simp add: c_def set_remote_peer_id_def)
  have sw: "put_conn a c ?s = (put_conn a c s)\<lparr>starting := removeAll a (starting (put_conn a c s))\<rparr>" by (simp add: put_conn_def)
  have "manager_inv (put_conn a c ?s)" unfolding sw by (rule manager_inv_starting [OF put_conn_free [OF inv a]])
  moreover have "conn_at a ?s = conn_at a s" by (simp add: conn_at_def)
  then have "s' = add_connection_internal ?p a (put_conn a c ?s)" using f Inr by (simp add: startup_finish_def Let_def c_def)
  moreover have "map_of (store (put_conn a c ?s)) a = Some c" "a \<notin> set (starting (put_conn a c ?s))"
    "attempts (put_conn a c ?s) = attempts s" by (simp_all add: put_conn_def update_conv')
  ultimately show ?thesis using add_connection_inv c by metis
qed

lemma manager_inv_delete:
  assumes inv: "manager_inv s" and "distinct (map fst P)" "distinct (map fst H)"
    and "\<And>p a. map_of P p = Some a \<Longrightarrow> map_of (connections_by_peer s) p = Some a"
    and "\<And>h a. map_of H h = Some a \<Longrightarrow> map_of (connections_by_ip s) h = Some a"
  shows "manager_inv (s\<lparr>connections_by_peer := P, connections_by_ip := H\<rparr>)"
proof (rule manager_invI)
  fix p a assume "map_of (connections_by_peer (s\<lparr>connections_by_peer := P, connections_by_ip := H\<rparr>)) p = Some a"
  then have "map_of (connections_by_peer s) p = Some a" using assms(4) by simp
  from manager_invD(3,4) [OF inv this]
  show "(\<exists>c. map_of (store (s\<lparr>connections_by_peer := P, connections_by_ip := H\<rparr>)) a = Some c \<and> authenticated_remote_id c = p) \<and>
      a \<notin> set (starting (s\<lparr>connections_by_peer := P, connections_by_ip := H\<rparr>))" by simp
next
  fix h a assume "map_of (connections_by_ip (s\<lparr>connections_by_peer := P, connections_by_ip := H\<rparr>)) h = Some a"
  then have "map_of (connections_by_ip s) h = Some a" using assms(5) by simp
  from manager_invD(5,6) [OF inv this]
  show "(\<exists>c. map_of (store (s\<lparr>connections_by_peer := P, connections_by_ip := H\<rparr>)) a = Some c \<and> fst (remote_endpoint c) = h) \<and>
      a \<notin> set (starting (s\<lparr>connections_by_peer := P, connections_by_ip := H\<rparr>))" by simp
qed (use assms(2,3) manager_invD(7,8,9,10,11) [OF inv] in \<open>simp_all add: open_attempts_def\<close>)

lemma remove_connection_inv:
  assumes inv: "manager_inv s"
  shows "manager_inv (snd (remove_connection p s)) \<and> attempts (snd (remove_connection p s)) = attempts s"
proof (cases "map_of (connections_by_peer s) p")
  case (Some a)
  let ?H = "AList.delete (ip (get_remote_peer_ip (conn_at a s))) (connections_by_ip s)" and ?P = "AList.delete p (connections_by_peer s)"
  have "manager_inv (s\<lparr>connections_by_peer := ?P, connections_by_ip := ?H\<rparr>)"
    by (rule manager_inv_delete [OF inv]) (simp_all add: manager_invD(1,2) [OF inv] distinct_delete delete_conv' split: if_splits)
  moreover have "snd (remove_connection p s) = call_sink (PeerDisconnected p) (s\<lparr>connections_by_peer := ?P, connections_by_ip := ?H\<rparr>)"
    using Some by (simp add: remove_connection_def) (rule arg_cong [where f = "call_sink _"], simp)
  ultimately show ?thesis using manager_inv_frame [OF _ mgr_frame_fields(10)] by simp
qed (simp add: remove_connection_def inv)

lemma heartbeat_result_inv:
  assumes inv: "manager_inv s"
  shows "manager_inv (heartbeat_result s pr) \<and> attempts (heartbeat_result s pr) = attempts s"
proof -
  obtain p ok where pr: "pr = (p, ok)" by force
  have f: "manager_inv (s\<lparr>consecutive_failed := x\<rparr>)" for x by (rule manager_inv_frame [OF inv mgr_frame_fields(9)])
  let ?P = "AList.delete p (connections_by_peer s)"
  have "manager_inv (s\<lparr>connections_by_peer := ?P, connections_by_ip := connections_by_ip s\<rparr>)"
    by (rule manager_inv_delete [OF inv]) (simp_all add: manager_invD(1,2) [OF inv] distinct_delete delete_conv' split: if_splits)
  moreover have "s\<lparr>connections_by_peer := ?P, connections_by_ip := connections_by_ip s\<rparr> = s\<lparr>connections_by_peer := ?P\<rparr>" by simp
  ultimately have "manager_inv (s\<lparr>connections_by_peer := ?P\<rparr>)" by simp
  from manager_inv_frame [OF this mgr_frame_fields(9)]
  have g: "manager_inv (s\<lparr>connections_by_peer := ?P, consecutive_failed := x\<rparr>)" for x by simp
  have sw: "s\<lparr>consecutive_failed := y, connections_by_peer := ?P, consecutive_failed := x\<rparr> = s\<lparr>connections_by_peer := ?P, consecutive_failed := x\<rparr>" for x y by simp
  show ?thesis using f g inv by (simp add: heartbeat_result_def Let_def pr)
qed

lemma heartbeat_collect_inv:
  "manager_inv s \<Longrightarrow> manager_inv (heartbeat_collect rs s) \<and> attempts (heartbeat_collect rs s) = attempts s"
  unfolding heartbeat_collect_def by (induction rs arbitrary: s) (simp_all add: heartbeat_result_inv)

lemma mgr_shutdown_inv:
  assumes inv: "manager_inv s"
  shows "manager_inv (snd (mgr_shutdown s)) \<and> attempts (snd (mgr_shutdown s)) = attempts s"
proof (cases "shutting_down s")
  case False
  define s1 where "s1 = s\<lparr>shutting_down := True, accepting := False, maintenance_armed := False, udp := udp_shutdown (udp s)\<rparr>"
  define s2 where "s2 = s1\<lparr>connections_by_peer := [], connections_by_ip := [], auto_connections := []\<rparr>"
  have f: "mgr_frame s s1" by (simp add: mgr_frame_def s1_def option.rel_refl)
  have "manager_inv (s1\<lparr>connections_by_peer := [], connections_by_ip := []\<rparr>)"
    by (rule manager_inv_delete [OF manager_inv_frame [OF inv f]]) auto
  from manager_inv_frame [OF this mgr_frame_fields(5)] have s2: "manager_inv s2" by (simp add: s2_def)
  have "\<forall>a\<in>set (map snd (connections_by_peer s1)). map_of (store (snd ([] :: (future \<times> future_result) list, s2))) a \<noteq> None"
  proof
    fix a assume "a \<in> set (map snd (connections_by_peer s1))"
    then obtain p where "(p, a) \<in> set (connections_by_peer s)" by (auto simp: s1_def)
    then have "map_of (connections_by_peer s) p = Some a" using manager_invD(1) [OF inv] by simp
    from manager_invD(3) [OF inv this] show "map_of (store (snd ([] :: (future \<times> future_result) list, s2))) a \<noteq> None" by (auto simp: s1_def s2_def)
  qed
  from shutdown_conns_frame [OF this] have g: "mgr_frame s2 (snd (foldl shutdown_conn ([], s2) (map snd (connections_by_peer s1))))" by simp
  have "snd (mgr_shutdown s) = snd (foldl shutdown_conn ([], s2) (map snd (connections_by_peer s1)))"
    using False by (simp add: mgr_shutdown_def Let_def s1_def s2_def)
  then show ?thesis using manager_inv_frame [OF s2 g] g by (simp add: mgr_frame_def s1_def s2_def)
qed (simp add: mgr_shutdown_def inv)

section \<open>Connect attempts\<close>

lemma open_attempts_update:
  assumes "n < length xs" "\<not> att_completed (xs ! n)"
  shows "filter (\<lambda>x. \<not> att_completed x) (xs[n := y]) =
      filter (\<lambda>x. \<not> att_completed x) (take n xs) @ (if att_completed y then [] else [y]) @ filter (\<lambda>x. \<not> att_completed x) (drop (Suc n) xs)"
    "filter (\<lambda>x. \<not> att_completed x) xs =
      filter (\<lambda>x. \<not> att_completed x) (take n xs) @ [xs ! n] @ filter (\<lambda>x. \<not> att_completed x) (drop (Suc n) xs)"
proof -
  show "filter (\<lambda>x. \<not> att_completed x) (xs[n := y]) =
      filter (\<lambda>x. \<not> att_completed x) (take n xs) @ (if att_completed y then [] else [y]) @ filter (\<lambda>x. \<not> att_completed x) (drop (Suc n) xs)"
    by (simp add: upd_conv_take_nth_drop [OF assms(1)])
  have "filter (\<lambda>x. \<not> att_completed x) xs = filter (\<lambda>x. \<not> att_completed x) (take n xs @ xs ! n # drop (Suc n) xs)"
    using id_take_nth_drop [OF assms(1)] by simp
  then show "filter (\<lambda>x. \<not> att_completed x) xs =
      filter (\<lambda>x. \<not> att_completed x) (take n xs) @ [xs ! n] @ filter (\<lambda>x. \<not> att_completed x) (drop (Suc n) xs)" using assms(2) by simp
qed

definition open_indices :: "rpc_manager \<Rightarrow> nat set" where
  "open_indices s = {n. n < length (attempts s) \<and> \<not> att_completed (attempts s ! n)}"

lemma distinct_image_minus:
  assumes "distinct (map f (xs @ [x] @ ys))"
  shows "f ` set (xs @ [x] @ ys) - {f x} = f ` set (xs @ ys)"
proof -
  have "f x \<notin> f ` set xs" "f x \<notin> f ` set ys" using assms by auto
  moreover have "f ` set (xs @ [x] @ ys) = insert (f x) (f ` set xs \<union> f ` set ys)" by auto
  ultimately show ?thesis by (simp add: image_Un)
qed

text \<open>Replacing one open attempt by a completed one and releasing its key.\<close>

lemma close_attempt_inv:
  assumes inv: "manager_inv s" and n: "n < length (attempts s)" "\<not> att_completed (attempts s ! n)"
  shows "manager_inv (s\<lparr>attempts := (attempts s)[n := (attempts s ! n)\<lparr>att_completed := True\<rparr>],
    pending_connections := removeAll (att_key (attempts s ! n)) (pending_connections s)\<rparr>)" (is "manager_inv ?s")
proof (rule manager_invI)
  let ?f = "filter (\<lambda>x. \<not> att_completed x)" and ?k = "att_key (attempts s ! n)"
  have o: "open_attempts ?s = ?f (take n (attempts s)) @ ?f (drop (Suc n) (attempts s))"
    using open_attempts_update(1) [OF n] by (simp add: open_attempts_def)
  have o': "open_attempts s = ?f (take n (attempts s)) @ [attempts s ! n] @ ?f (drop (Suc n) (attempts s))"
    unfolding open_attempts_def by (rule open_attempts_update(2) [OF n])
  have d: "distinct (map att_key (?f (take n (attempts s)) @ [attempts s ! n] @ ?f (drop (Suc n) (attempts s))))"
    using manager_invD(11) [OF inv] unfolding o' .
  then show "distinct (map att_key (open_attempts ?s))" unfolding o by simp
  have "set (pending_connections ?s) = att_key ` set (open_attempts s) - {?k}" using manager_invD(10) [OF inv] by simp
  also have "\<dots> = att_key ` set (open_attempts ?s)" unfolding o o' by (rule distinct_image_minus [OF d])
  finally show "set (pending_connections ?s) = att_key ` set (open_attempts ?s)" .
  fix att a assume "att \<in> set (attempts ?s)" "att_conn att = Some a"
  then have "\<exists>att\<in>set (attempts s). att_conn att = Some a" using n(1) set_update_subset_insert [of "attempts s" n "(attempts s ! n)\<lparr>att_completed := True\<rparr>"] nth_mem [OF n(1)]
    by force
  then show "map_of (store ?s) a \<noteq> None" using manager_invD(9) [OF inv] by auto
qed (use manager_invD(1-8) [OF inv] in auto)

lemma close_indices:
  assumes "n < length (attempts s)"
  shows "open_indices (s\<lparr>attempts := (attempts s)[n := (attempts s ! n)\<lparr>att_completed := True\<rparr>]\<rparr>) = open_indices s - {n}"
  using assms by (auto simp: open_indices_def nth_list_update split: if_splits)

lemma complete_attempt_inv:
  assumes inv: "manager_inv s" and n: "n < length (attempts s)" and c: "complete_attempt n res s = (out, rs, s')"
  shows "manager_inv s' \<and> out = (if n \<in> open_indices s then [(n, res)] else []) \<and> open_indices s' = open_indices s - {n} \<and>
    length (attempts s') = length (attempts s)"
proof (cases "att_completed (attempts s ! n)")
  case True
  then show ?thesis using c inv by (auto simp: complete_attempt_def open_indices_def)
next
  case False
  let ?att = "attempts s ! n"
  define s1 where "s1 = s\<lparr>attempts := (attempts s)[n := ?att\<lparr>att_completed := True\<rparr>]\<rparr>"
  obtain rs2 s2 where s2: "(case (res, att_conn ?att) of (Inl e, Some a) \<Rightarrow> shutdown_conn ([], s1) a | _ \<Rightarrow> ([], s1)) = (rs2, s2)" by force
  have "att_conn ?att = Some a \<Longrightarrow> map_of (store (snd ([] :: (future \<times> future_result) list, s1))) a \<noteq> None" for a
    using manager_invD(9) [OF inv nth_mem [OF n], of a] by (simp add: s1_def)
  then have f: "mgr_frame s1 s2" using s2 shutdown_conn_frame [of "([], s1)"] by (auto split: sum.splits option.splits) (metis snd_conv)
  have s': "out = [(n, res)]" "s' = s2\<lparr>pending_connections := removeAll (att_key ?att) (pending_connections s2)\<rparr>"
    using c False s2 unfolding complete_attempt_def Let_def s1_def by simp_all
  have g: "mgr_frame (s1\<lparr>pending_connections := removeAll (att_key ?att) (pending_connections s)\<rparr>) s'"
    using f unfolding s'(2) by (simp add: mgr_frame_def s1_def)
  from close_attempt_inv [OF inv n False] have "manager_inv (s1\<lparr>pending_connections := removeAll (att_key ?att) (pending_connections s)\<rparr>)" by (simp add: s1_def)
  from manager_inv_frame [OF this g] have "manager_inv s'" .
  moreover have a: "attempts s' = attempts s1" using g by (simp add: mgr_frame_def)
  then have "open_indices s' = open_indices s - {n}" using close_indices [OF n] by (simp add: s1_def open_indices_def)
  ultimately show ?thesis using s' a False n by (simp add: open_indices_def s1_def)
qed

lemma open_indices_snoc:
  "open_indices (s\<lparr>attempts := attempts s @ [att]\<rparr>) = open_indices s \<union> (if att_completed att then {} else {length (attempts s)})"
  by (auto simp: open_indices_def nth_append less_Suc_eq split: if_splits)

lemma connect_async_inv:
  assumes inv: "manager_inv s" and c: "connect_async host port s = (out, s')"
  shows "manager_inv s' \<and> length (attempts s') = Suc (length (attempts s)) \<and> distinct (map fst out) \<and> set (map fst out) \<subseteq> {length (attempts s)} \<and>
    open_indices s' = (open_indices s \<union> {length (attempts s)}) - set (map fst out)"
proof -
  let ?key = "host @ '':'' @ to_string port" and ?n = "length (attempts s)"
  have nn: "?n \<notin> open_indices s" by (simp add: open_indices_def)
  show ?thesis
  proof (cases "?key \<in> set (pending_connections s) \<or> map_of (connections_by_ip s) host \<noteq> None")
    case True
    then have s': "out = [(?n, Inl ''connection already pending or active'')]" "s' = s\<lparr>attempts := attempts s @ [\<lparr>att_key = ?key, att_completed = True, att_conn = None\<rparr>]\<rparr>"
      using c by (auto simp: connect_async_def Let_def)
    have "manager_inv s'" unfolding s'(2) by (rule manager_invI) (use manager_invD [OF inv] in \<open>auto simp: open_attempts_def\<close>)
    then show ?thesis using s' nn open_indices_snoc [of s "\<lparr>att_key = ?key, att_completed = True, att_conn = None\<rparr>"] by auto
  next
    case False
    then have s': "out = []" "s' = s\<lparr>pending_connections := ?key # pending_connections s, attempts := attempts s @ [\<lparr>att_key = ?key, att_completed = False, att_conn = None\<rparr>]\<rparr>"
      using c by (auto simp: connect_async_def Let_def)
    have k: "?key \<notin> att_key ` set (open_attempts s)" using False manager_invD(10) [OF inv] by simp
    have "manager_inv s'" unfolding s'(2) by (rule manager_invI) (use manager_invD [OF inv] k in \<open>auto simp: open_attempts_def\<close>)
    moreover have "open_indices s' = open_indices (s\<lparr>attempts := attempts s @ [\<lparr>att_key = ?key, att_completed = False, att_conn = None\<rparr>]\<rparr>)"
      by (simp add: s' open_indices_def)
    ultimately show ?thesis using s' open_indices_snoc [of s "\<lparr>att_key = ?key, att_completed = False, att_conn = None\<rparr>"] by auto
  qed
qed

lemma on_tcp_connected_inv:
  assumes inv: "manager_inv s" and n: "n < length (attempts s)" and c: "on_tcp_connected n ec s = (a, out, rs, s')"
  shows "manager_inv s' \<and> distinct (map fst out) \<and> set (map fst out) \<subseteq> open_indices s \<and>
    open_indices s' = open_indices s - set (map fst out) \<and> length (attempts s') = length (attempts s)"
proof (cases "att_completed (attempts s ! n) \<or> (\<exists>e. ec = Inl e)")
  case True
  have i: "n \<in> open_indices s \<longleftrightarrow> \<not> att_completed (attempts s ! n)" using n by (simp add: open_indices_def)
  show ?thesis
  proof (cases "att_completed (attempts s ! n)")
    case False
    then obtain e where e: "complete_attempt n (Inl (''tcp connect failed: '' @ e)) s = (out, rs, s')" using c True by (auto simp: on_tcp_connected_def)
    show ?thesis using complete_attempt_inv [OF inv n e] False i by auto
  qed (use c inv in \<open>auto simp: on_tcp_connected_def\<close>)
next
  case False
  then obtain l r where ec: "ec = Inr (l, r)" and o: "\<not> att_completed (attempts s ! n)" by (cases ec) auto
  obtain b s1 where m: "make_connection l r s = (b, s1)" by force
  have s1: "manager_inv s1" "attempts s1 = attempts s" "map_of (store s1) b \<noteq> None" using make_connection_inv [OF inv m] by blast+
  let ?att = "(attempts s ! n)\<lparr>att_conn := Some b\<rparr>"
  have s': "out = []" "s' = s1\<lparr>attempts := (attempts s)[n := ?att]\<rparr>" using c ec o m s1(2) by (auto simp: on_tcp_connected_def)
  have k: "map att_key (open_attempts s') = map att_key (open_attempts s1)"
    using open_attempts_update(1) [OF n o, of ?att] open_attempts_update(2) [OF n o] o by (simp add: open_attempts_def s' s1)
  have "manager_inv s'"
  proof (rule manager_invI)
    show "set (pending_connections s') = att_key ` set (open_attempts s')"
      using manager_invD(10) [OF s1(1)] arg_cong [OF k, of set] by (simp add: s')
    show "distinct (map att_key (open_attempts s'))" using manager_invD(11) [OF s1(1)] k by simp
    fix att a assume h: "att \<in> set (attempts s')" "att_conn att = Some a"
    then have "att = ?att \<or> att \<in> set (attempts s)" using set_update_subset_insert [of "attempts s" n ?att] by (auto simp: s')
    then show "map_of (store s') a \<noteq> None" using h(2) s1(3) manager_invD(9) [OF s1(1), of att a] s1(2) by (auto simp: s')
  qed (use manager_invD(1-8) [OF s1(1)] in \<open>auto simp: s'\<close>)
  moreover have "open_indices s' = open_indices s" using n o by (auto simp: open_indices_def s' nth_list_update)
  ultimately show ?thesis by (simp add: s')
qed

lemma check_auto_inv:
  assumes "manager_inv s" "foldl (\<lambda>(out, s) t. let (out', s) = connect_async (ip t) (tcp_port t) s in (out @ out', s)) (out0, s) ts = (out, s')"
  shows "\<exists>out1. out = out0 @ out1 \<and> manager_inv s' \<and> length (attempts s) \<le> length (attempts s') \<and> distinct (map fst out1) \<and>
    set (map fst out1) \<subseteq> {length (attempts s)..<length (attempts s')} \<and>
    open_indices s' = (open_indices s \<union> {length (attempts s)..<length (attempts s')}) - set (map fst out1)"
  using assms
proof (induction ts arbitrary: s out0)
  case (Cons t ts)
  obtain o1 s1 where c: "connect_async (ip t) (tcp_port t) s = (o1, s1)" by force
  have i: "manager_inv s1" "length (attempts s1) = Suc (length (attempts s))" "distinct (map fst o1)" "set (map fst o1) \<subseteq> {length (attempts s)}"
    "open_indices s1 = (open_indices s \<union> {length (attempts s)}) - set (map fst o1)" using connect_async_inv [OF Cons.prems(1) c] by simp_all
  obtain o2 where o2: "out = (out0 @ o1) @ o2" "manager_inv s'" "length (attempts s1) \<le> length (attempts s')" "distinct (map fst o2)"
    "set (map fst o2) \<subseteq> {length (attempts s1)..<length (attempts s')}"
    "open_indices s' = (open_indices s1 \<union> {length (attempts s1)..<length (attempts s')}) - set (map fst o2)"
    using Cons.IH [OF i(1), of "out0 @ o1"] Cons.prems(2) c by auto
  have iv: "{length (attempts s)..<length (attempts s')} = insert (length (attempts s)) {length (attempts s1)..<length (attempts s')}"
    using i(2) o2(3) by auto
  have n: "length (attempts s) \<notin> {length (attempts s1)..<length (attempts s')}" using i(2) by simp
  have lt: "j < length (attempts s)" if "j \<in> open_indices s" for j using that by (simp add: open_indices_def)
  have disj: "set (map fst o1) \<inter> set (map fst o2) = {}" using i(4) o2(5) n by blast
  have "open_indices s' = (open_indices s \<union> {length (attempts s)..<length (attempts s')}) - set (map fst (o1 @ o2))"
  proof -
    have "set (map fst o1) \<inter> {length (attempts s1)..<length (attempts s')} = {}" using i(4) n by blast
    then show ?thesis unfolding o2(6) i(5) iv by auto
  qed
  moreover have "set (map fst (o1 @ o2)) \<subseteq> {length (attempts s)..<length (attempts s')}" unfolding iv using i(4) o2(5) by auto
  moreover have "distinct (map fst (o1 @ o2))" using i(3) o2(4) disj by simp
  ultimately show ?case using o2 i(2) by (intro exI [of _ "o1 @ o2"]) simp
qed (auto simp: open_indices_def)

lemma on_maintenance_inv:
  assumes inv: "manager_inv s" and c: "on_maintenance_timer aborted s = (out, s')"
  shows "manager_inv s' \<and> length (attempts s) \<le> length (attempts s') \<and> distinct (map fst out) \<and>
    set (map fst out) \<subseteq> {length (attempts s)..<length (attempts s')} \<and>
    open_indices s' = (open_indices s \<union> {length (attempts s)..<length (attempts s')}) - set (map fst out)"
proof -
  define s1 where "s1 = s\<lparr>maintenance_armed := False\<rparr>"
  have s1: "manager_inv s1" "attempts s1 = attempts s" "open_indices s1 = open_indices s"
    using manager_inv_frame [OF inv mgr_frame_fields(7)] by (simp_all add: s1_def open_indices_def)
  show ?thesis
  proof (cases "shutting_down s \<or> aborted")
    case True
    then have "out = []" "s' = s1" using c by (auto simp: on_maintenance_timer_def Let_def s1_def split: if_splits)
    then show ?thesis using s1 by (auto simp: open_indices_def)
  next
    case False
    obtain o2 s2 where f: "check_for_auto_connections_locked s1 = (o2, s2)" by force
    have e: "out = o2" "s' = run_maintenance_cycle s2" using c False f by (simp_all add: on_maintenance_timer_def Let_def s1_def)
    have g: "attempts (run_maintenance_cycle s2) = attempts s2" by (simp add: run_maintenance_cycle_def)
    have "\<not> shutting_down s1" using False by (simp add: s1_def)
    then have "foldl (\<lambda>(out, s) t. let (out', s) = connect_async (ip t) (tcp_port t) s in (out @ out', s)) ([], s1) (missing_targets s1) = (o2, s2)"
      using f by (simp add: check_for_auto_connections_locked_def)
    from check_auto_inv [OF s1(1) this] show ?thesis using e s1(2,3) g manager_inv_frame [OF _ mgr_frame_fields(11)] by (auto simp: open_indices_def)
  qed
qed

end
