(* ===== verification/Rpc_Manager_Theorems.thy ===== *)
theory Rpc_Manager_Theorems
  imports Rpc_Manager_Inv
begin

text \<open>
  The step relation of \<^verbatim>\<open>RpcManager\<close>, with one step for each call, handler and thread, the
  invariant of its histories and the properties of connect attempts and heartbeats.
\<close>

section \<open>Histories of the manager\<close>

text \<open>
  Every event the manager reacts to, in any order: calls by the node, handlers run by Boost.Asio
  and the threads that wait for a handshake.  The two lists are the connect attempts that begin
  in the step and those whose callback is called in it.
\<close>

inductive mgr_step :: "mesh_lib \<Rightarrow> rpc_manager \<Rightarrow> nat list \<Rightarrow> nat list \<Rightarrow> rpc_manager \<Rightarrow> bool" for L where
  mgr_connect: "connect_async host port s = (out, s') \<Longrightarrow> mgr_step L s [length (attempts s)] (map fst out) s'"
| mgr_maintenance: "on_maintenance_timer aborted s = (out, s') \<Longrightarrow>
    mgr_step L s [length (attempts s)..<length (attempts s')] (map fst out) s'"
| mgr_connect_timer: "n < length (attempts s) \<Longrightarrow> on_connect_timer n aborted s = (out, rs, s') \<Longrightarrow> mgr_step L s [] (map fst out) s'"
| mgr_resolved: "n < length (attempts s) \<Longrightarrow> on_resolved n ec s = (out, rs, s') \<Longrightarrow> mgr_step L s [] (map fst out) s'"
| mgr_tcp_connected: "n < length (attempts s) \<Longrightarrow> on_tcp_connected n res s = (new, out, rs, s') \<Longrightarrow> mgr_step L s [] (map fst out) s'"
| mgr_complete: "n < length (attempts s) \<Longrightarrow> complete_attempt n result s = (out, rs, s') \<Longrightarrow> mgr_step L s [] (map fst out) s'"
| mgr_startup: "a \<in> set (starting s) \<Longrightarrow> mgr_step L s [] [] (snd (startup_begin L a initiator s))"
| mgr_started: "a \<in> set (starting s) \<Longrightarrow> startup_finish a started s = (r, s') \<Longrightarrow> mgr_step L s [] [] s'"
| mgr_accept: "on_accept code s = (new, s') \<Longrightarrow> mgr_step L s [] [] s'"
| mgr_received: "map_of (store s) a \<noteq> None \<Longrightarrow> mgr_step L s [] [] (snd (conn_received L a mid payload s))"
| mgr_rpc_timer: "map_of (store s) a = Some c \<Longrightarrow>
    mgr_step L s [] [] (put_conn a (snd (on_rpc_timer req_id aborted (c\<lparr>rpc_timers := take_handler n (rpc_timers c)\<rparr>))) s)"
| mgr_send_tcp: "mgr_step L s [] [] (snd (snd (send_tcp_message L peer env s)))"
| mgr_send_udp: "mgr_step L s [] [] (snd (send_udp_message L peer pkt s))"
| mgr_datagram: "mgr_step L s [] [] (udp_datagram ep datagram s)"
| mgr_remove: "mgr_step L s [] [] (snd (remove_connection peer s))"
| mgr_heartbeat: "mgr_step L s [] [] (snd (heartbeat_send L s))"
| mgr_heartbeat_results: "mgr_step L s [] [] (heartbeat_collect results s)"
| mgr_set_sink: "mgr_step L s [] [] (set_sink b s)"
| mgr_add_auto: "mgr_step L s [] [] (add_auto_connection rec s)"
| mgr_remove_auto: "mgr_step L s [] [] (remove_auto_connection rec s)"
| mgr_stop: "mgr_step L s [] [] (snd (mgr_shutdown s))"

lemma conn_in_store: "manager_inv s \<Longrightarrow> map_of (connections_by_peer s) p = Some a \<Longrightarrow> map_of (store s) a \<noteq> None"
  using manager_invD(3) by fastforce

lemma heartbeats_frame:
  assumes "manager_inv (snd x)"
  shows "mgr_frame (snd x) (snd (foldl (heartbeat_to L) x ps))"
  using assms
proof (induction ps arbitrary: x)
  case (Cons p ps)
  have f: "mgr_frame (snd x) (snd (heartbeat_to L x p))" by (rule heartbeat_to_frame) (use conn_in_store [OF Cons.prems] in blast)
  from mgr_frame_trans [OF f Cons.IH [OF manager_inv_frame [OF Cons.prems f]]] show ?case by simp
qed simp

lemma on_accept_inv:
  assumes inv: "manager_inv s" and c: "on_accept code s = (a, s')"
  shows "manager_inv s' \<and> attempts s' = attempts s"
proof -
  have f: "manager_inv (s\<lparr>accepting := b\<rparr>)" for b by (rule manager_inv_frame [OF inv mgr_frame_fields(6)])
  show ?thesis
  proof (cases "\<exists>l r. code = Accepted (Some (l, r)) \<and> \<not> shutting_down s")
    case True
    then obtain l r where e: "code = Accepted (Some (l, r))" "\<not> shutting_down s" by blast
    obtain b s1 where m: "make_connection l r (s\<lparr>accepting := False\<rparr>) = (b, s1)" by force
    have s1: "manager_inv s1" "attempts s1 = attempts s" using make_connection_inv [OF f m] by simp_all
    moreover have "s' = s1\<lparr>accepting := True\<rparr>" using c e m by (simp add: on_accept_def Let_def)
    ultimately show ?thesis using manager_inv_frame [OF s1(1) mgr_frame_fields(6)] by simp
  next
    case False
    then have "\<exists>b. s' = s\<lparr>accepting := b\<rparr>" using c
      by (cases code) (auto simp: on_accept_def Let_def split: if_splits option.splits prod.splits)
    then show ?thesis using f by auto
  qed
qed

text \<open>The steps that touch neither the maps nor the attempts.\<close>

lemma frame_steps:
  assumes inv: "manager_inv s"
  shows "a \<in> set (starting s) \<Longrightarrow> mgr_frame s (snd (startup_begin L a initiator s))"
    "map_of (store s) a \<noteq> None \<Longrightarrow> mgr_frame s (snd (conn_received L a mid payload s))"
    "map_of (store s) a = Some c \<Longrightarrow> mgr_frame s (put_conn a (snd (on_rpc_timer req_id aborted (c\<lparr>rpc_timers := t\<rparr>))) s)"
    "mgr_frame s (snd (snd (send_tcp_message L peer env s)))" "mgr_frame s (snd (send_udp_message L peer pkt s))"
    "mgr_frame s (udp_datagram ep datagram s)" "mgr_frame s (snd (heartbeat_send L s))"
    "mgr_frame s (set_sink b s)" "mgr_frame s (add_auto_connection rec s)" "mgr_frame s (remove_auto_connection rec s)"
proof -
  show "mgr_frame s (snd (startup_begin L a initiator s))" if "a \<in> set (starting s)"
    by (rule startup_begin_frame [OF manager_invD(8) [OF inv that]])
  show "mgr_frame s (snd (conn_received L a mid payload s))" if "map_of (store s) a \<noteq> None" by (rule conn_received_frame [OF that])
  show "mgr_frame s (put_conn a (snd (on_rpc_timer req_id aborted (c\<lparr>rpc_timers := t\<rparr>))) s)" if "map_of (store s) a = Some c"
    using on_rpc_timer_identity [of req_id aborted "c\<lparr>rpc_timers := t\<rparr>"] by (intro mgr_frame_put [OF that]) (simp add: same_identity_def)
  show "mgr_frame s (snd (snd (send_tcp_message L peer env s)))" by (rule send_tcp_frame) (use conn_in_store [OF inv] in blast)
  show "mgr_frame s (snd (send_udp_message L peer pkt s))" by (rule send_udp_frame)
  show "mgr_frame s (udp_datagram ep datagram s)" by (rule udp_datagram_frame)
  show "mgr_frame s (snd (heartbeat_send L s))" using heartbeats_frame [of "([], s)" L] inv by (simp add: heartbeat_send_def)
qed (simp_all add: set_sink_def add_auto_connection_def remove_auto_connection_def)

lemma attempt_handlers:
  "on_connect_timer n aborted s = ([], [], s) \<or> (\<exists>res. on_connect_timer n aborted s = complete_attempt n res s)"
  "on_resolved n ec s = ([], [], s) \<or> (\<exists>res. on_resolved n ec s = complete_attempt n res s)"
  by (auto simp: on_connect_timer_def on_resolved_def split: option.split)

lemma mgr_frame_step:
  "manager_inv s \<Longrightarrow> mgr_frame s s' \<Longrightarrow> manager_inv s' \<and> attempts s' = attempts s"
  using manager_inv_frame by (auto simp: mgr_frame_def)

lemma attempt_step:
  assumes inv: "manager_inv s" and n: "n < length (attempts s)"
    and c: "x = ([], [], s) \<or> (\<exists>res. x = complete_attempt n res s)" and x: "x = (out, rs, s')"
  shows "manager_inv s' \<and> distinct (map fst out) \<and> set (map fst out) \<subseteq> open_indices s \<and>
    open_indices s' = open_indices s - set (map fst out) \<and> length (attempts s') = length (attempts s)"
  using c
proof
  assume "\<exists>res. x = complete_attempt n res s"
  then obtain res where "complete_attempt n res s = (out, rs, s')" using x by auto
  from complete_attempt_inv [OF inv n this] show ?thesis by auto
qed (use x inv in auto)

lemma mgr_step_inv:
  assumes "mgr_step L s st fin s'" "manager_inv s"
  shows "manager_inv s' \<and> st = [length (attempts s)..<length (attempts s')] \<and> length (attempts s) \<le> length (attempts s') \<and>
    distinct fin \<and> set fin \<subseteq> open_indices s \<union> set st \<and> open_indices s' = (open_indices s \<union> set st) - set fin"
proof -
  have same: "manager_inv s' \<and> attempts s' = attempts s \<Longrightarrow> st = [] \<Longrightarrow> fin = [] \<Longrightarrow> ?thesis" by (simp add: open_indices_def)
  have framed: "mgr_frame s s' \<Longrightarrow> st = [] \<Longrightarrow> fin = [] \<Longrightarrow> ?thesis" by (rule same [OF mgr_frame_step [OF assms(2)]])
  have closed: "manager_inv s' \<and> distinct (map fst (out :: (nat \<times> connect_result) list)) \<and> set (map fst out) \<subseteq> open_indices s \<and>
    open_indices s' = open_indices s - set (map fst out) \<and> length (attempts s') = length (attempts s) \<Longrightarrow> st = [] \<Longrightarrow> fin = map fst out \<Longrightarrow> ?thesis" for out by auto
  from assms(1) show ?thesis
  proof cases
    case (mgr_connect host port out)
    with connect_async_inv [OF assms(2) mgr_connect(3)] show ?thesis by auto
  next
    case (mgr_maintenance aborted out)
    with on_maintenance_inv [OF assms(2) mgr_maintenance(3)] show ?thesis by auto
  next
    case (mgr_connect_timer n aborted out rs)
    show ?thesis by (rule closed [OF attempt_step [OF assms(2) mgr_connect_timer(3) attempt_handlers(1) mgr_connect_timer(4)] mgr_connect_timer(1,2)])
  next
    case (mgr_resolved n ec out rs)
    show ?thesis by (rule closed [OF attempt_step [OF assms(2) mgr_resolved(3) attempt_handlers(2) mgr_resolved(4)] mgr_resolved(1,2)])
  next
    case (mgr_complete n result out rs)
    have "complete_attempt n result s = ([], [], s) \<or> (\<exists>res. complete_attempt n result s = complete_attempt n res s)" by blast
    from closed [OF attempt_step [OF assms(2) mgr_complete(3) this mgr_complete(4)] mgr_complete(1,2)] show ?thesis .
  next
    case (mgr_tcp_connected n res new out rs)
    show ?thesis by (rule closed [OF on_tcp_connected_inv [OF assms(2) mgr_tcp_connected(3,4)]]) (use mgr_tcp_connected in auto)
  next
    case (mgr_started a started r)
    show ?thesis by (rule same [OF startup_finish_inv [OF assms(2) mgr_started(3,4)]]) (use mgr_started in auto)
  next
    case (mgr_accept code new)
    show ?thesis by (rule same [OF on_accept_inv [OF assms(2) mgr_accept(3)]]) (use mgr_accept in auto)
  next
    case (mgr_startup a initiator)
    show ?thesis by (rule framed [OF _ mgr_startup(1,2)], unfold mgr_startup(3)) (rule frame_steps(1) [OF assms(2) mgr_startup(4)])
  next
    case (mgr_received a mid payload)
    show ?thesis by (rule framed [OF _ mgr_received(1,2)], unfold mgr_received(3)) (rule frame_steps(2) [OF assms(2) mgr_received(4)])
  next
    case (mgr_rpc_timer a c req_id aborted n)
    show ?thesis by (rule framed [OF _ mgr_rpc_timer(1,2)], unfold mgr_rpc_timer(3)) (rule frame_steps(3) [OF assms(2) mgr_rpc_timer(4)])
  next
    case (mgr_send_tcp peer env)
    show ?thesis by (rule framed [OF _ mgr_send_tcp(1,2)], unfold mgr_send_tcp(3)) (rule frame_steps(4) [OF assms(2)])
  next
    case (mgr_send_udp peer pkt)
    show ?thesis by (rule framed [OF _ mgr_send_udp(1,2)], unfold mgr_send_udp(3)) (rule frame_steps(5) [OF assms(2)])
  next
    case (mgr_datagram ep datagram)
    show ?thesis by (rule framed [OF _ mgr_datagram(1,2)], unfold mgr_datagram(3)) (rule frame_steps(6) [OF assms(2)])
  next
    case mgr_heartbeat
    show ?thesis by (rule framed [OF _ mgr_heartbeat(1,2)], unfold mgr_heartbeat(3)) (rule frame_steps(7) [OF assms(2)])
  next
    case (mgr_set_sink b)
    show ?thesis by (rule framed [OF _ mgr_set_sink(1,2)], unfold mgr_set_sink(3)) (rule frame_steps(8) [OF assms(2)])
  next
    case (mgr_add_auto rec)
    show ?thesis by (rule framed [OF _ mgr_add_auto(1,2)], unfold mgr_add_auto(3)) (rule frame_steps(9) [OF assms(2)])
  next
    case (mgr_remove_auto rec)
    show ?thesis by (rule framed [OF _ mgr_remove_auto(1,2)], unfold mgr_remove_auto(3)) (rule frame_steps(10) [OF assms(2)])
  next
    case (mgr_remove peer)
    show ?thesis by (rule same [OF _ mgr_remove(1,2)], unfold mgr_remove(3)) (rule remove_connection_inv [OF assms(2)])
  next
    case (mgr_heartbeat_results results)
    show ?thesis by (rule same [OF _ mgr_heartbeat_results(1,2)], unfold mgr_heartbeat_results(3)) (rule heartbeat_collect_inv [OF assms(2)])
  next
    case mgr_stop
    show ?thesis by (rule same [OF _ mgr_stop(1,2)], unfold mgr_stop(3)) (rule mgr_shutdown_inv [OF assms(2)])
  qed
qed

interpretation manager: completions "mgr_step L" manager_inv open_indices for L
  by unfold_locales (auto dest: mgr_step_inv)

lemma new_manager_inv:
  assumes "RpcManager p u sink ssl opts net = Inr s"
  shows "manager_inv s" "open_indices s = {}" "attempts s = []"
proof -
  have e: "store s = []" "starting s = []" "connections_by_peer s = []" "connections_by_ip s = []" "attempts s = []" "pending_connections s = []"
    using assms by (auto simp: RpcManager_def start_listening_def run_maintenance_cycle_def split: sum.splits if_splits)
  then show "manager_inv s" "open_indices s = {}" "attempts s = []" by (simp_all add: manager_inv_def open_attempts_def open_indices_def)
qed

lemma mgr_history_attempts:
  assumes "history (mgr_step L) s0 st fin s" "manager_inv s0" "attempts s0 = []"
  shows "manager_inv s \<and> st = [0..<length (attempts s)]"
  using assms
proof (induction rule: history.induct)
  case (history_step st fin s st' fin' s')
  then have IH: "manager_inv s" "st = [0..<length (attempts s)]" by simp_all
  have n: "manager_inv s'" "st' = [length (attempts s)..<length (attempts s')]" "length (attempts s) \<le> length (attempts s')"
    using mgr_step_inv [OF history_step(2) IH(1)] by simp_all
  obtain k where k: "length (attempts s') = length (attempts s) + k" using n(3) le_Suc_ex by blast
  have "st @ st' = [0..<length (attempts s')]" unfolding IH(2) n(2) k using upt_add_eq_append [of 0 "length (attempts s)" k] by simp
  then show ?case using n(1) by simp
qed simp

text \<open>A manager with the default options that has been asked to connect to one host.\<close>

lemma ex_connecting:
  "\<exists>s0 s. RpcManager ''p'' 5 True False default_fec_options ex_sockets = Inr s0 \<and> history (mgr_step L) s0 [0] [] s \<and>
     attempts s = [\<lparr>att_key = ''h:1'', att_completed = False, att_conn = None\<rparr>] \<and> pending_connections s = [''h:1''] \<and>
     connections_by_peer s = [] \<and> \<not> shutting_down s"
proof -
  obtain s0 where s0: "RpcManager ''p'' 5 True False default_fec_options ex_sockets = Inr s0" "\<not> shutting_down s0" "connections_by_peer s0 = []"
      "pending_connections s0 = []" "connections_by_ip s0 = []" "attempts s0 = []"
    by (simp add: RpcManager_def UdpTransport_def ex_sockets_def default_fec_options_def start_listening_def run_maintenance_cycle_def)
  obtain out s where c: "connect_async ''h'' 1 s0 = (out, s)" by force
  have t: "to_string 1 = ''1''" by code_simp
  have "history (mgr_step L) s0 ([] @ [length (attempts s0)]) ([] @ map fst out) s"
    by (rule history_step, rule history_start) (rule mgr_connect [OF c])
  moreover have "out = []" "attempts s = [\<lparr>att_key = ''h:1'', att_completed = False, att_conn = None\<rparr>]" "pending_connections s = [''h:1'']"
      "connections_by_peer s = []" "\<not> shutting_down s"
    using c s0 t by (auto simp: connect_async_def Let_def)
  ultimately show ?thesis using s0 by auto
qed

text \<open>
  C9.  The tables of the manager agree with the connections they refer to, in every order of events.  After
  any history of calls, handlers and threads, an entry for a peer id or an address leads
  to an object that exists, has been authenticated as that peer (is connected to that address) and is
  no longer in its handshake; and the set of pending addresses is exactly the set of addresses of the attempts that
  are still open, each of them once, so an address is never blocked by an attempt that has ended.
\<close>

theorem manager_tables_consistent:
  assumes "RpcManager p u sink ssl opts net = Inr s0" "history (mgr_step L) s0 st fin s"
  shows "(\<forall>q a. map_of (connections_by_peer s) q = Some a \<longrightarrow> a \<notin> set (starting s) \<and> (\<exists>c. map_of (store s) a = Some c \<and> authenticated_remote_id c = q)) \<and>
    (\<forall>h a. map_of (connections_by_ip s) h = Some a \<longrightarrow> a \<notin> set (starting s) \<and> (\<exists>c. map_of (store s) a = Some c \<and> fst (remote_endpoint c) = h)) \<and>
    set (pending_connections s) = att_key ` set (filter (\<lambda>x. \<not> att_completed x) (attempts s)) \<and>
    distinct (map att_key (filter (\<lambda>x. \<not> att_completed x) (attempts s)))"
proof -
  have inv: "manager_inv s" using mgr_history_attempts [OF assms(2)] new_manager_inv [OF assms(1)] by simp
  show ?thesis
  proof (intro conjI allI impI)
    fix q a assume h: "map_of (connections_by_peer s) q = Some a"
    show "a \<notin> set (starting s)" by (rule manager_invD(4) [OF inv h])
    show "\<exists>c. map_of (store s) a = Some c \<and> authenticated_remote_id c = q" by (rule manager_invD(3) [OF inv h])
  next
    fix h a assume h: "map_of (connections_by_ip s) h = Some a"
    show "a \<notin> set (starting s)" by (rule manager_invD(6) [OF inv h])
    show "\<exists>c. map_of (store s) a = Some c \<and> fst (remote_endpoint c) = h" by (rule manager_invD(5) [OF inv h])
  qed (use manager_invD(10,11) [OF inv] in \<open>simp_all add: open_attempts_def\<close>)
qed

theorem manager_tables_consistent_witness:
  "\<exists>L s0 s. RpcManager ''p'' 5 True False default_fec_options ex_sockets = Inr s0 \<and> history (mgr_step L) s0 [0] [] s \<and>
     att_key ` set (filter (\<lambda>x. \<not> att_completed x) (attempts s)) = {''h:1''}"
proof -
  obtain s0 s where h: "RpcManager ''p'' 5 True False default_fec_options ex_sockets = Inr s0"
      "history (mgr_step (ex_proto (\<lambda>n. []))) s0 [0] [] s" "pending_connections s = [''h:1'']"
    using ex_connecting [of "ex_proto (\<lambda>n. [])"] by blast
  have "att_key ` set (filter (\<lambda>x. \<not> att_completed x) (attempts s)) = {''h:1''}"
    using manager_tables_consistent [OF h(1,2)] h(3) by simp
  then show ?thesis using h by blast
qed

lemma complete_attempt_released:
  assumes "\<not> att_completed (attempts s ! n)" "complete_attempt n res s = (out, rs, s')"
  shows "att_key (attempts s ! n) \<notin> set (pending_connections s')"
  using assms unfolding complete_attempt_def Let_def by (cases res; cases "att_conn (attempts s ! n)") (auto split: prod.splits)

text \<open>
  C12.  The callback of a connect attempt is called exactly once.  In every history, with any race of the timer, the
  resolver, the TCP connect, the handshake thread and the shutdown, an attempt has had one call if it is
  completed and none if it is open; and an open attempt that gets nothing else is ended by its timer, with
  an error for the callback and its address no longer pending.
\<close>

theorem connect_callback_once:
  assumes "RpcManager p u sink ssl opts net = Inr s0" "history (mgr_step L) s0 st fin s" "n < length (attempts s)"
  shows "count_list fin n = (if att_completed (attempts s ! n) then 1 else 0) \<and>
    (\<not> att_completed (attempts s ! n) \<longrightarrow>
      (\<exists>rs s'. on_connect_timer n False s = ([(n, Inl ''connect timed out'')], rs, s') \<and> att_completed (attempts s' ! n) \<and>
        att_key (attempts s ! n) \<notin> set (pending_connections s')))"
proof -
  have i: "manager_inv s0" "open_indices s0 = {}" "attempts s0 = []" by (rule new_manager_inv [OF assms(1)])+
  have inv: "manager_inv s" "st = [0..<length (attempts s)]" using mgr_history_attempts [OF assms(2) i(1,3)] by simp_all
  have "count_list fin n = (if n \<in> open_indices s then 0 else 1)"
    using manager.count_finished [OF assms(2) i(1,2), of n] inv(2) assms(3) by simp
  moreover have "\<exists>rs s'. on_connect_timer n False s = ([(n, Inl ''connect timed out'')], rs, s') \<and> att_completed (attempts s' ! n) \<and>
        att_key (attempts s ! n) \<notin> set (pending_connections s')" if o: "\<not> att_completed (attempts s ! n)"
  proof -
    obtain out rs s' where c: "complete_attempt n (Inl ''connect timed out'') s = (out, rs, s')" by (metis prod_cases3)
    note i = complete_attempt_inv [OF inv(1) assms(3) c]
    have n: "n \<in> open_indices s" using o assms(3) by (simp add: open_indices_def)
    have a: "out = [(n, Inl ''connect timed out'')]" "length (attempts s') = length (attempts s)" using i n by simp_all
    have b: "n \<notin> open_indices s'" using i by blast
    have "att_completed (attempts s' ! n)" using b a(2) assms(3) unfolding open_indices_def by simp
    moreover have "att_key (attempts s ! n) \<notin> set (pending_connections s')" by (rule complete_attempt_released [OF o c])
    ultimately show ?thesis using a c by (intro exI [of _ rs] exI [of _ s']) (simp add: on_connect_timer_def)
  qed
  ultimately show ?thesis using assms(3) by (simp add: open_indices_def)
qed

theorem connect_callback_once_witness:
  "\<exists>L s0 s. RpcManager ''p'' 5 True False default_fec_options ex_sockets = Inr s0 \<and> history (mgr_step L) s0 [0] [] s \<and> 0 < length (attempts s) \<and>
     fst (on_connect_timer 0 False s) = [(0, Inl ''connect timed out'')]"
proof -
  obtain s0 s where h: "RpcManager ''p'' 5 True False default_fec_options ex_sockets = Inr s0"
      "history (mgr_step (ex_proto (\<lambda>n. []))) s0 [0] [] s" "attempts s = [\<lparr>att_key = ''h:1'', att_completed = False, att_conn = None\<rparr>]"
    using ex_connecting [of "ex_proto (\<lambda>n. [])"] by blast
  have n: "0 < length (attempts s)" "\<not> att_completed (attempts s ! 0)" by (simp_all add: h(3))
  have "fst (on_connect_timer 0 False s) = [(0, Inl ''connect timed out'')]"
    using connect_callback_once [OF h(1,2) n(1)] n(2) by auto
  then show ?thesis using h n(1) by blast
qed

section \<open>Heartbeat failures\<close>

definition failures :: "peer_id \<Rightarrow> rpc_manager \<Rightarrow> nat" where
  "failures p s = (case map_of (consecutive_failed s) p of None \<Rightarrow> 0 | Some n \<Rightarrow> n)"

lemma heartbeat_result_fields [simp]:
  "sink_calls (heartbeat_result s r) = sink_calls s" "connections_by_ip (heartbeat_result s r) = connections_by_ip s"
  "shutting_down (heartbeat_result s r) = shutting_down s" "pending_connections (heartbeat_result s r) = pending_connections s"
  "attempts (heartbeat_result s r) = attempts s" "auto_connections (heartbeat_result s r) = auto_connections s"
  by (simp_all add: heartbeat_result_def Let_def case_prod_unfold)

lemma heartbeat_collect_fields [simp]:
  "sink_calls (heartbeat_collect rs s) = sink_calls s" "connections_by_ip (heartbeat_collect rs s) = connections_by_ip s"
  "shutting_down (heartbeat_collect rs s) = shutting_down s" "pending_connections (heartbeat_collect rs s) = pending_connections s"
  "attempts (heartbeat_collect rs s) = attempts s" "auto_connections (heartbeat_collect rs s) = auto_connections s"
  unfolding heartbeat_collect_def by (induction rs arbitrary: s) simp_all

lemma heartbeat_result_count:
  assumes "\<not> shutting_down s" "map_of (connections_by_peer (heartbeat_result s r)) p \<noteq> None"
  shows "failures p (heartbeat_result s r) = failures p s + (if r = (p, False) then 1 else 0)"
    "r = (p, False) \<Longrightarrow> failures p (heartbeat_result s r) < MAX_HEARTBEAT_FAILURES"
    "map_of (connections_by_peer s) p \<noteq> None"
proof -
  obtain q ok where r: "r = (q, ok)" by force
  note d = heartbeat_result_def failures_def r update_conv' delete_conv'
  show "failures p (heartbeat_result s r) = failures p s + (if r = (p, False) then 1 else 0)"
    using assms by (cases "q = p") (auto simp: d Let_def split: if_splits option.splits)
  show "r = (p, False) \<Longrightarrow> failures p (heartbeat_result s r) < MAX_HEARTBEAT_FAILURES"
    using assms by (auto simp: d Let_def split: if_splits option.splits)
  show "map_of (connections_by_peer s) p \<noteq> None" using assms by (auto simp: d Let_def split: if_splits)
qed

lemma heartbeat_collect_count:
  assumes "\<not> shutting_down s" "map_of (connections_by_peer (heartbeat_collect rs s)) p \<noteq> None"
  shows "failures p (heartbeat_collect rs s) = failures p s + count_list rs (p, False) \<and>
    (count_list rs (p, False) = 0 \<or> failures p (heartbeat_collect rs s) < MAX_HEARTBEAT_FAILURES)"
  using assms
proof (induction rs rule: rev_induct)
  case (snoc r rs)
  let ?t = "heartbeat_collect rs s"
  have e: "heartbeat_collect (rs @ [r]) s = heartbeat_result ?t r" by (simp add: heartbeat_collect_def)
  have t: "\<not> shutting_down ?t" using snoc.prems by simp
  note c = heartbeat_result_count [OF t snoc.prems(2) [unfolded e]]
  have "failures p ?t = failures p s + count_list rs (p, False)" "count_list rs (p, False) = 0 \<or> failures p ?t < MAX_HEARTBEAT_FAILURES"
    using snoc.IH [OF snoc.prems(1) c(3)] by blast+
  then show ?case using c(1,2) unfolding e by auto
qed (simp add: heartbeat_collect_def)

text \<open>
  C39.  A peer with five failed heartbeats is dropped, and its address stays blocked.  Whatever successes come in
  between (they do not reset the counter), five failures take the peer out of the table by id, so that sending to it gives
  \<^verbatim>\<open>INVALID_PEER\<close>.  The sink is not told, and the entry by address stays: every later attempt to connect to
  the address is refused as already active, the maintenance cycle does not try it, and \<^verbatim>\<open>remove_connection\<close>
  does not find the peer.
\<close>

theorem heartbeat_failures_drop_peer:
  assumes "\<not> shutting_down s" "map_of (connections_by_ip s) h = Some a"
    and "MAX_HEARTBEAT_FAILURES \<le> count_list results (p, False)" "s' = heartbeat_collect results s"
  shows "send_tcp_message L p env s' = (Inl INVALID_PEER, [], s') \<and> send_udp_message L p pkt s' = (Inl INVALID_PEER, s') \<and>
    remove_connection p s' = (False, s') \<and> sink_calls s' = sink_calls s \<and>
    fst (connect_async h port s') = [(length (attempts s'), Inl ''connection already pending or active'')] \<and>
    (\<forall>t\<in>set (missing_targets s'). ip t \<noteq> h)"
proof -
  have "map_of (connections_by_peer s') p = None"
    using heartbeat_collect_count [OF assms(1), of results p] assms(3,4) by (cases "map_of (connections_by_peer s') p") (auto simp: MAX_HEARTBEAT_FAILURES_def)
  moreover have "map_of (connections_by_ip s') h = Some a" using assms(2,4) by simp
  ultimately show ?thesis using assms(4)
    by (auto simp: send_tcp_message_def send_udp_message_def remove_connection_def connect_async_def missing_targets_def Let_def)
qed

theorem heartbeat_failures_drop_peer_witness:
  "\<exists>s results. \<not> shutting_down s \<and> map_of (connections_by_peer s) ''q'' = Some 0 \<and> map_of (connections_by_ip s) ''h'' = Some 0 \<and>
     (''q'', True) \<in> set results \<and> remove_connection ''q'' (heartbeat_collect results s) = (False, heartbeat_collect results s)"
proof -
  obtain s0 :: rpc_manager where s0: "\<not> shutting_down s0" using ex_connecting [of "ex_proto (\<lambda>n. [])"] by blast
  let ?s = "s0\<lparr>store := [(0, RpcConnection (''a'', 1) (''h'', 2) ''p'' 5 False)], connections_by_peer := [(''q'', 0)], connections_by_ip := [(''h'', 0)]\<rparr>"
  let ?f = "(''q'', False)"
  let ?rs = "[?f, ?f, (''q'', True), ?f, ?f, ?f]"
  have "\<not> shutting_down ?s" "map_of (connections_by_ip ?s) ''h'' = Some 0" "MAX_HEARTBEAT_FAILURES \<le> count_list ?rs ?f"
    using s0 by (simp_all add: MAX_HEARTBEAT_FAILURES_def)
  from heartbeat_failures_drop_peer [OF this refl, of "ex_proto (\<lambda>n. [])" default_envelope] s0
  show ?thesis by (intro exI [of _ ?s] exI [of _ ?rs]) simp
qed

end
