(* ===== verification/Mesh_Node.thy ===== *)
theory Mesh_Node
  imports Router Request_Tracker Crypto Rpc_Manager
begin

text \<open>
  \<^verbatim>\<open>MeshNode\<close> of \<^verbatim>\<open>node/MeshNode.h\<close> and \<^verbatim>\<open>node/MeshNode.cpp\<close>: requests, responses, message handlers and
  encryption on top of the router.  The record \<open>mesh_node\<close> extends the record of the router, so the
  node's packet callback is a callback of the router.  The node's id is the router's \<open>self_id\<close>.

  The templates take a message of any protobuf type: the model takes the full name of the type
  and the serialised message.  What the program uses of the message types is in \<open>app_lib\<close>.  A
  handler that code outside the repository registers gets the sender and the message and
  gives the list of its replies (\<open>user_replies\<close>).  What the node tells its user (callbacks, promises, texts)
  is recorded in \<open>app_events\<close>.

  A packet the node sends itself never comes back to its own callback, because the router does not call
  it for packets from its own id (lemma \<open>own_packets_skip_callback\<close> of \<open>Mesh_Node_Inv\<close>): the
  node's sends use the router without a callback.
\<close>

section \<open>Message types\<close>

definition identity_request_subtype :: string where "identity_request_subtype = ''mesh.IdentityRequest''"
definition identity_response_subtype :: string where "identity_response_subtype = ''mesh.IdentityResponse''"

text \<open>
  \<open>parses t b\<close>: \<^verbatim>\<open>ParseFromString(b)\<close> succeeds for the message type with the full name \<open>t\<close>.  The
  accessors read a field of a message that parses.
\<close>

record app_lib =
  parses :: "string \<Rightarrow> bytes \<Rightarrow> bool"
  identity_request_bytes :: "string \<Rightarrow> bytes"
  identity_request_cert :: "bytes \<Rightarrow> string"
  identity_response_bytes :: "string \<Rightarrow> bytes"
  identity_response_cert :: "bytes \<Rightarrow> string"
  ping_request_bytes :: "string \<Rightarrow> bytes"
  ping_response_bytes :: "string \<Rightarrow> bytes"
  topology_request_bytes :: bytes
  topology_response_bytes :: "peer_id list \<Rightarrow> bytes"
  directly_connected_peers :: "bytes \<Rightarrow> peer_id list"
  user_replies :: "nat \<Rightarrow> peer_id \<Rightarrow> bytes \<Rightarrow> bytes list"

definition pkt_text :: "routed_packet \<Rightarrow> string" where
  "pkt_text p = (case payload_variant p of TextPayload t \<Rightarrow> t | _ \<Rightarrow> [])"

section \<open>State\<close>

datatype request_error = RequestTimeout | EncryptionError | MalformedResponse

text \<open>The callbacks the program gives to \<^verbatim>\<open>send_request_async\<close>: those of its users, the one of \<^verbatim>\<open>send_request\<close> and the one of \<^verbatim>\<open>send_identity_request\<close>.\<close>

datatype app_callback = UserCallback nat | PromiseCallback nat | IdentityCallback

text \<open>What the request tracker holds: \<^verbatim>\<open>internal_cb\<close> for a response type, and the two lambdas of \<^verbatim>\<open>broadcast_request\<close>.\<close>

datatype node_cb = InternalCb string app_callback | OnResponse string nat | OnComplete nat

datatype app_event = CallbackRun nat peer_id "request_error + bytes" | PromiseValue nat "request_error + peer_id \<times> bytes"
  | BroadcastValue nat "(peer_id \<times> bytes) list" | HandlerRun nat peer_id bytes | TextShown peer_id string

datatype packet_handler = TopologyHandler | PingHandler | IdentityHandler | HeartbeatNoop | UserHandler string nat

record handler_info =
  ResponseSubtype :: "string option"
  info_handler :: packet_handler

record mesh_node = router +
  encrypt_messages :: bool
  output_directory :: string
  ignore_all_incoming_messages :: bool
  id_request_cooldowns :: "(peer_id \<times> time_ms) list"
  rpc_connections :: rpc_manager
  identity :: identity_manager
  tracker :: "node_cb request_tracker"
  handlers :: "(string \<times> handler_info) list"
  collected :: "(nat \<times> (peer_id \<times> bytes) list) list"
  app_events :: "app_event list"
  rand_count :: nat

definition emit :: "app_event \<Rightarrow> mesh_node \<Rightarrow> mesh_node" where
  "emit e s = s\<lparr>app_events := app_events s @ [e]\<rparr>"

section \<open>Construction\<close>

text \<open>The router gets its transport and the transport its sink; the constructor of the transport can throw.\<close>

definition MeshNode :: "time_ms \<Rightarrow> int \<Rightarrow> peer_id \<Rightarrow> bool \<Rightarrow> identity_manager \<Rightarrow> bool \<Rightarrow> udp_fec_options \<Rightarrow> sockets \<Rightarrow> string + mesh_node" where
  "MeshNode now uport peer ssl im encrypt options net =
     (case RpcManager peer uport False ssl options net of
        Inl e \<Rightarrow> Inl e
      | Inr m \<Rightarrow> Inr (set_transport True (router.extend (MeshRouter now peer False)
          (mesh_node.fields encrypt [] False [] (set_sink True m) im new_tracker [] [] [] 0))))"

definition on_request :: "string \<Rightarrow> string \<Rightarrow> packet_handler \<Rightarrow> mesh_node \<Rightarrow> mesh_node" where
  "on_request request_type response_type h s =
     s\<lparr>handlers := AList.update request_type \<lparr>ResponseSubtype = Some response_type, info_handler = h\<rparr> (handlers s)\<rparr>"

definition on_message_type :: "string \<Rightarrow> packet_handler \<Rightarrow> mesh_node \<Rightarrow> mesh_node" where
  "on_message_type request_type h s =
     s\<lparr>handlers := AList.update request_type \<lparr>ResponseSubtype = None, info_handler = h\<rparr> (handlers s)\<rparr>"

definition setup_builtin_handlers :: "mesh_node \<Rightarrow> mesh_node" where
  "setup_builtin_handlers s =
     on_message_type ''mesh.Heartbeat'' HeartbeatNoop
       (on_request identity_request_subtype identity_response_subtype IdentityHandler
         (on_request ''mesh.PingRequest'' ''mesh.PingResponse'' PingHandler
           (on_request ''mesh.TopologyRequest'' ''mesh.TopologyResponse'' TopologyHandler s)))"

definition node_start :: "mesh_node \<Rightarrow> mesh_node" where
  "node_start s = router_start (setup_builtin_handlers s)"

definition node_stop :: "mesh_node \<Rightarrow> mesh_node" where
  "node_stop s = s\<lparr>rpc_connections := snd (mgr_shutdown (rpc_connections s))\<rparr>"

definition node_connect :: "string \<Rightarrow> int \<Rightarrow> mesh_node \<Rightarrow> mesh_node" where
  "node_connect host port s = s\<lparr>rpc_connections := snd (connect_async host port (rpc_connections s))\<rparr>"

definition node_add_auto_connection :: "string \<Rightarrow> int \<Rightarrow> mesh_node \<Rightarrow> mesh_node" where
  "node_add_auto_connection ip_address port s =
     s\<lparr>rpc_connections := add_auto_connection (MakePeerIP ip_address port 0) (rpc_connections s)\<rparr>"

definition node_remove_auto_connection :: "string \<Rightarrow> int \<Rightarrow> mesh_node \<Rightarrow> mesh_node" where
  "node_remove_auto_connection ip_address port s =
     s\<lparr>rpc_connections := remove_auto_connection (MakePeerIP ip_address port 0) (rpc_connections s)\<rparr>"

definition set_block_all_messages :: "bool \<Rightarrow> mesh_node \<Rightarrow> mesh_node" where
  "set_block_all_messages b s = s\<lparr>ignore_all_incoming_messages := b\<rparr>"

definition set_output_directory :: "string \<Rightarrow> mesh_node \<Rightarrow> mesh_node" where
  "set_output_directory dir s = s\<lparr>output_directory := dir\<rparr>"

definition get_nodes_in_network :: "mesh_node \<Rightarrow> peer_id list" where
  "get_nodes_in_network s = get_peers_in_network s"

section \<open>Sending\<close>

definition node_send_packet :: "mesh_lib \<Rightarrow> time_ms \<Rightarrow> routed_packet \<Rightarrow> mesh_node \<Rightarrow> mesh_node" where
  "node_send_packet L now pkt s = send_packet L None now pkt s"

text \<open>\<^verbatim>\<open>security_->secure_packet\<close>: three random draws are set aside for each call.\<close>

definition node_secure :: "('k, 'x) crypto_lib \<Rightarrow> routed_packet \<Rightarrow> peer_id \<Rightarrow> bytes \<Rightarrow> mesh_node \<Rightarrow> bool \<times> routed_packet \<times> mesh_node" where
  "node_secure C pkt target raw s =
     (let (ok, pkt) = secure_packet C (rand_count s) (identity s) pkt target raw in (ok, pkt, s\<lparr>rand_count := rand_count s + 3\<rparr>))"

definition should_send_identity_request :: "time_ms \<Rightarrow> peer_id \<Rightarrow> mesh_node \<Rightarrow> bool \<times> mesh_node" where
  "should_send_identity_request now peer s =
     (let blocked = (case map_of (id_request_cooldowns s) peer of
                       None \<Rightarrow> False
                     | Some last_request_time \<Rightarrow> (now - last_request_time) div 1000 < 5)
      in if blocked then (False, s)
         else (True, s\<lparr>id_request_cooldowns := AList.update peer now (id_request_cooldowns s)\<rparr>))"

text \<open>The part of \<^verbatim>\<open>send_request_async\<close> for messages that are not encrypted.\<close>

definition send_plain_request :: "mesh_lib \<Rightarrow> time_ms \<Rightarrow> peer_id \<Rightarrow> string \<Rightarrow> bytes \<Rightarrow> string \<Rightarrow> app_callback \<Rightarrow> transport_protocol
    \<Rightarrow> mesh_node \<Rightarrow> mesh_node" where
  "send_plain_request L now dest type payload response_type cb protocol s =
     (let (u, s) = draw_uuid L s;
          pkt = MakeBinaryRoutedPacket u (self_id s) dest DEFAULT_TTL type protocol payload True
      in node_send_packet L now pkt
           (s\<lparr>tracker := track_request_callback (to_hex (pkt_id pkt)) (InternalCb response_type cb) (tracker s)\<rparr>))"

text \<open>An \<^verbatim>\<open>IdentityRequest\<close> is never encrypted, so \<^verbatim>\<open>send_request_async\<close> takes that part for it.\<close>

definition send_identity_request :: "mesh_lib \<Rightarrow> app_lib \<Rightarrow> time_ms \<Rightarrow> peer_id \<Rightarrow> mesh_node \<Rightarrow> mesh_node" where
  "send_identity_request L P now dest s =
     send_plain_request L now dest identity_request_subtype (identity_request_bytes P (my_cert (identity s)))
       identity_response_subtype IdentityCallback TCP s"

text \<open>Putting off a packet for a peer whose key is not known.\<close>

definition postpone :: "mesh_lib \<Rightarrow> app_lib \<Rightarrow> time_ms \<Rightarrow> peer_id \<Rightarrow> routed_packet \<Rightarrow> mesh_node \<Rightarrow> mesh_node" where
  "postpone L P now dest pkt s =
     (let s = s\<lparr>identity := buffer_outgoing_packet dest pkt (identity s)\<rparr>;
          (ask, s) = should_send_identity_request now dest s
      in if ask then send_identity_request L P now dest s else s)"

definition node_send_message :: "mesh_lib \<Rightarrow> app_lib \<Rightarrow> ('k, 'x) crypto_lib \<Rightarrow> time_ms \<Rightarrow> peer_id \<Rightarrow> string \<Rightarrow> bytes \<Rightarrow> transport_protocol
    \<Rightarrow> mesh_node \<Rightarrow> mesh_node" where
  "node_send_message L P C now dest type payload protocol s =
     (if encrypt_messages s \<and> type \<noteq> identity_request_subtype
      then let (u, s) = draw_uuid L s;
               pkt = MakeBinaryRoutedPacket u (self_id s) dest DEFAULT_TTL type protocol [] False
           in if \<not> has_key dest (identity s) then postpone L P now dest pkt s
              else let (ok, pkt, s) = node_secure C pkt dest payload s
                   in if ok then node_send_packet L now pkt s else s
      else let (u, s) = draw_uuid L s
           in node_send_packet L now (MakeBinaryRoutedPacket u (self_id s) dest DEFAULT_TTL type protocol payload False) s)"

definition broadcast_message :: "mesh_lib \<Rightarrow> time_ms \<Rightarrow> string \<Rightarrow> bytes \<Rightarrow> transport_protocol \<Rightarrow> mesh_node \<Rightarrow> mesh_node" where
  "broadcast_message L now type payload protocol s =
     (let (u, s) = draw_uuid L s
      in node_send_packet L now (MakeBinaryRoutedPacket u (self_id s) [] DEFAULT_TTL type protocol payload False) s)"

definition send_text :: "mesh_lib \<Rightarrow> time_ms \<Rightarrow> peer_id \<Rightarrow> string \<Rightarrow> mesh_node \<Rightarrow> mesh_node" where
  "send_text L now remote_id text s =
     (let (u, s) = draw_uuid L s
      in node_send_packet L now (MakeTextRoutedPacket u (self_id s) remote_id DEFAULT_TTL text False) s)"

section \<open>Requests\<close>

text \<open>
  The two paths of \<^verbatim>\<open>send_request_async\<close> on which the callback runs are the response (through the
  tracker) and a failed encryption, where it runs at once.  A callback of the identity exchange ignores errors.
\<close>

definition request_failed :: "app_callback \<Rightarrow> peer_id \<Rightarrow> request_error \<Rightarrow> mesh_node \<Rightarrow> mesh_node" where
  "request_failed cb peer e s =
     (case cb of UserCallback n \<Rightarrow> emit (CallbackRun n peer (Inl e)) s
               | PromiseCallback n \<Rightarrow> emit (PromiseValue n (Inl e)) s
               | IdentityCallback \<Rightarrow> s)"

definition send_request_async :: "mesh_lib \<Rightarrow> app_lib \<Rightarrow> ('k, 'x) crypto_lib \<Rightarrow> time_ms \<Rightarrow> peer_id \<Rightarrow> string \<Rightarrow> bytes \<Rightarrow> string \<Rightarrow> app_callback
    \<Rightarrow> transport_protocol \<Rightarrow> mesh_node \<Rightarrow> mesh_node" where
  "send_request_async L P C now dest type payload response_type cb protocol s =
     (if encrypt_messages s \<and> type \<noteq> identity_request_subtype
      then let (u, s) = draw_uuid L s;
               pkt = MakeBinaryRoutedPacket u (self_id s) dest DEFAULT_TTL type protocol [] True;
               track = (\<lambda>s. s\<lparr>tracker := track_request_callback (to_hex (pkt_id pkt)) (InternalCb response_type cb) (tracker s)\<rparr>)
           in if \<not> has_key dest (identity s) then postpone L P now dest pkt (track s)
              else let (ok, pkt, s) = node_secure C pkt dest payload s
                   in if ok then node_send_packet L now pkt (track s) else request_failed cb dest EncryptionError s
      else send_plain_request L now dest type payload response_type cb protocol s)"

text \<open>\<^verbatim>\<open>send_request\<close> does not hand its \<^verbatim>\<open>protocol\<close> argument on: the default \<^verbatim>\<open>TCP\<close> is used.\<close>

definition send_request :: "mesh_lib \<Rightarrow> app_lib \<Rightarrow> ('k, 'x) crypto_lib \<Rightarrow> time_ms \<Rightarrow> peer_id \<Rightarrow> string \<Rightarrow> bytes \<Rightarrow> string \<Rightarrow> nat
    \<Rightarrow> transport_protocol \<Rightarrow> mesh_node \<Rightarrow> mesh_node" where
  "send_request L P C now dest type payload response_type prom protocol s =
     send_request_async L P C now dest type payload response_type (PromiseCallback prom) TCP s"

definition broadcast_request :: "mesh_lib \<Rightarrow> time_ms \<Rightarrow> string \<Rightarrow> bytes \<Rightarrow> string \<Rightarrow> nat \<Rightarrow> transport_protocol \<Rightarrow> mesh_node \<Rightarrow> mesh_node" where
  "broadcast_request L now type payload response_type prom protocol s =
     (let (u, s) = draw_uuid L s;
          pkt = MakeBinaryRoutedPacket u (self_id s) [] 15 type protocol payload True
      in node_send_packet L now pkt
           (s\<lparr>collected := AList.update prom [] (collected s),
              tracker := track_broadcast (to_hex (pkt_id pkt)) (OnResponse response_type prom) (OnComplete prom) (tracker s)\<rparr>))"

text \<open>\<^verbatim>\<open>ping\<close> sends and waits for the promise; its result is whether the promise got a response.\<close>

definition ping_begin :: "mesh_lib \<Rightarrow> app_lib \<Rightarrow> ('k, 'x) crypto_lib \<Rightarrow> time_ms \<Rightarrow> peer_id \<Rightarrow> nat \<Rightarrow> mesh_node \<Rightarrow> mesh_node" where
  "ping_begin L P C now peer prom s =
     send_request L P C now peer ''mesh.PingRequest'' (ping_request_bytes P (''hello from '' @ self_id s)) ''mesh.PingResponse'' prom TCP s"

definition ping_end :: "request_error + peer_id \<times> bytes \<Rightarrow> bool" where
  "ping_end r = (case r of Inr _ \<Rightarrow> True | Inl _ \<Rightarrow> False)"

section \<open>Receiving\<close>

text \<open>
  \<^verbatim>\<open>handle_incoming_packet\<close> can call itself: through a handler or a callback of the identity exchange it
  handles the packets that were waiting for the key.  The helpers below get this inner call as the
  argument \<open>rec\<close>, and the number in \<open>handle_incoming_packet\<close> bounds the depth of the calls; the result is
  \<open>None\<close> if the bound is too small.
\<close>

type_synonym packet_rec = "routed_packet \<Rightarrow> mesh_node \<Rightarrow> (routed_packet \<times> mesh_node) option"

definition handle_pending_incoming_packets :: "packet_rec \<Rightarrow> peer_id \<Rightarrow> mesh_node \<Rightarrow> mesh_node option" where
  "handle_pending_incoming_packets rec src s =
     (let (packets, im) = pop_incoming_pending_packets src (identity s)
      in foldl (\<lambda>so pkt. Option.bind so (\<lambda>s. map_option snd (rec pkt s))) (Some (s\<lparr>identity := im\<rparr>)) packets)"

definition send_pending :: "mesh_lib \<Rightarrow> ('k, 'x) crypto_lib \<Rightarrow> time_ms \<Rightarrow> mesh_node \<Rightarrow> routed_packet \<Rightarrow> mesh_node" where
  "send_pending L C now s pkt =
     (let (ok, pkt, s) = node_secure C pkt (to_peer_id pkt) (binary_data pkt) s in if ok then node_send_packet L now pkt s else s)"

definition handle_pending_outgoing_packets :: "mesh_lib \<Rightarrow> ('k, 'x) crypto_lib \<Rightarrow> time_ms \<Rightarrow> peer_id \<Rightarrow> mesh_node \<Rightarrow> mesh_node" where
  "handle_pending_outgoing_packets L C now dest s =
     (let (packets, im) = pop_outgoing_pending_packets dest (identity s)
      in foldl (send_pending L C now) (s\<lparr>identity := im\<rparr>) packets)"

text \<open>What both sides of the identity exchange do with the certificate of the other.\<close>

definition learn_identity :: "mesh_lib \<Rightarrow> ('k, 'x) crypto_lib \<Rightarrow> time_ms \<Rightarrow> packet_rec \<Rightarrow> peer_id \<Rightarrow> string \<Rightarrow> mesh_node \<Rightarrow> mesh_node option" where
  "learn_identity L C now rec peer cert s =
     map_option (handle_pending_outgoing_packets L C now peer)
       (handle_pending_incoming_packets rec peer
         (s\<lparr>identity := add_trusted_peer peer (extract_pubkey_from_cert C cert) (identity s)\<rparr>))"

definition run_app_callback :: "mesh_lib \<Rightarrow> app_lib \<Rightarrow> ('k, 'x) crypto_lib \<Rightarrow> time_ms \<Rightarrow> packet_rec \<Rightarrow> app_callback \<Rightarrow> peer_id \<Rightarrow> bytes
    \<Rightarrow> mesh_node \<Rightarrow> mesh_node option" where
  "run_app_callback L P C now rec cb sender raw s =
     (case cb of UserCallback n \<Rightarrow> Some (emit (CallbackRun n sender (Inr raw)) s)
               | PromiseCallback n \<Rightarrow> Some (emit (PromiseValue n (Inr (sender, raw))) s)
               | IdentityCallback \<Rightarrow> learn_identity L C now rec sender (identity_response_cert P raw) s)"

text \<open>The callbacks in the tracker.\<close>

fun run_tracker_call :: "mesh_lib \<Rightarrow> app_lib \<Rightarrow> ('k, 'x) crypto_lib \<Rightarrow> time_ms \<Rightarrow> packet_rec \<Rightarrow> node_cb tracker_call \<Rightarrow> mesh_node \<Rightarrow> mesh_node option" where
  "run_tracker_call L P C now rec (RequestCallback _ (InternalCb response_type cb) sender raw) s =
     (case raw of
        None \<Rightarrow> Some (request_failed cb sender RequestTimeout s)
      | Some raw_bytes \<Rightarrow>
          if parses P response_type raw_bytes then run_app_callback L P C now rec cb sender raw_bytes s
          else Some (request_failed cb sender MalformedResponse s))"
| "run_tracker_call L P C now rec (BroadcastResponse _ (OnResponse response_type prom) sender raw) s =
     (if parses P response_type raw
      then Some (s\<lparr>collected := AList.update prom ((case map_of (collected s) prom of None \<Rightarrow> [] | Some xs \<Rightarrow> xs) @ [(sender, raw)]) (collected s)\<rparr>)
      else Some s)"
| "run_tracker_call L P C now rec (BroadcastComplete _ (OnComplete prom)) s =
     Some (emit (BroadcastValue prom (case map_of (collected s) prom of None \<Rightarrow> [] | Some xs \<Rightarrow> xs)) s)"
| "run_tracker_call L P C now rec _ s = Some s"

text \<open>The lambda \<^verbatim>\<open>reply_cb\<close>\<close>

definition reply :: "mesh_lib \<Rightarrow> ('k, 'x) crypto_lib \<Rightarrow> time_ms \<Rightarrow> routed_packet \<Rightarrow> string option \<Rightarrow> bytes \<Rightarrow> mesh_node \<Rightarrow> mesh_node" where
  "reply L C now req subtype_opt response_payload s =
     (if \<not> expect_response req then s
      else let type = (case subtype_opt of None \<Rightarrow> [] | Some t \<Rightarrow> t);
               (u, s) = draw_uuid L s;
               resp = (MakeBinaryRoutedPacket u (self_id s) (from_peer_id req) 15 type (transport req) response_payload False)\<lparr>pkt_id := pkt_id req\<rparr>;
               is_identity_exchange = (type = identity_request_subtype \<or> type = identity_response_subtype)
           in if encrypt_messages s \<and> \<not> is_identity_exchange
              then let (ok, resp, s) = node_secure C resp (from_peer_id req) response_payload s
                   in if ok then node_send_packet L now resp s else s
              else node_send_packet L now (resp\<lparr>payload_variant := BinaryData response_payload\<rparr>) s)"

text \<open>The handlers as \<^verbatim>\<open>on\<close> wraps them: a message that does not parse is logged only.\<close>

fun run_handler :: "mesh_lib \<Rightarrow> app_lib \<Rightarrow> ('k, 'x) crypto_lib \<Rightarrow> time_ms \<Rightarrow> packet_rec \<Rightarrow> packet_handler \<Rightarrow> peer_id \<Rightarrow> bytes
    \<Rightarrow> (bytes \<Rightarrow> mesh_node \<Rightarrow> mesh_node) \<Rightarrow> mesh_node \<Rightarrow> mesh_node option" where
  "run_handler L P C now rec TopologyHandler from raw reply_cb s =
     Some (if parses P ''mesh.TopologyRequest'' raw then reply_cb (topology_response_bytes P (get_direct_neighbors s)) s else s)"
| "run_handler L P C now rec PingHandler from raw reply_cb s =
     Some (if parses P ''mesh.PingRequest'' raw then reply_cb (ping_response_bytes P (''hello from'' @ self_id s)) s else s)"
| "run_handler L P C now rec IdentityHandler from raw reply_cb s =
     (if parses P identity_request_subtype raw
      then map_option (\<lambda>s. reply_cb (identity_response_bytes P (my_cert (identity s))) s)
             (learn_identity L C now rec from (identity_request_cert P raw) s)
      else Some s)"
| "run_handler L P C now rec HeartbeatNoop from raw reply_cb s = Some s"
| "run_handler L P C now rec (UserHandler request_type n) from raw reply_cb s =
     Some (if parses P request_type raw
           then foldl (\<lambda>s b. reply_cb b s) (emit (HandlerRun n from raw) s) (user_replies P n from raw) else s)"

text \<open>The packet in the clear, or the state in which the packet is put off or dropped.\<close>

definition open_packet :: "mesh_lib \<Rightarrow> app_lib \<Rightarrow> ('k, 'x) crypto_lib \<Rightarrow> time_ms \<Rightarrow> routed_packet \<Rightarrow> mesh_node \<Rightarrow> mesh_node + routed_packet" where
  "open_packet L P C now pkt s =
     (if \<not> has_encrypted_payload pkt then Inr pkt
      else let from = from_peer_id pkt in
      if \<not> has_key from (identity s)
      then let s = s\<lparr>identity := buffer_incoming_packet from pkt (identity s)\<rparr>;
               (ask, s) = should_send_identity_request now from s
           in Inl (if ask then send_identity_request L P now from s else s)
      else case decrypt_packet C (identity s) pkt of
             Inl e \<Rightarrow> Inl s
           | Inr plaintext \<Rightarrow>
               Inr ((clear_encrypted_payload pkt)\<lparr>signature := [], encrypted_session_key := [], payload_variant := BinaryData plaintext\<rparr>))"

definition dispatch_packet :: "mesh_lib \<Rightarrow> app_lib \<Rightarrow> ('k, 'x) crypto_lib \<Rightarrow> time_ms \<Rightarrow> packet_rec \<Rightarrow> routed_packet \<Rightarrow> mesh_node \<Rightarrow> mesh_node option" where
  "dispatch_packet L P C now rec pkt s =
     (let (found, cs, t) = fulfill_request (to_hex (pkt_id pkt)) (from_peer_id pkt) (binary_data pkt) (tracker s);
          s = s\<lparr>tracker := t\<rparr>
      in if found then foldl (\<lambda>so c. Option.bind so (run_tracker_call L P C now rec c)) (Some s) cs
         else if pkt_type pkt = BINARY
         then (case map_of (handlers s) (subtype pkt) of
                 None \<Rightarrow> Some s
               | Some h \<Rightarrow> run_handler L P C now rec (info_handler h) (from_peer_id pkt) (binary_data pkt) (reply L C now pkt (ResponseSubtype h)) s)
         else if pkt_type pkt = TEXT then Some (emit (TextShown (from_peer_id pkt) (pkt_text pkt)) s)
         else Some s)"

primrec handle_incoming_packet :: "nat \<Rightarrow> mesh_lib \<Rightarrow> app_lib \<Rightarrow> ('k, 'x) crypto_lib \<Rightarrow> time_ms \<Rightarrow> packet_rec" where
  "handle_incoming_packet 0 L P C now = (\<lambda>pkt s. None)"
| "handle_incoming_packet (Suc depth) L P C now =
     (\<lambda>pkt s. if ignore_all_incoming_messages s then Some (pkt, s)
       else case open_packet L P C now pkt s of
              Inl s \<Rightarrow> Some (pkt, s)
            | Inr pkt \<Rightarrow> map_option (Pair pkt) (dispatch_packet L P C now (handle_incoming_packet depth L P C now) pkt s))"

text \<open>
  The callback the node gives to the router.  A depth of two is enough (theorem
  \<open>incoming_packet_handled\<close> of \<open>Mesh_Node_Theorems\<close>): the packets that wait for a key are from the peer whose key has come,
  and a packet from that peer is not put off again.
\<close>

definition node_callback :: "mesh_lib \<Rightarrow> app_lib \<Rightarrow> ('k, 'x) crypto_lib \<Rightarrow> time_ms \<Rightarrow> routed_packet \<Rightarrow> mesh_node \<Rightarrow> routed_packet \<times> mesh_node" where
  "node_callback L P C now pkt s =
     (case handle_incoming_packet 2 L P C now pkt s of None \<Rightarrow> (pkt, s) | Some r \<Rightarrow> r)"

text \<open>A timer of the request tracker.\<close>

definition node_timer :: "mesh_lib \<Rightarrow> app_lib \<Rightarrow> ('k, 'x) crypto_lib \<Rightarrow> time_ms \<Rightarrow> nat \<Rightarrow> bool \<Rightarrow> mesh_node \<Rightarrow> mesh_node option" where
  "node_timer L P C now n aborted s =
     (case map_of (waiting (tracker_timers (tracker s))) n of
        None \<Rightarrow> Some s
      | Some job \<Rightarrow>
          (let (cs, t) = on_timer job aborted ((tracker s)\<lparr>tracker_timers := take_handler n (tracker_timers (tracker s))\<rparr>)
           in foldl (\<lambda>so c. Option.bind so (run_tracker_call L P C now (handle_incoming_packet 1 L P C now) c)) (Some (s\<lparr>tracker := t\<rparr>)) cs))"

section \<open>The transport below\<close>

text \<open>
  The router calls the transport at once and looks at no result, and the transport reports to the router through
  its queue.  So performing the recorded calls of the router in their order, and handing the recorded
  calls of the manager to the queue of the router in theirs, is what the code does.
\<close>

definition transport_send :: "mesh_lib \<Rightarrow> rpc_manager \<Rightarrow> transport_call \<Rightarrow> rpc_manager" where
  "transport_send L m c =
     (case c of SendTcp p env \<Rightarrow> snd (snd (send_tcp_message L p env m))
              | SendUdp p pkt \<Rightarrow> snd (send_udp_message L p pkt m)
              | PacketForMe _ \<Rightarrow> m)"

definition perform_sends :: "mesh_lib \<Rightarrow> mesh_node \<Rightarrow> mesh_node" where
  "perform_sends L s = s\<lparr>rpc_connections := foldl (transport_send L) (rpc_connections s) (calls s), calls := []\<rparr>"

definition sink_event :: "mesh_lib \<Rightarrow> mesh_node \<Rightarrow> sink_call \<Rightarrow> mesh_node" where
  "sink_event L s c =
     (case c of PushData p b \<Rightarrow> push_data_bytes L p b s
              | PeerConnected p \<Rightarrow> on_peer_connected p s
              | PeerDisconnected p \<Rightarrow> on_peer_disconnected p s)"

definition deliver_events :: "mesh_lib \<Rightarrow> mesh_node \<Rightarrow> mesh_node" where
  "deliver_events L s =
     (let m = rpc_connections s in foldl (sink_event L) (s\<lparr>rpc_connections := m\<lparr>sink_calls := []\<rparr>\<rparr>) (sink_calls m))"

end
