(* ===== verification/Mesh_Node_Inv.thy ===== *)
theory Mesh_Node_Inv
  imports Mesh_Node Router_Theorems
begin

text \<open>
  What the operations of the node keep.  The locale \<open>node_relation\<close> proves once, for every relation between
  states that holds for the node's elementary updates, that it holds for all its operations,
  the recursive handling of packets included.  Its two interpretations give the router's contract for
  the node's callback and the confidentiality of what the node sends.
\<close>

section \<open>Sending a packet\<close>

text \<open>The router never runs the callback for a packet of its own node.\<close>

lemma own_packets_skip_callback:
  "from_peer_id pkt = self_id s \<Longrightarrow> send_packet L cb now pkt s = send_packet L None now pkt s"
  by (cases cb) (simp_all add: send_packet_def route_data_packet_def deliver_local_def Let_def)

lemma sent_update:
  "\<exists>n cs. (s :: 'z router_scheme) = s\<lparr>uuid_count := n, calls := cs\<rparr>"
  "\<exists>n cs. (s :: 'z router_scheme)\<lparr>calls := b\<rparr> = s\<lparr>uuid_count := n, calls := cs\<rparr>"
  by (rule exI [of _ "uuid_count s"], rule exI [of _ "calls s"], simp) (rule exI [of _ "uuid_count s"], rule exI [of _ b], simp)

lemma forward_to_update: "\<exists>n cs. forward_to L src pkt s p = s\<lparr>uuid_count := n, calls := cs\<rparr>"
proof (cases "\<not> has_transport s \<or> ttl pkt = 1 \<or> p = src \<or> p = self_id s")
  case True
  then show ?thesis using forward_to_skip sent_update(1) by metis
next
  case False
  then show ?thesis using sent_update(1) [of s] sent_update(2) [where s = s] by (cases "transport pkt") (auto simp: forward_to_cases call_def)
qed

lemma forwards_update: "\<exists>n cs. foldl (forward_to L src pkt) s ps = s\<lparr>uuid_count := n, calls := cs\<rparr>"
proof (induction ps arbitrary: s)
  case Nil
  have "s = s\<lparr>uuid_count := uuid_count s, calls := calls s\<rparr>" by simp
  then show ?case by (metis foldl_Nil)
next
  case (Cons p ps)
  obtain n cs where f: "forward_to L src pkt s p = s\<lparr>uuid_count := n, calls := cs\<rparr>" using forward_to_update by blast
  obtain n' cs' where "foldl (forward_to L src pkt) (s\<lparr>uuid_count := n, calls := cs\<rparr>) ps = s\<lparr>uuid_count := n, calls := cs, uuid_count := n', calls := cs'\<rparr>"
    using Cons.IH by blast
  then show ?case using f by auto
qed

lemma node_send_update: "\<exists>d n cs. node_send_packet L now pkt s = s\<lparr>seen_packet_ids := d, uuid_count := n, calls := cs\<rparr>"
proof -
  have e: "s = s\<lparr>seen_packet_ids := seen_packet_ids s, uuid_count := uuid_count s, calls := calls s\<rparr>" by simp
  show ?thesis
  proof (cases "to_peer_id pkt = self_id s")
    case True
    then have "node_send_packet L now pkt s = s" by (simp add: node_send_packet_def send_packet_def route_data_packet_def deliver_local_def)
    then show ?thesis using e by metis
  next
    case False
    define d where "d = snd (dedup_insert now (to_hex (pkt_id pkt), expect_response pkt) (seen_packet_ids s))"
    define ps where "ps = determine_next_hop (to_peer_id pkt) (s\<lparr>seen_packet_ids := d\<rparr>)"
    obtain n cs where "foldl (forward_to L (self_id s) pkt) (s\<lparr>seen_packet_ids := d\<rparr>) ps = s\<lparr>seen_packet_ids := d, uuid_count := n, calls := cs\<rparr>"
      using forwards_update by blast
    moreover have "node_send_packet L now pkt s = foldl (forward_to L (self_id s) pkt) (s\<lparr>seen_packet_ids := d\<rparr>) ps"
      using False by (simp add: node_send_packet_def send_packet_def route_data_packet_def deliver_local_def dedup_and_forward_def Let_def d_def ps_def)
    ultimately show ?thesis by (intro exI [of _ d] exI [of _ n] exI [of _ cs]) simp
  qed
qed

lemma node_send_fields [simp]:
  "self_id (node_send_packet L now pkt s) = self_id s" "forwarding_table (node_send_packet L now pkt s) = forwarding_table s"
  "neighbor_views (node_send_packet L now pkt s) = neighbor_views s" "has_transport (node_send_packet L now pkt s) = has_transport s"
  "event_queue (node_send_packet L now pkt s) = event_queue s"
  "encrypt_messages (node_send_packet L now pkt s) = encrypt_messages s" "identity (node_send_packet L now pkt s) = identity s"
  "ignore_all_incoming_messages (node_send_packet L now pkt s) = ignore_all_incoming_messages s"
  "id_request_cooldowns (node_send_packet L now pkt s) = id_request_cooldowns s" "tracker (node_send_packet L now pkt s) = tracker s"
  "handlers (node_send_packet L now pkt s) = handlers s" "collected (node_send_packet L now pkt s) = collected s"
  "app_events (node_send_packet L now pkt s) = app_events s" "rand_count (node_send_packet L now pkt s) = rand_count s"
  "rpc_connections (node_send_packet L now pkt s) = rpc_connections s"
proof -
  obtain d n cs where e: "node_send_packet L now pkt s = s\<lparr>seen_packet_ids := d, uuid_count := n, calls := cs\<rparr>"
    using node_send_update by blast
  show "self_id (node_send_packet L now pkt s) = self_id s" "forwarding_table (node_send_packet L now pkt s) = forwarding_table s"
    "neighbor_views (node_send_packet L now pkt s) = neighbor_views s" "has_transport (node_send_packet L now pkt s) = has_transport s"
    "event_queue (node_send_packet L now pkt s) = event_queue s"
    "encrypt_messages (node_send_packet L now pkt s) = encrypt_messages s" "identity (node_send_packet L now pkt s) = identity s"
    "ignore_all_incoming_messages (node_send_packet L now pkt s) = ignore_all_incoming_messages s"
    "id_request_cooldowns (node_send_packet L now pkt s) = id_request_cooldowns s" "tracker (node_send_packet L now pkt s) = tracker s"
    "handlers (node_send_packet L now pkt s) = handlers s" "collected (node_send_packet L now pkt s) = collected s"
    "app_events (node_send_packet L now pkt s) = app_events s" "rand_count (node_send_packet L now pkt s) = rand_count s"
    "rpc_connections (node_send_packet L now pkt s) = rpc_connections s"
    unfolding e by simp_all
qed

text \<open>The calls made for a packet: each carries the packet with one hop less.\<close>

definition carries :: "mesh_lib \<Rightarrow> transport_call \<Rightarrow> routed_packet \<Rightarrow> bool" where
  "carries L c q = (case c of SendTcp p env \<Rightarrow> env_payload env = packet_bytes L q | SendUdp p q' \<Rightarrow> q' = q | PacketForMe _ \<Rightarrow> True)"

lemma fwd_calls_carry: "c \<in> set (fwd_calls L n pkt ps) \<Longrightarrow> carries L c pkt"
  by (induction ps arbitrary: n) (auto simp: carries_def MakeGenericData_def split: transport_protocol.splits)

lemma emitted_carry: "c \<in> set (emitted L src pkt s ps) \<Longrightarrow> carries L c (pkt\<lparr>ttl := ttl pkt - 1\<rparr>)"
  by (auto simp: emitted_def fwd_calls_carry split: if_splits)

lemma node_send_calls:
  "\<exists>cs. calls (node_send_packet L now pkt s) = calls s @ cs \<and> (\<forall>c\<in>set cs. carries L c (pkt\<lparr>ttl := ttl pkt - 1\<rparr>))"
  by (auto simp: node_send_packet_def send_packet_def route_data_packet_def deliver_local_def dedup_and_forward_def Let_def forward_calls
      intro: emitted_carry)

lemma draw_uuid_fields [simp]:
  "self_id (snd (draw_uuid L s)) = self_id s" "calls (snd (draw_uuid L s)) = calls s" "fst (draw_uuid L s) = uuid L (uuid_count s)"
  by (simp_all add: draw_uuid_def)

section \<open>Relations the operations keep\<close>

text \<open>
  \<open>ok s pkt\<close> says which packets the relation allows the node to send in state \<open>s\<close>.
\<close>

locale node_relation =
  fixes L :: mesh_lib and R :: "mesh_node \<Rightarrow> mesh_node \<Rightarrow> bool" and ok :: "mesh_node \<Rightarrow> routed_packet \<Rightarrow> bool"
  assumes R_refl: "R s s" and R_trans: "R s t \<Longrightarrow> R t u \<Longrightarrow> R s u"
    and R_uuid: "R s (snd (draw_uuid L s))"
    and R_send: "ok s pkt \<Longrightarrow> R s (node_send_packet L now pkt s)"
    and R_identity: "R s (s\<lparr>identity := im\<rparr>)" and R_tracker: "R s (s\<lparr>tracker := tr\<rparr>)"
    and R_events: "R s (s\<lparr>app_events := evs\<rparr>)" and R_collected: "R s (s\<lparr>collected := cs\<rparr>)"
    and R_rand: "R s (s\<lparr>rand_count := n\<rparr>)" and R_cooldowns: "R s (s\<lparr>id_request_cooldowns := cd\<rparr>)"
    and ok_encrypted: "has_encrypted_payload pkt \<Longrightarrow> ok s pkt"
    and ok_identity: "subtype pkt = identity_request_subtype \<or> subtype pkt = identity_response_subtype \<Longrightarrow> ok s pkt"
    and ok_plain: "\<not> encrypt_messages s \<Longrightarrow> ok s pkt"
    and ok_broadcast: "to_peer_id pkt = [] \<Longrightarrow> ok s pkt" and ok_text: "pkt_type pkt = TEXT \<Longrightarrow> ok s pkt"
begin

lemmas R_intros = R_refl R_uuid R_send R_identity R_tracker R_events R_collected R_rand R_cooldowns

lemma then_send: "R s t \<Longrightarrow> ok t pkt \<Longrightarrow> R s (node_send_packet L now pkt t)"
  using R_trans R_send by blast

lemma then_track: "R s t \<Longrightarrow> R s (t\<lparr>tracker := tr\<rparr>)"
  using R_trans R_tracker by blast

lemma R_emit: "R s (emit e s)"
  by (simp add: emit_def R_events)

lemma R_secure: "node_secure C pkt target raw s = (b, pkt', s') \<Longrightarrow> R s s'"
  by (auto simp: node_secure_def R_rand split: prod.splits)

lemma R_ask: "should_send_identity_request now p s = (b, s') \<Longrightarrow> R s s'"
  by (auto simp: should_send_identity_request_def Let_def R_refl R_cooldowns split: if_splits)

lemma R_plain_request:
  assumes "type = identity_request_subtype \<or> \<not> encrypt_messages s"
  shows "R s (send_plain_request L now dest type payload rt cb pr s)"
proof -
  have e: "encrypt_messages (snd (draw_uuid L s)) = encrypt_messages s" by (simp add: draw_uuid_def)
  show ?thesis unfolding send_plain_request_def Let_def case_prod_unfold
    by (rule then_send [OF then_track [OF R_uuid]]) (use assms e ok_identity ok_plain in \<open>auto simp: MakeBinaryRoutedPacket_def\<close>)
qed

lemma R_identity_request: "R s (send_identity_request L P now dest s)"
  unfolding send_identity_request_def by (rule R_plain_request) simp

lemma R_postpone: "R s (postpone L P now dest pkt s)"
proof -
  let ?s = "s\<lparr>identity := buffer_outgoing_packet dest pkt (identity s)\<rparr>"
  obtain b s1 where a: "should_send_identity_request now dest ?s = (b, s1)" by force
  have "R s s1" by (rule R_trans [OF R_identity R_ask [OF a]])
  then show ?thesis using a R_trans [OF _ R_identity_request] by (simp add: postpone_def)
qed

lemma secure_ok:
  assumes "node_secure C pkt target raw s = (True, pkt', s')"
  shows "ok t pkt'"
proof -
  obtain n im where "secure_packet C n im pkt target raw = (True, pkt')" using assms by (auto simp: node_secure_def split: prod.splits)
  then have "has_encrypted_payload pkt'" by (auto simp: secure_packet_def Let_def clear_binary_data_def has_encrypted_payload_def split: option.splits if_splits sum.splits)
  then show ?thesis by (rule ok_encrypted)
qed

text \<open>Securing a packet and sending it, in a state reached from \<open>s\<close>, with an update of the tracker in between.\<close>

lemma R_secure_send:
  assumes "R s t" "node_secure C pkt target raw t = (b, pkt', t')"
  shows "b \<Longrightarrow> R s (node_send_packet L now pkt' t')" "b \<Longrightarrow> R s (node_send_packet L now pkt' (t'\<lparr>tracker := tr\<rparr>))" "R s t'"
proof -
  show r: "R s t'" by (rule R_trans [OF assms(1) R_secure [OF assms(2)]])
  show "R s (node_send_packet L now pkt' t')" if b by (rule then_send [OF r]) (use assms(2) that secure_ok in simp)
  show "R s (node_send_packet L now pkt' (t'\<lparr>tracker := tr\<rparr>))" if b by (rule then_send [OF then_track [OF r]]) (use assms(2) that secure_ok in simp)
qed

lemma R_send_message: "R s (node_send_message L P C now dest type payload pr s)"
proof -
  obtain u s1 where u: "draw_uuid L s = (u, s1)" by force
  have r: "R s s1" using R_uuid [of s] u by simp
  have e: "encrypt_messages s1 = encrypt_messages s" using u by (auto simp: draw_uuid_def)
  let ?pkt = "MakeBinaryRoutedPacket u (self_id s1) dest DEFAULT_TTL type pr [] False"
  obtain b pkt s2 where n: "node_secure C ?pkt dest payload s1 = (b, pkt, s2)" by (metis prod_cases3)
  have p: "ok s1 (MakeBinaryRoutedPacket u (self_id s1) dest DEFAULT_TTL type pr payload False)" if "\<not> (encrypt_messages s \<and> type \<noteq> identity_request_subtype)"
    using that e ok_plain [of s1] ok_identity [of _ s1] by (auto simp: MakeBinaryRoutedPacket_def)
  show ?thesis using u n R_secure_send [OF r n] then_send [OF r p] R_trans [OF r R_postpone] by (simp add: node_send_message_def Let_def)
qed

lemma R_send_request: "R s (send_request_async L P C now dest type payload rt cb pr s)"
proof (cases "encrypt_messages s \<and> type \<noteq> identity_request_subtype")
  case True
  obtain u s1 where u: "draw_uuid L s = (u, s1)" by force
  have r: "R s s1" using R_uuid [of s] u by simp
  let ?pkt = "MakeBinaryRoutedPacket u (self_id s1) dest DEFAULT_TTL type pr [] True"
  obtain b pkt s2 where n: "node_secure C ?pkt dest payload s1 = (b, pkt, s2)" by (metis prod_cases3)
  have f: "R s (request_failed cb dest EncryptionError s2)"
    using R_secure_send(3) [OF r n] R_trans [OF _ R_emit] by (auto simp: request_failed_def split: app_callback.split)
  show ?thesis using True u n f R_secure_send(2) [OF r n] R_trans [OF then_track [OF r] R_postpone]
    by (simp add: send_request_async_def Let_def)
qed (auto simp: send_request_async_def intro: R_plain_request)

lemma R_broadcasts:
  "R s (broadcast_message L now type payload pr s)" "R s (send_text L now p text s)" "R s (broadcast_request L now type payload rt prom pr s)"
proof -
  show "R s (broadcast_message L now type payload pr s)" "R s (send_text L now p text s)"
    unfolding broadcast_message_def send_text_def Let_def case_prod_unfold
    by (rule then_send [OF R_uuid]; simp add: ok_broadcast ok_text MakeBinaryRoutedPacket_def MakeTextRoutedPacket_def)+
  show "R s (broadcast_request L now type payload rt prom pr s)"
    unfolding broadcast_request_def Let_def case_prod_unfold
    by (rule then_send [OF then_track [OF R_trans [OF R_uuid R_collected]]]) (simp add: ok_broadcast MakeBinaryRoutedPacket_def)
qed

lemma R_send_pending: "R s (send_pending L C now s pkt)"
proof -
  obtain b pkt' s1 where n: "node_secure C pkt (to_peer_id pkt) (binary_data pkt) s = (b, pkt', s1)" by (metis prod_cases3)
  show ?thesis using n R_secure_send [OF R_refl n] by (simp add: send_pending_def)
qed

lemma R_fold: "(\<And>s x. R s (f s x)) \<Longrightarrow> R s (foldl f s xs)"
  by (induction xs arbitrary: s) (auto intro: R_refl R_trans)

lemma R_pending_outgoing: "R s (handle_pending_outgoing_packets L C now dest s)"
  unfolding handle_pending_outgoing_packets_def Let_def case_prod_unfold
  by (rule R_trans [OF R_identity R_fold [OF R_send_pending]])

lemma R_reply: "R s (reply L C now req st payload s)"
proof (cases "expect_response req")
  case True
  obtain u s1 where u: "draw_uuid L s = (u, s1)" by force
  have r: "R s s1" using R_uuid [of s] u by simp
  let ?type = "case st of None \<Rightarrow> [] | Some t \<Rightarrow> t"
  let ?resp = "(MakeBinaryRoutedPacket u (self_id s1) (from_peer_id req) 15 ?type (transport req) payload False)\<lparr>pkt_id := pkt_id req\<rparr>"
  obtain b pkt s2 where n: "node_secure C ?resp (from_peer_id req) payload s1 = (b, pkt, s2)" by (metis prod_cases3)
  have p: "ok s1 (?resp\<lparr>payload_variant := BinaryData payload\<rparr>)"
    if "\<not> (encrypt_messages s1 \<and> \<not> (?type = identity_request_subtype \<or> ?type = identity_response_subtype))"
    using that ok_plain [of s1] ok_identity [of _ s1] by (auto simp: MakeBinaryRoutedPacket_def)
  show ?thesis using True u n R_secure_send(1,3) [OF r n] then_send [OF r p] by (simp add: reply_def Let_def)
qed (simp add: reply_def R_refl)

text \<open>The same for the parts that may call \<^verbatim>\<open>handle_incoming_packet\<close> again.\<close>

definition keeps :: "packet_rec \<Rightarrow> bool" where
  "keeps rec \<longleftrightarrow> (\<forall>pkt s pkt' s'. rec pkt s = Some (pkt', s') \<longrightarrow> R s s')"

lemma R_fold_option:
  assumes "\<And>x s s'. f x s = Some s' \<Longrightarrow> R s s'" "foldl (\<lambda>so x. Option.bind so (f x)) (Some s) xs = Some s'"
  shows "R s s'"
  using assms(2)
proof (induction xs arbitrary: s)
  case (Cons x xs)
  have n: "foldl (\<lambda>so x. Option.bind so (f x)) None ys = None" for ys by (induction ys) simp_all
  obtain s1 where "f x s = Some s1" "foldl (\<lambda>so x. Option.bind so (f x)) (Some s1) xs = Some s'"
    using Cons.prems n by (cases "f x s") auto
  then show ?case using assms(1) Cons.IH R_trans by blast
qed (simp add: R_refl)

lemma R_pending_incoming:
  assumes "keeps rec" "handle_pending_incoming_packets rec src s = Some s'"
  shows "R s s'"
proof -
  obtain ps im where p: "pop_incoming_pending_packets src (identity s) = (ps, im)" by force
  have "R (s\<lparr>identity := im\<rparr>) s'"
    by (rule R_fold_option [where f = "\<lambda>pkt s. map_option snd (rec pkt s)" and xs = ps])
      (use assms p in \<open>auto simp: handle_pending_incoming_packets_def keeps_def\<close>)
  then show ?thesis using R_trans R_identity by blast
qed

lemma R_learn:
  assumes "keeps rec" "learn_identity L C now rec p cert s = Some s'"
  shows "R s s'"
proof -
  obtain s1 where s1: "handle_pending_incoming_packets rec p (s\<lparr>identity := add_trusted_peer p (extract_pubkey_from_cert C cert) (identity s)\<rparr>) = Some s1"
      "s' = handle_pending_outgoing_packets L C now p s1"
    using assms(2) by (auto simp: learn_identity_def)
  from R_trans [OF R_identity R_pending_incoming [OF assms(1) s1(1)]] have "R s s1" .
  then show ?thesis unfolding s1(2) by (rule R_trans [OF _ R_pending_outgoing])
qed

lemma R_tracker_call:
  assumes "keeps rec" "run_tracker_call L P C now rec c s = Some s'"
  shows "R s s'"
proof -
  have f: "R s (request_failed cb p e s)" for cb p e by (auto simp: request_failed_def R_emit R_refl split: app_callback.split)
  have a: "run_app_callback L P C now rec cb p raw s = Some s' \<Longrightarrow> R s s'" for cb p raw
    using R_learn [OF assms(1)] R_emit by (auto simp: run_app_callback_def split: app_callback.splits)
  show ?thesis using assms(2) f a by (cases "(L, P, C, now, rec, c, s)" rule: run_tracker_call.cases) (auto simp: R_refl R_emit R_collected split: option.splits if_splits)
qed

lemma R_tracker_calls:
  assumes "keeps rec" "foldl (\<lambda>so c. Option.bind so (run_tracker_call L P C now rec c)) (Some s) cs = Some s'"
  shows "R s s'"
  by (rule R_fold_option [OF R_tracker_call [OF assms(1)] assms(2)])

lemma R_handler:
  assumes "keeps rec" "\<And>b s. R s (reply_cb b s)" "run_handler L P C now rec h from raw reply_cb s = Some s'"
  shows "R s s'"
proof (cases h)
  case IdentityHandler
  then show ?thesis using assms(3) R_trans [OF R_learn [OF assms(1)] assms(2)] R_refl by (auto split: if_splits)
next
  case (UserHandler t n)
  have "R s (foldl (\<lambda>s b. reply_cb b s) (emit (HandlerRun n from raw) s) bs)" for bs
    by (rule R_trans [OF R_emit R_fold [OF assms(2)]])
  then show ?thesis using assms(3) UserHandler R_refl by auto
qed (use assms(2,3) R_refl in auto)

lemma R_open: "open_packet L P C now pkt s = Inl s' \<Longrightarrow> R s s'"
proof -
  let ?p = "from_peer_id pkt"
  let ?s = "s\<lparr>identity := buffer_incoming_packet ?p pkt (identity s)\<rparr>"
  obtain b s1 where a: "should_send_identity_request now ?p ?s = (b, s1)" by force
  have r: "R s s1" by (rule R_trans [OF R_identity R_ask [OF a]])
  show "open_packet L P C now pkt s = Inl s' \<Longrightarrow> R s s'"
    using a r R_refl R_trans [OF r R_identity_request] by (auto simp: open_packet_def Let_def split: if_splits sum.splits)
qed

lemma R_dispatch:
  assumes "keeps rec" "dispatch_packet L P C now rec pkt s = Some s'"
  shows "R s s'"
proof -
  obtain b cs t where f: "fulfill_request (to_hex (pkt_id pkt)) (from_peer_id pkt) (binary_data pkt) (tracker s) = (b, cs, t)" by (metis prod_cases3)
  let ?s = "s\<lparr>tracker := t\<rparr>"
  have "R ?s s'"
  proof (cases b)
    case True
    then have "foldl (\<lambda>so c. Option.bind so (run_tracker_call L P C now rec c)) (Some ?s) cs = Some s'"
      using assms(2) f by (simp add: dispatch_packet_def)
    then show ?thesis by (rule R_tracker_calls [OF assms(1)])
  next
    case False
    have "run_handler L P C now rec h (from_peer_id pkt) (binary_data pkt) (reply L C now pkt rs) ?s = Some s' \<Longrightarrow> R ?s s'" for h rs
      by (rule R_handler [OF assms(1)]) (rule R_reply)
    then show ?thesis using assms(2) f False R_refl R_emit
      by (auto simp: dispatch_packet_def Let_def split: if_splits option.splits)
  qed
  then show ?thesis using R_tracker R_trans by blast
qed

lemma keeps_handle: "keeps (handle_incoming_packet d L P C now)"
proof (induction d)
  case 0
  then show ?case by (simp add: keeps_def)
next
  case (Suc d)
  show ?case unfolding keeps_def
    using R_open R_dispatch [OF Suc.IH] R_refl by (auto split: if_splits sum.splits)
qed

lemma R_callback: "R s (snd (node_callback L P C now pkt s))"
  using keeps_handle [of 2 P C now] unfolding keeps_def node_callback_def
  by (cases "handle_incoming_packet 2 L P C now pkt s") (auto simp: R_refl simp del: handle_incoming_packet.simps)

lemma R_timer:
  assumes "node_timer L P C now n ab s = Some s'"
  shows "R s s'"
proof (cases "map_of (waiting (tracker_timers (tracker s))) n")
  case (Some job)
  obtain cs t where o: "on_timer job ab ((tracker s)\<lparr>tracker_timers := take_handler n (tracker_timers (tracker s))\<rparr>) = (cs, t)" by force
  have "R (s\<lparr>tracker := t\<rparr>) s'"
    by (rule R_tracker_calls [OF keeps_handle [of 1 P C now], where P = P and C = C and now = now and cs = cs]) (use assms Some o in \<open>simp add: node_timer_def\<close>)
  then show ?thesis using R_tracker R_trans by blast
qed (use assms R_refl in \<open>simp add: node_timer_def\<close>)

end

section \<open>The router's contract\<close>

interpretation node_routes: node_relation L "\<lambda>s s'. same_routes s' s" "\<lambda>s pkt. True" for L
  by unfold_locales (auto simp: same_routes_def draw_uuid_def)

lemma node_callback_keeps_routes: "cb_keeps_routes (Some (node_callback L P C now))"
  by (simp add: cb_keeps_routes_def node_routes.R_callback)

section \<open>Confidentiality\<close>

text \<open>
  What a node that encrypts may send in the clear: packets it forwards for others, routing updates, broadcasts, texts and
  certificates.  A binary packet of its own to one peer is encrypted.
\<close>

definition confidential :: "peer_id \<Rightarrow> routed_packet \<Rightarrow> bool" where
  "confidential self q \<longleftrightarrow> (from_peer_id q = self \<and> to_peer_id q \<noteq> [] \<and> pkt_type q = BINARY \<and>
     subtype q \<noteq> identity_request_subtype \<and> subtype q \<noteq> identity_response_subtype \<longrightarrow> has_encrypted_payload q)"

lemma confidential_ttl [simp]: "confidential self (q\<lparr>ttl := n\<rparr>) = confidential self q"
  by (simp add: confidential_def has_encrypted_payload_def)

definition covered :: "mesh_lib \<Rightarrow> peer_id \<Rightarrow> transport_call \<Rightarrow> bool" where
  "covered L self c \<longleftrightarrow> (\<exists>q. carries L c q \<and> confidential self q)"

definition seals :: "mesh_lib \<Rightarrow> mesh_node \<Rightarrow> mesh_node \<Rightarrow> bool" where
  "seals L s s' \<longleftrightarrow> self_id s' = self_id s \<and> encrypt_messages s' = encrypt_messages s \<and>
     (encrypt_messages s \<longrightarrow> (\<exists>cs. calls s' = calls s @ cs \<and> list_all (covered L (self_id s)) cs))"

lemma seals_same: "self_id s' = self_id s \<Longrightarrow> encrypt_messages s' = encrypt_messages s \<Longrightarrow> calls s' = calls s \<Longrightarrow> seals L s s'"
  by (simp add: seals_def)

lemma seals_trans:
  assumes "seals L s t" "seals L t u"
  shows "seals L s u"
proof (cases "encrypt_messages s")
  case True
  have e: "self_id t = self_id s" "self_id u = self_id t" "encrypt_messages t = encrypt_messages s" "encrypt_messages u = encrypt_messages t"
    using assms by (simp_all add: seals_def)
  obtain a b where "calls t = calls s @ a" "list_all (covered L (self_id s)) a" "calls u = calls t @ b" "list_all (covered L (self_id t)) b"
    using assms True e unfolding seals_def by auto
  then show ?thesis using e unfolding seals_def by (intro conjI impI exI [of _ "a @ b"]) simp_all
qed (use assms in \<open>simp add: seals_def\<close>)

lemma seals_send:
  assumes "encrypt_messages s \<longrightarrow> confidential (self_id s) pkt"
  shows "seals L s (node_send_packet L now pkt s)"
proof -
  obtain cs where cs: "calls (node_send_packet L now pkt s) = calls s @ cs" "\<forall>c\<in>set cs. carries L c (pkt\<lparr>ttl := ttl pkt - 1\<rparr>)"
    using node_send_calls by blast
  have "list_all (covered L (self_id s)) cs" if "encrypt_messages s"
  proof (unfold list_all_iff covered_def, rule ballI)
    fix c assume "c \<in> set cs"
    then have "carries L c (pkt\<lparr>ttl := ttl pkt - 1\<rparr>)" using cs(2) by blast
    moreover have "confidential (self_id s) (pkt\<lparr>ttl := ttl pkt - 1\<rparr>)" using assms that by simp
    ultimately show "\<exists>q. carries L c q \<and> confidential (self_id s) q" by blast
  qed
  then show ?thesis using cs(1) by (auto simp: seals_def)
qed

interpretation node_secrecy: node_relation L "seals L" "\<lambda>s pkt. encrypt_messages s \<longrightarrow> confidential (self_id s) pkt" for L
proof
  fix s t u :: mesh_node assume "seals L s t" "seals L t u"
  then show "seals L s u" by (rule seals_trans)
next
  fix s :: mesh_node and pkt now assume "encrypt_messages s \<longrightarrow> confidential (self_id s) pkt"
  then show "seals L s (node_send_packet L now pkt s)" by (rule seals_send)
qed (auto simp: seals_same draw_uuid_def confidential_def)

section \<open>Packets that wait for a key\<close>

definition waiting_ok :: "identity_manager \<Rightarrow> bool" where
  "waiting_ok im \<longleftrightarrow> (\<forall>p xs. map_of (pending_incoming_packets im) p = Some xs \<longrightarrow>
     \<not> has_key p im \<and> (\<forall>x\<in>set xs. from_peer_id x = p))"

text \<open>A peer whose key is known and from which no packet waits.\<close>

definition settled :: "peer_id \<Rightarrow> identity_manager \<Rightarrow> bool" where
  "settled p im \<longleftrightarrow> has_key p im \<and> map_of (pending_incoming_packets im) p = None"

definition same_waiting :: "identity_manager \<Rightarrow> identity_manager \<Rightarrow> bool" where
  "same_waiting im im' \<longleftrightarrow> trusted_keys im' = trusted_keys im \<and> pending_incoming_packets im' = pending_incoming_packets im"

lemma same_waiting_keeps:
  "same_waiting im im' \<Longrightarrow> waiting_ok im' = waiting_ok im" "same_waiting im im' \<Longrightarrow> settled p im' = settled p im"
  by (simp_all add: same_waiting_def waiting_ok_def settled_def has_key_def)

lemma same_waiting_refl [simp]: "same_waiting im im"
  by (simp add: same_waiting_def)

lemma node_secure_identity: "node_secure C pkt p raw s = (b, pkt', s') \<Longrightarrow> identity s' = identity s"
  by (auto simp: node_secure_def split: prod.splits)

lemma draw_uuid_node [simp]: "identity (snd (draw_uuid L s)) = identity s" "tracker (snd (draw_uuid L s)) = tracker s" "encrypt_messages (snd (draw_uuid L s)) = encrypt_messages s"
  by (simp_all add: draw_uuid_def)

lemma send_pending_identity [simp]: "identity (send_pending L C now s pkt) = identity s"
  by (auto simp: send_pending_def dest: node_secure_identity split: prod.splits)

lemma send_pendings_identity [simp]: "identity (foldl (send_pending L C now) s pkts) = identity s"
  by (induction pkts arbitrary: s) simp_all

lemma pending_outgoing_identity: "same_waiting (identity s) (identity (handle_pending_outgoing_packets L C now p s))"
  by (simp add: handle_pending_outgoing_packets_def pop_outgoing_pending_packets_def same_waiting_def split: option.split)

lemma reply_identity [simp]: "identity (reply L C now req st b s) = identity s"
  by (auto simp: reply_def Let_def case_prod_unfold node_secure_def)

lemma emit_identity [simp]: "identity (emit e s) = identity s"
  by (simp add: emit_def)

lemma replies_identity [simp]: "identity (foldl (\<lambda>s b. reply L C now req st b s) s bs) = identity s"
  by (induction bs arbitrary: s) simp_all

lemma request_failed_identity [simp]: "identity (request_failed cb p e s) = identity s"
  by (simp add: request_failed_def split: app_callback.split)

text \<open>
  What handling a packet does to the keys: nothing, or it learns the identity of the sender.  In the second case the
  calls of \<open>rec\<close> are those of \<open>learn_identity\<close>.
\<close>

definition dispatch_shape :: "mesh_lib \<Rightarrow> ('k, 'x) crypto_lib \<Rightarrow> time_ms \<Rightarrow> peer_id \<Rightarrow> mesh_node \<Rightarrow> (packet_rec \<Rightarrow> mesh_node option) \<Rightarrow> bool" where
  "dispatch_shape L C now p s g \<longleftrightarrow>
     (\<exists>s'. (\<forall>rec. g rec = Some s') \<and> identity s' = identity s) \<or>
     (\<exists>cert t post. identity t = identity s \<and> (\<forall>rec. g rec = map_option post (learn_identity L C now rec p cert t)) \<and> (\<forall>u. identity (post u) = identity u))"

lemma shape_same: "(\<And>rec. g rec = Some s') \<Longrightarrow> identity s' = identity s \<Longrightarrow> dispatch_shape L C now p s g"
  unfolding dispatch_shape_def by blast

lemma shape_Some: "identity s' = identity s \<Longrightarrow> dispatch_shape L C now p s (\<lambda>rec. Some s')"
  by (rule shape_same [where s' = s']) simp_all

lemma shape_learn: "(\<And>rec. g rec = map_option post (learn_identity L C now rec p cert t)) \<Longrightarrow> identity t = identity s \<Longrightarrow> (\<And>u. identity (post u) = identity u)
    \<Longrightarrow> dispatch_shape L C now p s g"
  unfolding dispatch_shape_def by blast

lemma handler_shape:
  assumes "identity t = identity s"
  shows "dispatch_shape L C now p s (\<lambda>rec. run_handler L P C now rec h p raw (reply L C now pkt rs) t)"
proof (cases h)
  case IdentityHandler
  show ?thesis
  proof (cases "parses P identity_request_subtype raw")
    case True
    show ?thesis
      by (rule shape_learn [where t = t and cert = "identity_request_cert P raw" and post = "\<lambda>s. reply L C now pkt rs (identity_response_bytes P (my_cert (identity s))) s"])
        (simp_all add: IdentityHandler True assms)
  qed (auto intro!: shape_same [where s' = t] simp: IdentityHandler assms)
qed (auto intro!: shape_same simp: assms)

lemma tracker_call_shape:
  assumes "identity t = identity s" "c = RequestCallback r cb p raw \<or> c = BroadcastResponse r cb p b"
  shows "dispatch_shape L C now p s (\<lambda>rec. run_tracker_call L P C now rec c t)"
proof -
  have a: "dispatch_shape L C now p s (\<lambda>rec. run_app_callback L P C now rec ac p raw t)" for ac raw
  proof (cases ac)
    case IdentityCallback
    show ?thesis by (rule shape_learn [where t = t and cert = "identity_response_cert P raw" and post = "\<lambda>u. u"])
      (simp_all add: IdentityCallback run_app_callback_def assms option.map_ident)
  qed (auto intro!: shape_same simp: assms run_app_callback_def)
  have f: "dispatch_shape L C now p s (\<lambda>rec. Some (request_failed ac p e t))" for ac e by (rule shape_Some) (simp add: assms)
  show ?thesis
  proof (cases "\<exists>rt ac raw. c = RequestCallback r (InternalCb rt ac) p raw")
    case True
    then obtain rt ac raw where c: "c = RequestCallback r (InternalCb rt ac) p raw" by blast
    show ?thesis
    proof (cases raw)
      case (Some b)
      then show ?thesis unfolding c using a [of ac b] f [of ac MalformedResponse] by (cases "parses P rt b") simp_all
    qed (use f [of ac RequestTimeout] c in simp)
  next
    case False
    then have "\<exists>s'. (\<forall>rec. run_tracker_call L P C now rec c t = Some s') \<and> identity s' = identity s"
      using assms by (cases cb) auto
    then show ?thesis unfolding dispatch_shape_def by blast
  qed
qed

lemma dispatch_packet_shape: "dispatch_shape L C now (from_peer_id pkt) s (\<lambda>rec. dispatch_packet L P C now rec pkt s)"
proof -
  obtain b cs t where f: "fulfill_request (to_hex (pkt_id pkt)) (from_peer_id pkt) (binary_data pkt) (tracker s) = (b, cs, t)" by (metis prod_cases3)
  show ?thesis
  proof (cases b)
    case True
    then obtain c r cb raw d where c: "cs = [c]" "c = RequestCallback r cb (from_peer_id pkt) raw \<or> c = BroadcastResponse r cb (from_peer_id pkt) d"
      using f by (auto simp: fulfill_request_def complete_request_def split: if_splits option.splits)
    have "dispatch_shape L C now (from_peer_id pkt) s (\<lambda>rec. run_tracker_call L P C now rec c (s\<lparr>tracker := t\<rparr>))"
      by (rule tracker_call_shape [OF _ c(2)]) simp
    then show ?thesis using f True c(1) by (simp add: dispatch_packet_def)
  next
    case False
    have h: "dispatch_shape L C now (from_peer_id pkt) s (\<lambda>rec. run_handler L P C now rec (info_handler i) (from_peer_id pkt) (binary_data pkt)
        (reply L C now pkt (ResponseSubtype i)) (s\<lparr>tracker := t\<rparr>))" for i by (rule handler_shape) simp
    have u: "dispatch_shape L C now (from_peer_id pkt) s (\<lambda>rec. Some (s\<lparr>tracker := t\<rparr>))"
      "dispatch_shape L C now (from_peer_id pkt) s (\<lambda>rec. Some (emit e (s\<lparr>tracker := t\<rparr>)))" for e by (rule shape_Some, simp)+
    show ?thesis using f False u h
      by (cases "map_of (handlers s) (subtype pkt)"; cases "pkt_type pkt") (simp_all add: dispatch_packet_def)
  qed
qed

text \<open>The packets of a settled peer need no inner call.\<close>

lemma learn_settled:
  assumes "map_of (pending_incoming_packets (identity s)) p = None"
  shows "learn_identity L C now rec p cert s =
    Some (handle_pending_outgoing_packets L C now p (s\<lparr>identity := add_trusted_peer p (extract_pubkey_from_cert C cert) (identity s)\<rparr>))"
  using assms by (simp add: learn_identity_def handle_pending_incoming_packets_def pop_incoming_pending_packets_def add_trusted_peer_def)

lemma trusted_keeps:
  assumes "waiting_ok im" "settled p im"
  shows "waiting_ok (add_trusted_peer p k im)" "settled p (add_trusted_peer p k im)"
  using assms by (auto simp: waiting_ok_def settled_def has_key_def add_trusted_peer_def update_conv')

lemma dispatch_settled:
  assumes "waiting_ok (identity s)" "settled p (identity s)" "dispatch_shape L C now p s g"
  shows "\<exists>s'. (\<forall>rec. g rec = Some s') \<and> waiting_ok (identity s') \<and> settled p (identity s')"
  using assms(3) unfolding dispatch_shape_def
proof
  assume "\<exists>cert t post. identity t = identity s \<and> (\<forall>rec. g rec = map_option post (learn_identity L C now rec p cert t)) \<and> (\<forall>u. identity (post u) = identity u)"
  then obtain cert t post where g: "identity t = identity s" "\<And>rec. g rec = map_option post (learn_identity L C now rec p cert t)" "\<And>u. identity (post u) = identity u"
    by blast
  have n: "map_of (pending_incoming_packets (identity t)) p = None" using assms(2) g(1) by (simp add: settled_def)
  let ?t = "t\<lparr>identity := add_trusted_peer p (extract_pubkey_from_cert C cert) (identity t)\<rparr>"
  let ?u = "handle_pending_outgoing_packets L C now p ?t"
  have "waiting_ok (identity ?t)" "settled p (identity ?t)" using trusted_keeps [OF assms(1,2)] g(1) by simp_all
  then have "waiting_ok (identity ?u)" "settled p (identity ?u)" using same_waiting_keeps [OF pending_outgoing_identity] by blast+
  moreover have "g rec = Some (post ?u)" for rec unfolding g(2) learn_settled [OF n] by simp
  ultimately show ?thesis using g(3) by metis
qed (use assms(1,2) in auto)

lemma open_packet_from: "open_packet L P C now pkt s = Inr q \<Longrightarrow> from_peer_id q = from_peer_id pkt"
  by (auto simp: open_packet_def Let_def clear_encrypted_payload_def case_prod_unfold split: if_splits sum.splits payload_variant.splits)

lemma handle_settled:
  assumes "waiting_ok (identity s)" "settled (from_peer_id pkt) (identity s)"
  shows "\<exists>r. (\<forall>d. handle_incoming_packet (Suc d) L P C now pkt s = Some r) \<and> waiting_ok (identity (snd r)) \<and> settled (from_peer_id pkt) (identity (snd r))"
proof (cases "ignore_all_incoming_messages s \<or> (\<exists>s'. open_packet L P C now pkt s = Inl s')")
  case True
  have "identity s' = identity s" if "open_packet L P C now pkt s = Inl s'" for s'
    using that assms(2) by (auto simp: open_packet_def settled_def Let_def split: if_splits sum.splits)
  then show ?thesis using True assms by (cases "ignore_all_incoming_messages s") auto
next
  case False
  then obtain q where o: "open_packet L P C now pkt s = Inr q" by (cases "open_packet L P C now pkt s") auto
  then have q: "from_peer_id q = from_peer_id pkt" by (rule open_packet_from)
  obtain s' where "\<forall>rec. dispatch_packet L P C now rec q s = Some s'" "waiting_ok (identity s')" "settled (from_peer_id pkt) (identity s')"
    using dispatch_settled [OF assms] dispatch_packet_shape [of L C now q s P] q by metis
  then show ?thesis using False o by (intro exI [of _ "(q, s')"]) simp
qed

text \<open>The packets that waited for the key of \<open>p\<close>, all from \<open>p\<close>, once the key is there.\<close>

lemma pending_settled:
  assumes "\<forall>x\<in>set xs. from_peer_id x = p" "waiting_ok (identity s)" "settled p (identity s)"
  shows "\<exists>s'. (\<forall>d. foldl (\<lambda>so pkt. Option.bind so (\<lambda>s. map_option snd (handle_incoming_packet (Suc d) L P C now pkt s))) (Some s) xs = Some s') \<and>
    waiting_ok (identity s') \<and> settled p (identity s')"
  using assms
proof (induction xs arbitrary: s)
  case (Cons x xs)
  have x: "from_peer_id x = p" using Cons.prems(1) by simp
  then obtain r where r: "\<And>d. handle_incoming_packet (Suc d) L P C now x s = Some r" "waiting_ok (identity (snd r))" "settled p (identity (snd r))"
    using handle_settled [OF Cons.prems(2)] Cons.prems(3) by metis
  have "\<forall>x\<in>set xs. from_peer_id x = p" using Cons.prems(1) by simp
  from Cons.IH [OF this r(2,3)] show ?case using r(1) by (simp del: handle_incoming_packet.simps)
qed auto

lemma learn_any:
  assumes "waiting_ok (identity s)"
  shows "\<exists>s'. (\<forall>d. learn_identity L C now (handle_incoming_packet (Suc d) L P C now) p cert s = Some s') \<and> waiting_ok (identity s') \<and> settled p (identity s')"
proof -
  let ?im = "add_trusted_peer p (extract_pubkey_from_cert C cert) (identity s)"
  obtain xs im where pop: "pop_incoming_pending_packets p ?im = (xs, im)" by force
  let ?s = "s\<lparr>identity := ?im, identity := im\<rparr>"
  have "\<forall>x\<in>set xs. from_peer_id x = p" "waiting_ok im" "settled p im"
    using pop assms by (auto simp: pop_incoming_pending_packets_def add_trusted_peer_def waiting_ok_def settled_def has_key_def
        update_conv' delete_conv' split: option.splits if_splits)
  then obtain t where t: "\<And>d. foldl (\<lambda>so pkt. Option.bind so (\<lambda>s. map_option snd (handle_incoming_packet (Suc d) L P C now pkt s))) (Some ?s) xs = Some t"
      "waiting_ok (identity t)" "settled p (identity t)"
    using pending_settled [of xs p ?s L P C now] by auto
  let ?u = "handle_pending_outgoing_packets L C now p t"
  have "waiting_ok (identity ?u)" "settled p (identity ?u)" using t(2,3) same_waiting_keeps [OF pending_outgoing_identity] by blast+
  moreover have "learn_identity L C now (handle_incoming_packet (Suc d) L P C now) p cert s = Some ?u" for d
    using t(1) [of d] pop by (simp add: learn_identity_def handle_pending_incoming_packets_def del: handle_incoming_packet.simps)
  ultimately show ?thesis by blast
qed

lemma send_plain_identity [simp]: "identity (send_plain_request L now p t b rt cb pr s) = identity s"
  by (simp add: send_plain_request_def Let_def case_prod_unfold)

lemma ask_identity: "identity (snd (should_send_identity_request now p s)) = identity s"
  by (simp add: should_send_identity_request_def Let_def)

lemma buffer_waiting:
  assumes "waiting_ok im" "\<not> has_key p im" "from_peer_id pkt = p"
  shows "waiting_ok (buffer_incoming_packet p pkt im)"
  unfolding waiting_ok_def
proof (intro allI impI)
  fix q xs assume "map_of (pending_incoming_packets (buffer_incoming_packet p pkt im)) q = Some xs"
  then have h: "(if q = p then Some ((case map_of (pending_incoming_packets im) p of None \<Rightarrow> [] | Some ys \<Rightarrow> ys) @ [pkt]) else map_of (pending_incoming_packets im) q) = Some xs"
    by (simp add: buffer_incoming_packet_def push_at_def update_conv' split: if_splits)
  have k: "has_key r (buffer_incoming_packet p pkt im) = has_key r im" for r by (simp add: has_key_def buffer_incoming_packet_def)
  show "\<not> has_key q (buffer_incoming_packet p pkt im) \<and> (\<forall>x\<in>set xs. from_peer_id x = q)"
    using h assms unfolding k waiting_ok_def by (cases "q = p"; cases "map_of (pending_incoming_packets im) p") auto
qed

lemma open_packet_waiting:
  assumes "waiting_ok (identity s)" "open_packet L P C now pkt s = Inl s'"
  shows "waiting_ok (identity s')"
  using assms ask_identity [of now "from_peer_id pkt"] buffer_waiting [OF assms(1), of "from_peer_id pkt" pkt]
  by (auto simp: open_packet_def Let_def case_prod_unfold send_identity_request_def split: if_splits sum.splits)

lemma handle_any:
  assumes "waiting_ok (identity s)"
  shows "\<exists>r. (\<forall>d. handle_incoming_packet (Suc (Suc d)) L P C now pkt s = Some r) \<and> waiting_ok (identity (snd r)) \<and> from_peer_id (fst r) = from_peer_id pkt"
proof (cases "ignore_all_incoming_messages s \<or> (\<exists>s'. open_packet L P C now pkt s = Inl s')")
  case True
  then show ?thesis using assms open_packet_waiting [OF assms] by (cases "ignore_all_incoming_messages s") auto
next
  case False
  then obtain q where o: "open_packet L P C now pkt s = Inr q" by (cases "open_packet L P C now pkt s") auto
  have q: "from_peer_id q = from_peer_id pkt" by (rule open_packet_from [OF o])
  have "\<exists>s'. (\<forall>d. dispatch_packet L P C now (handle_incoming_packet (Suc d) L P C now) q s = Some s') \<and> waiting_ok (identity s')"
    using dispatch_packet_shape [of L C now q s P] unfolding dispatch_shape_def
  proof
    assume "\<exists>cert t post. identity t = identity s \<and>
      (\<forall>rec. dispatch_packet L P C now rec q s = map_option post (learn_identity L C now rec (from_peer_id q) cert t)) \<and> (\<forall>u. identity (post u) = identity u)"
    then obtain cert t post where g: "identity t = identity s"
      "\<And>rec. dispatch_packet L P C now rec q s = map_option post (learn_identity L C now rec (from_peer_id q) cert t)" "\<And>u. identity (post u) = identity u"
      by blast
    obtain u where u: "\<And>d. learn_identity L C now (handle_incoming_packet (Suc d) L P C now) (from_peer_id q) cert t = Some u" "waiting_ok (identity u)"
      using learn_any [of t L C now P "from_peer_id q" cert] assms g(1) by auto
    have "dispatch_packet L P C now (handle_incoming_packet (Suc d) L P C now) q s = Some (post u)" for d
      unfolding g(2) u(1) by simp
    then show ?thesis using u(2) g(3) by metis
  qed (use assms in metis)
  then obtain s' where "\<And>d. dispatch_packet L P C now (handle_incoming_packet (Suc d) L P C now) q s = Some s'" "waiting_ok (identity s')" by blast
  then show ?thesis using False o q by (intro exI [of _ "(q, s')"]) (subst handle_incoming_packet.simps(2), simp del: handle_incoming_packet.simps)
qed

end
