(* ===== verification/Mesh_Node_Theorems.thy ===== *)
theory Mesh_Node_Theorems
  imports Mesh_Node_Inv Packet_Security Example_Lib
begin

text \<open>
  The histories of a node and the properties of \<^verbatim>\<open>MeshNode\<close>: what it sends in the clear, that handling a packet
  ends, the exchange of a request and its response between two nodes, and what happens to
  messages that had to wait for a key.
\<close>

section \<open>Rounds of the router with the node's callback\<close>

text \<open>
  What a round of the router keeps, for relations that hold for the router's own updates,
  for the packets it sends and for the callback.
\<close>

locale round_relation =
  fixes L :: mesh_lib and R :: "mesh_node \<Rightarrow> mesh_node \<Rightarrow> bool" and cb :: "routed_packet \<Rightarrow> mesh_node \<Rightarrow> routed_packet \<times> mesh_node"
  assumes refl: "R s s" and trans: "R s t \<Longrightarrow> R t u \<Longrightarrow> R s u" and self: "R s t \<Longrightarrow> self_id t = self_id s"
    and views: "R s (s\<lparr>neighbor_views := v\<rparr>)" and tables: "R s (s\<lparr>forwarding_table := ft\<rparr>)" and seen: "R s (s\<lparr>seen_packet_ids := d\<rparr>)"
    and queues: "R s (s\<lparr>event_queue := q\<rparr>)" and periodic: "R s (s\<lparr>last_periodic_update := now\<rparr>)"
    and pendings: "R s (s\<lparr>trigger_pending := b\<rparr>)" and deadlines: "R s (s\<lparr>trigger_deadline := now\<rparr>)"
    and updates: "R s (send_update L hops nb costs s)"
    and forwards: "from_peer_id pkt \<noteq> self_id s \<Longrightarrow> R s (forward_to L src pkt s p)"
    and callback: "R s (snd (cb pkt (call (PacketForMe pkt) s)))" and callback_from: "from_peer_id (fst (cb pkt s)) = from_peer_id pkt"
begin

lemma folds:
  assumes "\<And>s x. self_id s = i \<Longrightarrow> R s (f s x)"
  shows "self_id s = i \<Longrightarrow> R s (foldl f s xs)"
proof (induction xs arbitrary: s)
  case (Cons x xs)
  have x: "R s (f s x)" by (rule assms [OF Cons.prems])
  have "self_id (f s x) = i" using self [OF x] Cons.prems by simp
  then have "R (f s x) (foldl f (f s x) xs)" by (rule Cons.IH)
  then show ?case by (simp add: trans [OF x])
qed (simp add: refl)

lemma recalculate: "R s (recalculate_forwarding_table_locked now s)"
proof -
  have "R s (s\<lparr>forwarding_table := x, trigger_pending := True, trigger_deadline := y\<rparr>)" for x y
    by (rule trans [OF tables trans [OF pendings deadlines]])
  then show ?thesis using tables by (auto simp: recalculate_forwarding_table_locked_def Let_def case_prod_unfold)
qed

lemma after_views: "R s (recalculate_forwarding_table_locked now (s\<lparr>neighbor_views := v\<rparr>))"
  by (rule trans [OF views recalculate])

lemma transit:
  assumes "from_peer_id pkt \<noteq> self_id s"
  shows "R s (dedup_and_forward L now src dest pid pkt s)"
proof -
  let ?s = "s\<lparr>seen_packet_ids := snd (dedup_insert now (pid, expect_response pkt) (seen_packet_ids s))\<rparr>"
  have "R ?s (foldl (forward_to L src pkt) ?s ps)" for ps by (rule folds [where i = "self_id s"]) (use forwards assms in auto)
  then show ?thesis using trans [OF seen] refl by (auto simp: dedup_and_forward_def Let_def)
qed

lemma route:
  assumes "from_peer_id pkt \<noteq> self_id s"
  shows "R s (route_data_packet L (Some cb) now src dest pid pkt s)"
proof -
  obtain q t where d: "(if dest = [] \<or> dest = self_id s then deliver_local (Some cb) pkt s else (pkt, s)) = (q, t)" by force
  have t: "R s t" "from_peer_id q = from_peer_id pkt"
    using d assms callback [of s pkt] callback_from [of pkt "call (PacketForMe pkt) s"] refl
    by (auto simp: deliver_local_def split: if_splits)
  have "from_peer_id q \<noteq> self_id t" using t assms self by metis
  then have "R s (dedup_and_forward L now src dest pid q t)" by (rule trans [OF t(1) transit])
  then show ?thesis unfolding route_data_packet_def Let_def d using t(1) by auto
qed

lemma handle: "R s (handle_packet L (Some cb) now src pkt s)"
proof -
  define t where "t = (case map_of (neighbor_views s) src of None \<Rightarrow> s
    | Some v \<Rightarrow> s\<lparr>neighbor_views := AList.update src (v\<lparr>last_heard_from := now\<rparr>) (neighbor_views s)\<rparr>)"
  have t: "R s t" using refl views by (auto simp: t_def split: option.split)
  have r: "R s (process_routing_update_locked now src c t)" for c
    unfolding process_routing_update_locked_def by (rule trans [OF t after_views])
  have "R s (route_data_packet L (Some cb) now src (to_peer_id pkt) (to_hex (pkt_id pkt)) pkt t)" if "from_peer_id pkt \<noteq> self_id s"
    by (rule trans [OF t route]) (use that self [OF t] in simp)
  then show ?thesis using r refl by (simp add: handle_packet_def Let_def flip: t_def)
qed

lemma event: "R s (process_event L (Some cb) now ev s)"
  using handle after_views by (cases ev) (simp_all add: process_event_def)

lemma let_any: "(\<And>x. R s (f x)) \<Longrightarrow> R s (Let a f)"
  by simp

lemma let_next: "R s t \<Longrightarrow> (\<And>t. R s t \<Longrightarrow> R s (f t)) \<Longrightarrow> R s (Let t f)"
  by simp

lemma update_fold: "R s (foldl (\<lambda>s (nb, view). send_update L h nb (f s nb) s) s xs)"
  by (rule folds [where i = "self_id s"]) (auto intro: updates split: prod.split)

lemma triggered: "R s (send_triggered_updates L s)"
  using tables trans [OF tables update_fold] by (auto simp: send_triggered_updates_def Let_def)

lemma full_table: "R s (broadcast_full_table L s)"
  unfolding broadcast_full_table_def by (rule update_fold)

lemma maintenance: "R s (run_periodic_maintenance L now s)"
proof -
  have i: "R s t \<Longrightarrow> R t u \<Longrightarrow> R s (if c then u else t)" for t u c using trans by auto
  show ?thesis unfolding run_periodic_maintenance_def
  proof (rule let_any, rule let_any, rule let_next [OF views])
    fix expired has_expired t assume t: "R s t"
    show "R s (let s = if has_expired then recalculate_forwarding_table_locked now t else t;
          s = if trigger_pending s \<and> trigger_deadline s \<le> now then send_triggered_updates L s\<lparr>trigger_pending := False\<rparr> else s;
          s = if UPDATE_INTERVAL < now - last_periodic_update s then broadcast_full_table L s\<lparr>last_periodic_update := now\<rparr> else s;
          s = s\<lparr>forwarding_table := filter (\<lambda>(dest, e). \<not> (INF_COST \<le> cost e \<and> 15000 < now - last_updated e)) (forwarding_table s)\<rparr>
        in s\<lparr>seen_packet_ids := dedup_cleanup now (seen_packet_ids s)\<rparr>)"
      by (rule let_next, rule i [OF t recalculate], rule let_next, erule i, rule trans [OF triggered pendings],
          rule let_next, erule i, rule trans [OF full_table periodic], rule let_next, erule trans [OF _ tables], erule trans [OF _ seen])
  qed
qed

lemma round: "R s (snd (processing_round L (Some cb) now (n, s)))"
proof -
  obtain ev q where p: "pop_for (event_queue s) = (ev, q)" by force
  define t where "t = (case ev of None \<Rightarrow> s\<lparr>event_queue := q\<rparr> | Some ev \<Rightarrow> process_event L (Some cb) now ev (s\<lparr>event_queue := q\<rparr>))"
  have "R s t" using queues trans [OF queues event] by (auto simp: t_def split: option.split)
  then show ?thesis using p trans [OF _ maintenance] by (simp add: processing_round_def Let_def flip: t_def)
qed

end

lemma node_callback_from: "from_peer_id (fst (node_callback L P C now pkt s)) = from_peer_id pkt"
  using open_packet_from [of L P C now pkt s]
  by (auto simp: node_callback_def numeral_2_eq_2 split: option.splits if_splits sum.splits)

lemma forward_to_node [simp]:
  fixes s :: mesh_node
  shows "self_id (forward_to L src pkt s p) = self_id s" "encrypt_messages (forward_to L src pkt s p) = encrypt_messages s"
    "identity (forward_to L src pkt s p) = identity s"
proof -
  obtain n cs where e: "forward_to L src pkt s p = s\<lparr>uuid_count := n, calls := cs\<rparr>" using forward_to_update by blast
  show "self_id (forward_to L src pkt s p) = self_id s" "encrypt_messages (forward_to L src pkt s p) = encrypt_messages s"
    "identity (forward_to L src pkt s p) = identity s" unfolding e by simp_all
qed

lemma send_update_node [simp]:
  fixes s :: mesh_node
  shows "encrypt_messages (send_update L h nb costs s) = encrypt_messages s" "identity (send_update L h nb costs s) = identity s"
    "self_id (send_update L h nb costs s) = self_id s"
  by (simp_all add: send_update_def draw_uuid_def call_def Let_def)

lemma covered_update: "env_payload env = packet_bytes L (MakeRoutingTableRoutedPacket u a nb h costs) \<Longrightarrow> covered L self (SendTcp nb env)"
  unfolding covered_def carries_def
  by (rule exI [of _ "MakeRoutingTableRoutedPacket u a nb h costs"]) (simp add: confidential_def MakeRoutingTableRoutedPacket_def)

lemma seals_call: "covered L (self_id s) c \<Longrightarrow> seals L s (call c s)"
  by (simp add: seals_def call_def)

lemma covered_local: "covered L self (PacketForMe pkt)"
  unfolding covered_def carries_def by (rule exI [of _ "default_packet"]) (simp add: confidential_def default_packet_def)

interpretation sealed_rounds: round_relation L "seals L" "node_callback L P C now" for L P C now
proof
  fix s t u :: mesh_node assume "seals L s t" "seals L t u"
  then show "seals L s u" by (rule seals_trans)
next
  fix s :: mesh_node and hops nb costs
  obtain u t where u: "draw_uuid L s = (u, t)" by force
  have t: "seals L s t" using node_secrecy.R_uuid [of L s] u by simp
  let ?env = "default_envelope\<lparr>env_type := DATA, env_payload := packet_bytes L (MakeRoutingTableRoutedPacket u (self_id t) nb hops costs)\<rparr>"
  have "seals L t (call (SendTcp nb ?env) t)" by (rule seals_call, rule covered_update) simp
  from seals_trans [OF t this] show "seals L s (send_update L hops nb costs s)" using t u by (simp add: send_update_def)
next
  fix s :: mesh_node and pkt :: routed_packet and src p assume f: "from_peer_id pkt \<noteq> self_id s"
  have "calls (forward_to L src pkt s p) = calls s @ emitted L src pkt s [p]" using forward_calls [of L src pkt s "[p]"] by simp
  moreover have "list_all (covered L (self_id s)) (emitted L src pkt s [p])"
    using f emitted_carry by (fastforce simp: list_all_iff covered_def confidential_def)
  ultimately show "seals L s (forward_to L src pkt s p)" by (simp add: seals_def)
next
  fix s pkt
  show "seals L s (snd (node_callback L P C now pkt (call (PacketForMe pkt) s)))"
    by (rule seals_trans [OF seals_call [OF covered_local] node_secrecy.R_callback])
qed (simp_all add: seals_def node_callback_from)

definition keeps_waiting :: "mesh_node \<Rightarrow> mesh_node \<Rightarrow> bool" where
  "keeps_waiting s t \<longleftrightarrow> self_id t = self_id s \<and> (waiting_ok (identity s) \<longrightarrow> waiting_ok (identity t))"

lemma node_callback_waiting:
  assumes "waiting_ok (identity s)"
  shows "waiting_ok (identity (snd (node_callback L P C now pkt s)))"
proof -
  obtain r where "\<And>d. handle_incoming_packet (Suc (Suc d)) L P C now pkt s = Some r" "waiting_ok (identity (snd r))"
    using handle_any [OF assms] by blast
  from this(1) [of 0] this(2) show ?thesis by (simp add: node_callback_def numeral_2_eq_2 del: handle_incoming_packet.simps)
qed

interpretation waiting_rounds: round_relation L keeps_waiting "node_callback L P C now" for L P C now
proof
  fix s pkt
  have "same_routes (snd (node_callback L P C now pkt (call (PacketForMe pkt) s))) (call (PacketForMe pkt) s)"
    by (rule node_routes.R_callback)
  then have "self_id (snd (node_callback L P C now pkt (call (PacketForMe pkt) s))) = self_id s" by (simp add: same_routes_def call_def)
  moreover have "identity (call (PacketForMe pkt) s) = identity s" by (simp add: call_def)
  ultimately show "keeps_waiting s (snd (node_callback L P C now pkt (call (PacketForMe pkt) s)))"
    using node_callback_waiting [of "call (PacketForMe pkt) s" L P C now pkt] by (simp add: keeps_waiting_def)
qed (simp_all add: keeps_waiting_def node_callback_from)

section \<open>Histories of a node\<close>

text \<open>
  The calls of the user, the threads of the router and of Boost.Asio, and what the connections below
  do; the manager may make any step of its own.
\<close>

inductive node_step :: "mesh_lib \<Rightarrow> app_lib \<Rightarrow> ('k, 'x) crypto_lib \<Rightarrow> mesh_node \<Rightarrow> mesh_node \<Rightarrow> bool" for L P C where
  n_message: "node_step L P C s (node_send_message L P C now dest type payload protocol s)"
| n_request: "node_step L P C s (send_request_async L P C now dest type payload response_type cb protocol s)"
| n_broadcast: "node_step L P C s (broadcast_message L now type payload protocol s)"
| n_broadcast_request: "node_step L P C s (broadcast_request L now type payload response_type prom protocol s)"
| n_text: "node_step L P C s (send_text L now dest text s)"
| n_timer: "node_timer L P C now n aborted s = Some s' \<Longrightarrow> node_step L P C s s'"
| n_round: "processing_round L (Some (node_callback L P C now)) now (next, s) = (next', s') \<Longrightarrow> node_step L P C s s'"
| n_sink: "node_step L P C s (sink_event L s c)"
| n_events: "node_step L P C s (deliver_events L s)"
| n_sends: "node_step L P C s (perform_sends L s)"
| n_handlers: "node_step L P C s (s\<lparr>handlers := hs\<rparr>)"
| n_block: "node_step L P C s (set_block_all_messages b s)"
| n_directory: "node_step L P C s (set_output_directory text s)"
| n_start: "node_step L P C s (node_start s)"
| n_transport: "node_step L P C s (s\<lparr>rpc_connections := m\<rparr>)"

lemma postpone_waiting: "same_waiting (identity s) (identity (postpone L P now dest pkt s))"
  using ask_identity [of now dest]
  by (simp add: postpone_def case_prod_unfold Let_def send_identity_request_def buffer_outgoing_packet_def same_waiting_def)

lemma message_waiting: "same_waiting (identity s) (identity (node_send_message L P C now dest type payload protocol s))"
  using postpone_waiting [of "snd (draw_uuid L s)"]
  by (simp add: node_send_message_def Let_def case_prod_unfold node_secure_def)

lemma request_waiting: "same_waiting (identity s) (identity (send_request_async L P C now dest type payload rt cb protocol s))"
  using postpone_waiting [of "(snd (draw_uuid L s))\<lparr>tracker := t\<rparr>" for t]
  by (simp add: send_request_async_def Let_def case_prod_unfold node_secure_def)

lemma timer_identity: "node_timer L P C now n aborted s = Some s' \<Longrightarrow> identity s' = identity s"
proof (cases "map_of (waiting (tracker_timers (tracker s))) n")
  case (Some job)
  let ?t = "(tracker s)\<lparr>tracker_timers := take_handler n (tracker_timers (tracker s))\<rparr>"
  obtain cs t where o: "on_timer job aborted ?t = (cs, t)" by force
  have c: "cs = [] \<or> (\<exists>r cb. cs = [RequestCallback r cb [] None] \<or> cs = [BroadcastComplete r cb])"
    using o by (auto simp: on_timer_def complete_request_def split: timer_job.splits if_splits option.splits)
  have r: "run_tracker_call L P C now rec (RequestCallback r cb [] None) u = Some v \<Longrightarrow> identity v = identity u"
    "run_tracker_call L P C now rec (BroadcastComplete r cb) u = Some v \<Longrightarrow> identity v = identity u" for rec r cb u v
    by (cases cb; auto)+
  assume "node_timer L P C now n aborted s = Some s'"
  then show ?thesis using Some o c r by (auto simp: node_timer_def simp del: handle_incoming_packet.simps)
qed (simp add: node_timer_def)

lemma sink_event_fields [simp]:
  "identity (sink_event L s c) = identity s" "self_id (sink_event L s c) = self_id s" "calls (sink_event L s c) = calls s"
  "encrypt_messages (sink_event L s c) = encrypt_messages s"
  by (simp_all add: sink_event_def push_data_bytes_def on_peer_connected_def on_peer_disconnected_def split: sink_call.split option.split)

lemma sink_events_fields [simp]:
  "identity (foldl (sink_event L) s cs) = identity s" "self_id (foldl (sink_event L) s cs) = self_id s" "calls (foldl (sink_event L) s cs) = calls s"
  "encrypt_messages (foldl (sink_event L) s cs) = encrypt_messages s"
  by (induction cs arbitrary: s) simp_all

lemma deliver_events_fields [simp]:
  "identity (deliver_events L s) = identity s" "self_id (deliver_events L s) = self_id s" "calls (deliver_events L s) = calls s"
  "encrypt_messages (deliver_events L s) = encrypt_messages s"
  by (simp_all add: deliver_events_def Let_def)

lemma node_start_fields [simp]:
  "identity (node_start s) = identity s" "self_id (node_start s) = self_id s" "calls (node_start s) = calls s"
  "encrypt_messages (node_start s) = encrypt_messages s"
  by (simp_all add: node_start_def router_start_def setup_builtin_handlers_def on_request_def on_message_type_def)

lemma node_step_waiting:
  assumes "node_step L P C s s'" "waiting_ok (identity s)"
  shows "waiting_ok (identity s')"
  using assms(1)
proof cases
  case (n_round now "next" next')
  then show ?thesis using waiting_rounds.round [of s L P C now now "next"] assms(2) by (simp add: keeps_waiting_def)
next
  case (n_message now dest type payload protocol)
  then show ?thesis using assms(2) by (simp add: same_waiting_keeps(1) [OF message_waiting])
next
  case (n_request now dest type payload response_type cb protocol)
  then show ?thesis using assms(2) by (simp add: same_waiting_keeps(1) [OF request_waiting])
next
  case (n_timer now n aborted)
  then show ?thesis using assms(2) by (simp add: timer_identity [OF n_timer])
qed (use assms(2) in \<open>simp_all add: broadcast_message_def broadcast_request_def send_text_def perform_sends_def set_block_all_messages_def
    set_output_directory_def Let_def case_prod_unfold\<close>)

lemma node_step_sealed:
  assumes "node_step L P C s s'"
  shows "seals L s s' \<or> self_id s' = self_id s \<and> encrypt_messages s' = encrypt_messages s \<and> calls s' = []"
  using assms
proof cases
  case (n_round now "next" next')
  then show ?thesis using sealed_rounds.round [of L s P C now now "next"] by simp
next
  case (n_message now dest type payload protocol)
  then show ?thesis by (simp add: node_secrecy.R_send_message)
next
  case (n_request now dest type payload response_type cb protocol)
  then show ?thesis by (simp add: node_secrecy.R_send_request)
next
  case (n_timer now n aborted)
  then show ?thesis by (simp add: node_secrecy.R_timer [OF n_timer])
qed (simp_all add: node_secrecy.R_broadcasts perform_sends_def set_block_all_messages_def set_output_directory_def seals_same)

lemma new_node_fields:
  assumes "MeshNode now uport peer ssl im encrypt options net = Inr s"
  shows "self_id s = peer" "encrypt_messages s = encrypt" "calls s = []" "identity s = im" "tracker s = new_tracker"
    "has_transport s" "handlers s = []" "router.truncate s = MeshRouter now peer True" "\<not> ignore_all_incoming_messages s"
    "app_events s = []" "id_request_cooldowns s = []"
  using assms
  by (auto simp: MeshNode_def set_transport_def router.extend_def mesh_node.fields_def MeshRouter_def router.truncate_def split: sum.splits)

lemma node_history_sealed:
  assumes "(node_step L P C)\<^sup>*\<^sup>* s0 s" "encrypt_messages s0" "calls s0 = []"
  shows "self_id s = self_id s0 \<and> encrypt_messages s \<and> list_all (covered L (self_id s0)) (calls s)"
  using assms(1)
proof (induction rule: rtranclp_induct)
  case (step t u)
  then show ?case using node_step_sealed [OF step(2)] by (auto simp: seals_def)
qed (simp add: assms)

text \<open>
  C5.  A node that encrypts sends no message of its own to a peer in the clear.  In every history of such a
  node (calls of its user, packets of any content from the network, timers, any behaviour of the
  connections below), every packet it hands to its transport that it sends itself, that is binary and
  that goes to one peer, carries an encrypted payload, unless it is a certificate of the
  identity exchange.  What is not encrypted is exactly what this leaves: texts, broadcasts, certificates,
  routing updates and packets of others.
\<close>

theorem own_messages_encrypted:
  assumes "MeshNode now uport peer ssl im True options net = Inr s0" "(node_step L P C)\<^sup>*\<^sup>* s0 s" "c \<in> set (calls s)"
  shows "\<exists>q. (case c of SendTcp p env \<Rightarrow> env_payload env = packet_bytes L q | SendUdp p q' \<Rightarrow> q' = q | PacketForMe _ \<Rightarrow> True) \<and>
    (from_peer_id q = peer \<and> to_peer_id q \<noteq> [] \<and> pkt_type q = BINARY \<and>
       subtype q \<noteq> identity_request_subtype \<and> subtype q \<noteq> identity_response_subtype \<longrightarrow> has_encrypted_payload q)"
proof -
  have "covered L peer c" using node_history_sealed [OF assms(2)] new_node_fields [OF assms(1)] assms(3) by (simp add: list_all_iff)
  then show ?thesis unfolding covered_def carries_def confidential_def .
qed

text \<open>A node that has just been connected to a neighbour and tells it its routes.\<close>

definition ex_app :: app_lib where
  "ex_app = \<lparr>parses = (\<lambda>t b. True), identity_request_bytes = map (\<lambda>c. of_char c), identity_request_cert = map (\<lambda>b. char_of (unat b)),
     identity_response_bytes = map (\<lambda>c. of_char c), identity_response_cert = map (\<lambda>b. char_of (unat b)),
     ping_request_bytes = map (\<lambda>c. of_char c), ping_response_bytes = map (\<lambda>c. of_char c), topology_request_bytes = [],
     topology_response_bytes = (\<lambda>ps. concat (map (map (\<lambda>c. of_char c)) ps)), directly_connected_peers = (\<lambda>b. [map (\<lambda>b. char_of (unat b)) b]),
     user_replies = (\<lambda>n p b. [])\<rparr>"

definition ex_node :: mesh_node where
  "ex_node = (case MeshNode 0 5 ''a'' False new_identity True default_fec_options ex_sockets of Inr s \<Rightarrow> s)"

lemma ex_node_new: "MeshNode 0 5 ''a'' False new_identity True default_fec_options ex_sockets = Inr ex_node"
proof -
  have "\<exists>s. MeshNode 0 5 ''a'' False new_identity True default_fec_options ex_sockets = Inr s"
    by (simp add: MeshNode_def RpcManager_def UdpTransport_def ex_sockets_def default_fec_options_def)
  then show ?thesis by (auto simp: ex_node_def)
qed

definition ex_connected :: mesh_node where
  "ex_connected = snd (processing_round ex_lib (Some (node_callback ex_lib ex_app ex_crypto 20000)) 20000 (0, sink_event ex_lib ex_node (PeerConnected ''b'')))"

lemma ex_connected_reached: "(node_step ex_lib ex_app ex_crypto)\<^sup>*\<^sup>* ex_node ex_connected"
proof -
  have "node_step ex_lib ex_app ex_crypto ex_node (sink_event ex_lib ex_node (PeerConnected ''b''))" by (rule n_sink)
  moreover have "node_step ex_lib ex_app ex_crypto (sink_event ex_lib ex_node (PeerConnected ''b'')) ex_connected"
    unfolding ex_connected_def by (rule n_round [OF surjective_pairing])
  ultimately show ?thesis by (meson converse_rtranclp_into_rtranclp r_into_rtranclp)
qed

lemma ex_connected_calls: "calls ex_connected \<noteq> []"
  by code_simp

theorem own_messages_encrypted_witness:
  "MeshNode 0 5 ''a'' False new_identity True default_fec_options ex_sockets = Inr ex_node \<and> (node_step ex_lib ex_app ex_crypto)\<^sup>*\<^sup>* ex_node ex_connected \<and>
   hd (calls ex_connected) \<in> set (calls ex_connected) \<and>
   (\<exists>q. (case hd (calls ex_connected) of SendTcp p env \<Rightarrow> env_payload env = packet_bytes ex_lib q | SendUdp p q' \<Rightarrow> q' = q | PacketForMe _ \<Rightarrow> True) \<and>
     (from_peer_id q = ''a'' \<and> to_peer_id q \<noteq> [] \<and> pkt_type q = BINARY \<and>
        subtype q \<noteq> identity_request_subtype \<and> subtype q \<noteq> identity_response_subtype \<longrightarrow> has_encrypted_payload q))"
proof -
  have c: "hd (calls ex_connected) \<in> set (calls ex_connected)" using ex_connected_calls by simp
  from own_messages_encrypted [OF ex_node_new ex_connected_reached c] show ?thesis using ex_node_new ex_connected_reached c by blast
qed

text \<open>
  C15.  Handling a packet always ends.  \<^verbatim>\<open>handle_incoming_packet\<close> calls itself for the packets that waited for a
  key; in every state a node can reach, and for every packet, two levels of calls are enough
  and more change nothing: packets wait only for peers whose key is not known, and those that a new key
  releases are from the peer of that key, so handling them releases no others.
\<close>

theorem incoming_packet_handled:
  assumes "MeshNode t uport peer ssl im encrypt options net = Inr s0" "pending_incoming_packets im = []" "(node_step L P C)\<^sup>*\<^sup>* s0 s"
  shows "\<exists>r. (\<forall>d\<ge>2. handle_incoming_packet d L P C now pkt s = Some r) \<and> node_callback L P C now pkt s = r \<and>
    (\<forall>p xs. map_of (pending_incoming_packets (identity (snd r))) p = Some xs \<longrightarrow> \<not> has_key p (identity (snd r)) \<and> (\<forall>x\<in>set xs. from_peer_id x = p))"
proof -
  have "waiting_ok (identity s0)" using new_node_fields(4) [OF assms(1)] assms(2) by (simp add: waiting_ok_def)
  with assms(3) have "waiting_ok (identity s)"
    by (induction rule: rtranclp_induct) (auto dest: node_step_waiting)
  then obtain r where r: "\<And>d. handle_incoming_packet (Suc (Suc d)) L P C now pkt s = Some r" "waiting_ok (identity (snd r))"
    using handle_any by blast
  have "handle_incoming_packet d L P C now pkt s = Some r" if "2 \<le> d" for d
    using r(1) [of "d - 2"] that by (simp add: numeral_2_eq_2 Suc_diff_Suc del: handle_incoming_packet.simps)
  then show ?thesis using r(2) by (intro exI [of _ r]) (simp add: node_callback_def waiting_ok_def)
qed

theorem incoming_packet_handled_witness:
  "pending_incoming_packets new_identity = [] \<and>
   handle_incoming_packet 7 ex_lib ex_app ex_crypto 0 (default_packet\<lparr>from_peer_id := ''b'', payload_variant := EncryptedPayload [1]\<rparr>) ex_connected =
     Some (node_callback ex_lib ex_app ex_crypto 0 (default_packet\<lparr>from_peer_id := ''b'', payload_variant := EncryptedPayload [1]\<rparr>) ex_connected)"
proof -
  have n: "pending_incoming_packets new_identity = []" by (simp add: new_identity_def)
  obtain r where r: "\<forall>d\<ge>2. handle_incoming_packet d ex_lib ex_app ex_crypto 0 (default_packet\<lparr>from_peer_id := ''b'', payload_variant := EncryptedPayload [1]\<rparr>) ex_connected = Some r"
      "node_callback ex_lib ex_app ex_crypto 0 (default_packet\<lparr>from_peer_id := ''b'', payload_variant := EncryptedPayload [1]\<rparr>) ex_connected = r"
    using incoming_packet_handled [OF ex_node_new n ex_connected_reached] by blast
  have "(2 :: nat) \<le> 7" by simp
  with r n show ?thesis by blast
qed

end
