(* ===== verification/Node_Exchange.thy ===== *)
theory Node_Exchange
  imports Mesh_Node_Theorems
begin

text \<open>
  Two nodes that talk to each other: a ping and its answer, encrypted and over any number of routers in between,
  and a message that has to wait for the key of its receiver.  A packet travels as the bytes of the envelope
  one node hands to its transport and arrives, with any hop count, at the router of the other.
\<close>

section \<open>What the nodes rely on\<close>

text \<open>
  OpenSSL does not fail on what the nodes give it: random bytes for a key and an initialisation vector, CBC encryption of
  a message whose length is well within an \<^verbatim>\<open>int\<close>, and for an RSA key of usual size the encryption of one AES key (OAEP
  padding bounds the length it takes) and signing.
\<close>

definition evp_sized :: "bytes \<Rightarrow> bool" where
  "evp_sized m \<longleftrightarrow> length m < 2 ^ 30"

definition cipher_works :: "('k, 'x) crypto_lib \<Rightarrow> bool" where
  "cipher_works C \<longleftrightarrow> (\<forall>n. fst (rand_bytes C n AES_KEY_SIZE) \<and> fst (rand_bytes C n AES_IV_SIZE)) \<and>
     (\<forall>key iv p. length key = AES_KEY_SIZE \<longrightarrow> length iv = AES_IV_SIZE \<longrightarrow> evp_sized p \<longrightarrow> (\<exists>c. cbc_encrypt C key iv p = Inr c))"

definition working_pair :: "('k, 'x) crypto_lib \<Rightarrow> string \<Rightarrow> string \<Rightarrow> bool" where
  "working_pair C pub priv \<longleftrightarrow> key_pair C pub priv \<and> pub \<noteq> [] \<and>
     (\<exists>kp. read_pubkey C pub = Some kp \<and> (\<forall>n m. length m = AES_KEY_SIZE \<longrightarrow> (\<exists>c. pkey_encrypt C n kp m = Inr c))) \<and>
     (\<exists>ks. read_private_key C priv = Some ks \<and> (\<forall>m. \<exists>s. digest_sign C ks m = Inr s))"

text \<open>The node \<open>s\<close> holds the public key of the node \<open>t\<close>.\<close>

definition trusts :: "('k, 'x) crypto_lib \<Rightarrow> mesh_node \<Rightarrow> mesh_node \<Rightarrow> bool" where
  "trusts C s t \<longleftrightarrow> (\<exists>pub. get_public_key (self_id t) (identity s) = Some pub \<and> working_pair C pub (my_private_key (identity t)))"

text \<open>The node has a live route to the peer, through the neighbour \<open>x\<close>.\<close>

definition reaches :: "mesh_node \<Rightarrow> peer_id \<Rightarrow> peer_id \<Rightarrow> bool" where
  "reaches s p x \<longleftrightarrow> p \<noteq> [] \<and> p \<noteq> self_id s \<and> has_transport s \<and> determine_next_hop p s = [x] \<and> x \<noteq> self_id s"

text \<open>Protobuf parses what it has serialised.\<close>

definition ping_law :: "app_lib \<Rightarrow> bool" where
  "ping_law P \<longleftrightarrow> (\<forall>m. parses P ''mesh.PingRequest'' (ping_request_bytes P m) \<and> parses P ''mesh.PingResponse'' (ping_response_bytes P m))"

definition arrives :: "mesh_lib \<Rightarrow> app_lib \<Rightarrow> ('k, 'x) crypto_lib \<Rightarrow> time_ms \<Rightarrow> peer_id \<Rightarrow> routed_packet \<Rightarrow> mesh_node \<Rightarrow> mesh_node" where
  "arrives L P C now y q s = process_event L (Some (node_callback L P C now)) now (PACKET_RECEIVED y q) s"

section \<open>Sending and receiving one packet\<close>

lemma determine_other:
  "p \<noteq> [] \<Longrightarrow> forwarding_table t = forwarding_table s \<Longrightarrow> determine_next_hop p t = determine_next_hop p s"
  by (simp add: determine_next_hop_def)

lemma send_one:
  assumes "reaches s (to_peer_id pkt) x" "transport pkt = TCP" "ttl pkt \<noteq> 1"
  shows "calls (node_send_packet L now pkt s) =
    calls s @ [SendTcp x (MakeGenericData (uuid L (uuid_count s)) (packet_bytes L (pkt\<lparr>ttl := ttl pkt - 1\<rparr>)))]"
proof -
  let ?s = "s\<lparr>seen_packet_ids := snd (dedup_insert now (to_hex (pkt_id pkt), expect_response pkt) (seen_packet_ids s))\<rparr>"
  have r: "to_peer_id pkt \<noteq> []" "to_peer_id pkt \<noteq> self_id s" "has_transport s" "determine_next_hop (to_peer_id pkt) ?s = [x]" "x \<noteq> self_id s"
    using assms(1) determine_other [of "to_peer_id pkt" ?s s] by (simp_all add: reaches_def)
  have "node_send_packet L now pkt s = foldl (forward_to L (self_id s) pkt) ?s [x]"
    using r by (simp add: node_send_packet_def send_packet_def route_data_packet_def dedup_and_forward_def Let_def)
  then show ?thesis using r assms(2,3) by (simp add: forward_to_cases call_def)
qed

lemma arrives_for_me:
  assumes "y \<noteq> self_id s" "from_peer_id q \<noteq> self_id s" "to_peer_id q = self_id s" "pkt_type q \<noteq> ROUTING_UPDATE"
  shows "\<exists>v. arrives L P C now y q s = snd (node_callback L P C now q (s\<lparr>neighbor_views := v, calls := calls s @ [PacketForMe q]\<rparr>))"
proof -
  define t where "t = (case map_of (neighbor_views s) y of None \<Rightarrow> s
    | Some v \<Rightarrow> s\<lparr>neighbor_views := AList.update y (v\<lparr>last_heard_from := now\<rparr>) (neighbor_views s)\<rparr>)"
  have "arrives L P C now y q s = snd (node_callback L P C now q (call (PacketForMe q) t))"
    using assms by (auto simp: arrives_def process_event_def handle_packet_def route_data_packet_def deliver_local_def t_def split: option.split prod.split)
  moreover have "\<exists>v. t = s\<lparr>neighbor_views := v\<rparr>"
  proof (cases "map_of (neighbor_views s) y")
    case None
    then have "t = s\<lparr>neighbor_views := neighbor_views s\<rparr>" by (simp add: t_def)
    then show ?thesis by blast
  qed (auto simp: t_def)
  ultimately show ?thesis by (auto simp: call_def)
qed

lemma callback_opened:
  assumes "\<not> ignore_all_incoming_messages s" "open_packet L P C now q s = Inr q'" "\<And>rec. dispatch_packet L P C now rec q' s = Some t"
  shows "node_callback L P C now q s = (q', t)"
  using assms by (simp add: node_callback_def numeral_2_eq_2)

section \<open>Encryption between two nodes\<close>

lemma secure_succeeds:
  assumes "cipher_works C" "rand_fills C" "get_public_key p im = Some pub" "working_pair C pub priv" "working_pair C pub' (my_private_key im)" "evp_sized raw"
  shows "\<exists>c k s. secure_packet C n im pkt p raw = (True, pkt\<lparr>payload_variant := EncryptedPayload c, encrypted_session_key := k, signature := s\<rparr>)"
proof -
  have len: "length (generate_aes_key C n) = AES_KEY_SIZE" "length (snd (rand_bytes C (n + 1) AES_IV_SIZE)) = AES_IV_SIZE"
    using assms(2) by (simp_all add: generate_aes_key_def rand_fills_def)
  from this obtain ct where "cbc_encrypt C (generate_aes_key C n) (snd (rand_bytes C (n + 1) AES_IV_SIZE)) raw = Inr ct"
    using assms(1,6) unfolding cipher_works_def by blast
  with len obtain c where c: "aes_encrypt C (n + 1) (generate_aes_key C n) raw = Inr c"
    using assms(1) by (simp add: aes_encrypt_def Let_def case_prod_unfold cipher_works_def)
  obtain k where k: "rsa_encrypt_key C (n + 2) pub (generate_aes_key C n) = Inr k"
  proof -
    obtain kp where kp: "read_pubkey C pub = Some kp" "\<forall>n m. length m = AES_KEY_SIZE \<longrightarrow> (\<exists>c. pkey_encrypt C n kp m = Inr c)" using assms(4) unfolding working_pair_def by blast
    from kp(2) len(1) obtain k where "pkey_encrypt C (n + 2) kp (generate_aes_key C n) = Inr k" by blast
    then show ?thesis using that kp(1) by (simp add: rsa_encrypt_key_def)
  qed
  obtain s where s: "sign_message C (my_private_key im) c = Inr s"
  proof -
    obtain ks where ks: "read_private_key C (my_private_key im) = Some ks" "\<forall>m. \<exists>s. digest_sign C ks m = Inr s" using assms(5) unfolding working_pair_def by blast
    from ks(2) obtain s where "digest_sign C ks c = Inr s" by blast
    then show ?thesis using that ks(1) by (simp add: sign_message_def)
  qed
  have "pub \<noteq> []" using assms(4) by (simp add: working_pair_def)
  then show ?thesis using assms(3) c k s by (intro exI [of _ c] exI [of _ k] exI [of _ s]) (simp add: secure_packet_def clear_binary_data_def)
qed

lemma node_secure_succeeds:
  assumes laws: "cbc_inverse C" "cipher_works C" "rand_fills C" and t: "trusts C s t" "trusts C t s" and f: "from_peer_id pkt = self_id s" and raw: "evp_sized raw"
  shows "\<exists>c k g. node_secure C pkt (self_id t) raw s =
      (True, pkt\<lparr>payload_variant := EncryptedPayload c, encrypted_session_key := k, signature := g\<rparr>, s\<lparr>rand_count := rand_count s + 3\<rparr>) \<and>
    (\<forall>h. decrypt_packet C (identity t) (pkt\<lparr>payload_variant := EncryptedPayload c, encrypted_session_key := k, signature := g, ttl := h\<rparr>) = Inr raw)"
proof -
  obtain pub where pub: "get_public_key (self_id t) (identity s) = Some pub" "working_pair C pub (my_private_key (identity t))"
    using t(1) by (auto simp: trusts_def)
  obtain pub' where pub': "get_public_key (self_id s) (identity t) = Some pub'" "working_pair C pub' (my_private_key (identity s))"
    using t(2) by (auto simp: trusts_def)
  obtain c k g where s: "secure_packet C (rand_count s) (identity s) pkt (self_id t) raw =
      (True, pkt\<lparr>payload_variant := EncryptedPayload c, encrypted_session_key := k, signature := g\<rparr>)"
    using secure_succeeds [OF laws(2,3) pub pub'(2) raw] by blast
  let ?q = "pkt\<lparr>payload_variant := EncryptedPayload c, encrypted_session_key := k, signature := g\<rparr>"
  have kp: "key_pair C pub (my_private_key (identity t))" "key_pair C pub' (my_private_key (identity s))" "pub' \<noteq> []"
    using pub(2) pub'(2) by (simp_all add: working_pair_def)
  have "get_public_key (from_peer_id pkt) (identity t) = Some pub'" using f pub'(1) by simp
  from secured_opens [OF laws(1,3) kp(1,2) pub(1) this kp(3) s]
  have "decrypt_packet C (identity t) (?q\<lparr>pkt_id := pkt_id ?q, to_peer_id := to_peer_id ?q, ttl := h, pkt_type := pkt_type ?q,
      transport := transport ?q, subtype := subtype ?q, expect_response := expect_response ?q\<rparr>) = Inr raw" for h by blast
  then show ?thesis using s by (intro exI [of _ c] exI [of _ k] exI [of _ g]) (simp add: node_secure_def)
qed

section \<open>A ping and its answer\<close>

text \<open>What a packet looks like on its way: encrypted, to one peer, with the given header.\<close>

definition sealed_for :: "('k, 'x) crypto_lib \<Rightarrow> mesh_node \<Rightarrow> mesh_node \<Rightarrow> bytes \<Rightarrow> string \<Rightarrow> bool \<Rightarrow> bytes \<Rightarrow> routed_packet \<Rightarrow> bool" where
  "sealed_for C s t i type expect raw q \<longleftrightarrow> pkt_id q = i \<and> from_peer_id q = self_id s \<and> to_peer_id q = self_id t \<and> pkt_type q = BINARY \<and>
     transport q = TCP \<and> subtype q = type \<and> expect_response q = expect \<and> has_encrypted_payload q \<and>
     (\<forall>h. decrypt_packet C (identity t) (q\<lparr>ttl := h\<rparr>) = Inr raw)"

lemma sealed_ttl [simp]: "sealed_for C s t i type expect raw (q\<lparr>ttl := h\<rparr>) = sealed_for C s t i type expect raw q"
  by (simp add: sealed_for_def has_encrypted_payload_def)

text \<open>Securing and sending a packet, in a state that differs from \<open>s\<close> in bookkeeping only.\<close>

lemma secured_send:
  assumes laws: "cbc_inverse C" "cipher_works C" "rand_fills C" "packet_law L" and tr: "trusts C s t" "trusts C t s" and r: "reaches s (self_id t) x"
    and u: "self_id u = self_id s" "identity u = identity s" "has_transport u = has_transport s" "forwarding_table u = forwarding_table s"
    and pkt: "pkt = (MakeBinaryRoutedPacket i (self_id s) (self_id t) h type TCP b expect)\<lparr>pkt_id := i'\<rparr>" and h: "h \<noteq> 1" and raw: "evp_sized raw"
    and sec: "node_secure C pkt (self_id t) raw u = (ok, pkt', u')"
  shows "ok \<and> u' = u\<lparr>rand_count := rand_count u + 3\<rparr> \<and> sealed_for C s t i' type expect raw pkt' \<and>
    (\<forall>tr. \<exists>env. calls (node_send_packet L now pkt' (u'\<lparr>tracker := tr\<rparr>)) = calls u @ [SendTcp x env] \<and> decodeRoutedPacket L (env_payload env) = Some (pkt'\<lparr>ttl := h - 1\<rparr>))"
proof -
  have tu: "trusts C u t" "trusts C t u" using tr u by (simp_all add: trusts_def)
  have f: "from_peer_id pkt = self_id u" using pkt u by (simp add: MakeBinaryRoutedPacket_def)
  obtain c k g where s: "node_secure C pkt (self_id t) raw u =
      (True, pkt\<lparr>payload_variant := EncryptedPayload c, encrypted_session_key := k, signature := g\<rparr>, u\<lparr>rand_count := rand_count u + 3\<rparr>)"
      "\<And>h. decrypt_packet C (identity t) (pkt\<lparr>payload_variant := EncryptedPayload c, encrypted_session_key := k, signature := g, ttl := h\<rparr>) = Inr raw"
    using node_secure_succeeds [OF laws(1-3) tu f raw] by blast
  have q: "pkt' = pkt\<lparr>payload_variant := EncryptedPayload c, encrypted_session_key := k, signature := g\<rparr>" "ok" "u' = u\<lparr>rand_count := rand_count u + 3\<rparr>"
    using sec s(1) by simp_all
  have sealed: "sealed_for C s t i' type expect raw pkt'"
    using s(2) u(1) unfolding q pkt by (simp add: sealed_for_def has_encrypted_payload_def MakeBinaryRoutedPacket_def)
  have "\<exists>env. calls (node_send_packet L now pkt' (u'\<lparr>tracker := tr\<rparr>)) = calls u @ [SendTcp x env] \<and> decodeRoutedPacket L (env_payload env) = Some (pkt'\<lparr>ttl := h - 1\<rparr>)" for tr
  proof -
    let ?u = "u'\<lparr>tracker := tr\<rparr>"
    have "determine_next_hop (self_id t) ?u = determine_next_hop (self_id t) s"
      by (rule determine_other) (use r u q(3) in \<open>simp_all add: reaches_def\<close>)
    then have r': "reaches ?u (to_peer_id pkt') x" using r u q(3) sealed by (simp add: reaches_def sealed_for_def)
    have n: "ttl pkt' = h" "transport pkt' = TCP" unfolding q pkt by (simp_all add: MakeBinaryRoutedPacket_def)
    have "calls (node_send_packet L now pkt' ?u) = calls ?u @ [SendTcp x (MakeGenericData (uuid L (uuid_count ?u)) (packet_bytes L (pkt'\<lparr>ttl := h - 1\<rparr>)))]"
      using send_one [OF r'] n h by simp
    moreover have "decodeRoutedPacket L (packet_bytes L (pkt'\<lparr>ttl := h - 1\<rparr>)) = Some (pkt'\<lparr>ttl := h - 1\<rparr>)"
      using laws(4) by (simp add: decodeRoutedPacket_def packet_law_def)
    ultimately show ?thesis using q(3) by (auto simp: MakeGenericData_def)
  qed
  then show ?thesis using q(2,3) sealed by blast
qed

lemma ping_sent:
  assumes laws: "cbc_inverse C" "cipher_works C" "rand_fills C" "packet_law L" and tr: "trusts C a b" "trusts C b a" and r: "reaches a (self_id b) x"
    and raw: "evp_sized (ping_request_bytes P (''hello from '' @ self_id a))" and e: "encrypt_messages a" and a1: "a1 = ping_begin L P C now (self_id b) prom a"
  shows "\<exists>env q. calls a1 = calls a @ [SendTcp x env] \<and> decodeRoutedPacket L (env_payload env) = Some q \<and>
    sealed_for C a b (uuid L (uuid_count a)) ''mesh.PingRequest'' True (ping_request_bytes P (''hello from '' @ self_id a)) q \<and>
    tracker a1 = track_request_callback (to_hex (uuid L (uuid_count a))) (InternalCb ''mesh.PingResponse'' (PromiseCallback prom)) (tracker a) \<and>
    identity a1 = identity a \<and> self_id a1 = self_id a \<and> app_events a1 = app_events a \<and> ignore_all_incoming_messages a1 = ignore_all_incoming_messages a"
proof -
  let ?i = "uuid L (uuid_count a)" and ?u = "a\<lparr>uuid_count := Suc (uuid_count a)\<rparr>" and ?raw = "ping_request_bytes P (''hello from '' @ self_id a)"
  let ?pkt = "MakeBinaryRoutedPacket ?i (self_id a) (self_id b) DEFAULT_TTL ''mesh.PingRequest'' TCP [] True"
  obtain ok q u' where sec: "node_secure C ?pkt (self_id b) ?raw ?u = (ok, q, u')" by (metis prod_cases3)
  have pid: "?pkt = ?pkt\<lparr>pkt_id := ?i\<rparr>" "pkt_id ?pkt = ?i" by (simp_all add: MakeBinaryRoutedPacket_def)
  note s = secured_send [OF laws tr r _ _ _ _ pid(1) _ raw sec, of now]
  have d: "DEFAULT_TTL \<noteq> 1" by (simp add: DEFAULT_TTL_def)
  let ?tr = "track_request_callback (to_hex ?i) (InternalCb ''mesh.PingResponse'' (PromiseCallback prom)) (tracker a)"
  have k: "has_key (self_id b) (identity a)" using tr(1) by (auto simp: trusts_def has_key_def get_public_key_def)
  have u': "ok" "u' = ?u\<lparr>rand_count := rand_count a + 3\<rparr>" "sealed_for C a b ?i ''mesh.PingRequest'' True ?raw q" using s d by simp_all
  have t: "tracker u' = tracker a" unfolding u'(2) by simp
  have "a1 = node_send_packet L now q (u'\<lparr>tracker := ?tr\<rparr>)"
    using e k sec u'(1) pid(2) t
    by (simp add: a1 ping_begin_def send_request_def send_request_async_def draw_uuid_def Let_def identity_request_subtype_def)
  moreover obtain env where "calls (node_send_packet L now q (u'\<lparr>tracker := ?tr\<rparr>)) = calls ?u @ [SendTcp x env]"
      "decodeRoutedPacket L (env_payload env) = Some (q\<lparr>ttl := DEFAULT_TTL - 1\<rparr>)" using s d by fastforce
  ultimately show ?thesis using u'
    by (intro exI [of _ env] exI [of _ "q\<lparr>ttl := DEFAULT_TTL - 1\<rparr>"]) simp
qed

text \<open>The receiver of a sealed packet opens it.\<close>

lemma sealed_opens:
  assumes "sealed_for C s t i type expect raw q" "identity u = identity t" "has_key (self_id s) (identity t)"
  shows "open_packet L P C now (q\<lparr>ttl := h\<rparr>) u =
    Inr (q\<lparr>ttl := h, signature := [], encrypted_session_key := [], payload_variant := BinaryData raw\<rparr>)"
proof -
  have "has_encrypted_payload (q\<lparr>ttl := h\<rparr>)" "from_peer_id q = self_id s" "decrypt_packet C (identity u) (q\<lparr>ttl := h\<rparr>) = Inr raw"
    using assms by (simp_all add: sealed_for_def has_encrypted_payload_def)
  then show ?thesis using assms(2,3)
    by (simp add: open_packet_def Let_def clear_encrypted_payload_def split: payload_variant.split)
qed

lemma trusts_has_key: "trusts C s t \<Longrightarrow> has_key (self_id t) (identity s)"
  by (auto simp: trusts_def has_key_def get_public_key_def)

lemma ping_answered:
  assumes laws: "cbc_inverse C" "cipher_works C" "rand_fills C" "packet_law L" "ping_law P" and tr: "trusts C a b" "trusts C b a"
    and r: "reaches b (self_id a) x" and e: "encrypt_messages b" "\<not> ignore_all_incoming_messages b"
    and raw: "evp_sized (ping_response_bytes P (''hello from'' @ self_id b))"
    and hd: "map_of (handlers b) ''mesh.PingRequest'' = Some \<lparr>ResponseSubtype = Some ''mesh.PingResponse'', info_handler = PingHandler\<rparr>"
    and i: "to_hex i \<notin> tracked (tracker b)" and y: "y \<noteq> self_id b"
    and q: "sealed_for C a b i ''mesh.PingRequest'' True (ping_request_bytes P m) q"
  shows "\<exists>env q'. calls (arrives L P C now y (q\<lparr>ttl := h\<rparr>) b) = calls b @ [PacketForMe (q\<lparr>ttl := h\<rparr>), SendTcp x env] \<and>
    decodeRoutedPacket L (env_payload env) = Some q' \<and>
    sealed_for C b a i ''mesh.PingResponse'' False (ping_response_bytes P (''hello from'' @ self_id b)) q'"
proof -
  have qf: "pkt_id q = i" "from_peer_id q = self_id a" "to_peer_id q = self_id b" "pkt_type q = BINARY" "transport q = TCP"
    "subtype q = ''mesh.PingRequest''" "expect_response q" using q by (simp_all add: sealed_for_def)
  have ab: "self_id a \<noteq> self_id b" using r by (simp add: reaches_def)
  obtain v where v: "arrives L P C now y (q\<lparr>ttl := h\<rparr>) b =
      snd (node_callback L P C now (q\<lparr>ttl := h\<rparr>) (b\<lparr>neighbor_views := v, calls := calls b @ [PacketForMe (q\<lparr>ttl := h\<rparr>)]\<rparr>))"
    using arrives_for_me [of y b "q\<lparr>ttl := h\<rparr>" L P C now] y qf ab by auto
  let ?b = "b\<lparr>neighbor_views := v, calls := calls b @ [PacketForMe (q\<lparr>ttl := h\<rparr>)]\<rparr>"
  let ?q = "q\<lparr>ttl := h, signature := [], encrypted_session_key := [], payload_variant := BinaryData (ping_request_bytes P m)\<rparr>"
  let ?resp = "ping_response_bytes P (''hello from'' @ self_id b)"
  have op: "open_packet L P C now (q\<lparr>ttl := h\<rparr>) ?b = Inr ?q" by (rule sealed_opens [OF q _ trusts_has_key [OF tr(2)]]) simp
  have none: "map_of (pending_requests (tracker b)) (to_hex i) = None" "map_of (broadcasts (tracker b)) (to_hex i) = None"
    using i tracked_iff [of "to_hex i" "tracker b"] by blast+
  let ?u = "b\<lparr>neighbor_views := v, calls := calls b @ [PacketForMe (q\<lparr>ttl := h\<rparr>)], uuid_count := Suc (uuid_count b)\<rparr>"
  let ?pkt = "(MakeBinaryRoutedPacket (uuid L (uuid_count b)) (self_id b) (self_id a) 15 ''mesh.PingResponse'' TCP ?resp False)\<lparr>pkt_id := i\<rparr>"
  obtain ok q' u' where sec: "node_secure C ?pkt (self_id a) ?resp ?u = (ok, q', u')" by (metis prod_cases3)
  have "ok \<and> u' = ?u\<lparr>rand_count := rand_count ?u + 3\<rparr> \<and> sealed_for C b a i ''mesh.PingResponse'' False ?resp q' \<and>
      (\<forall>tr. \<exists>env. calls (node_send_packet L now q' (u'\<lparr>tracker := tr\<rparr>)) = calls ?u @ [SendTcp x env] \<and> decodeRoutedPacket L (env_payload env) = Some (q'\<lparr>ttl := 15 - 1\<rparr>))"
    by (rule secured_send [OF laws(1-4) tr(2,1) r _ _ _ _ refl _ raw sec]) simp_all
  then have s: "ok" "u' = ?u\<lparr>rand_count := rand_count ?u + 3\<rparr>" "sealed_for C b a i ''mesh.PingResponse'' False ?resp q'"
    "\<exists>env. calls (node_send_packet L now q' (u'\<lparr>tracker := tracker b\<rparr>)) = calls ?u @ [SendTcp x env] \<and> decodeRoutedPacket L (env_payload env) = Some (q'\<lparr>ttl := 15 - 1\<rparr>)"
    by blast+
  have "dispatch_packet L P C now rec ?q ?b = Some (reply L C now ?q (Some ''mesh.PingResponse'') ?resp ?b)" for rec
    using none hd qf laws(5) by (simp add: dispatch_packet_def fulfill_request_def binary_data_def ping_law_def)
  from callback_opened [OF _ op this] have "snd (node_callback L P C now (q\<lparr>ttl := h\<rparr>) ?b) = reply L C now ?q (Some ''mesh.PingResponse'') ?resp ?b"
    using e by simp
  also have "\<dots> = node_send_packet L now q' u'"
    using qf e(1) sec s(1) by (simp add: reply_def draw_uuid_def Let_def identity_request_subtype_def identity_response_subtype_def)
  finally have "arrives L P C now y (q\<lparr>ttl := h\<rparr>) b = node_send_packet L now q' (u'\<lparr>tracker := tracker b\<rparr>)" using v s(2) by simp
  then show ?thesis using s(3,4) by (auto intro!: exI [of _ "q'\<lparr>ttl := 15 - 1\<rparr>"])
qed

lemma ping_returned:
  assumes tr: "trusts C a b" and e: "\<not> ignore_all_incoming_messages a" and y: "y \<noteq> self_id a" "self_id b \<noteq> self_id a"
    and t: "map_of (pending_requests (tracker a)) (to_hex i) = Some (InternalCb ''mesh.PingResponse'' (PromiseCallback prom), n)"
    and p: "parses P ''mesh.PingResponse'' raw" and q: "sealed_for C b a i ''mesh.PingResponse'' False raw q"
  shows "app_events (arrives L P C now y (q\<lparr>ttl := h\<rparr>) a) = app_events a @ [PromiseValue prom (Inr (self_id b, raw))]"
proof -
  have qf: "pkt_id q = i" "from_peer_id q = self_id b" "to_peer_id q = self_id a" "pkt_type q = BINARY" using q by (simp_all add: sealed_for_def)
  obtain v where v: "arrives L P C now y (q\<lparr>ttl := h\<rparr>) a =
      snd (node_callback L P C now (q\<lparr>ttl := h\<rparr>) (a\<lparr>neighbor_views := v, calls := calls a @ [PacketForMe (q\<lparr>ttl := h\<rparr>)]\<rparr>))"
    using arrives_for_me [of y a "q\<lparr>ttl := h\<rparr>" L P C now] y qf by auto
  let ?a = "a\<lparr>neighbor_views := v, calls := calls a @ [PacketForMe (q\<lparr>ttl := h\<rparr>)]\<rparr>"
  let ?q = "q\<lparr>ttl := h, signature := [], encrypted_session_key := [], payload_variant := BinaryData raw\<rparr>"
  have op: "open_packet L P C now (q\<lparr>ttl := h\<rparr>) ?a = Inr ?q" by (rule sealed_opens [OF q _ trusts_has_key [OF tr]]) simp
  obtain cs tk where f: "fulfill_request (to_hex i) (self_id b) raw (tracker a) = (True, cs, tk)"
      "cs = [RequestCallback (to_hex i) (InternalCb ''mesh.PingResponse'' (PromiseCallback prom)) (self_id b) (Some raw)]"
    using t by (simp add: fulfill_request_def complete_request_def)
  have "dispatch_packet L P C now rec ?q ?a = Some (emit (PromiseValue prom (Inr (self_id b, raw))) (?a\<lparr>tracker := tk\<rparr>))" for rec
    using f qf p by (simp add: dispatch_packet_def binary_data_def run_app_callback_def)
  from callback_opened [OF _ op this] e v show ?thesis by (simp add: emit_def)
qed

text \<open>
  C4.  A ping between two nodes that encrypt comes back with the answer.  If the two nodes hold each other's
  keys (of a size RSA-OAEP takes an AES key with) and have routes to each other (direct or over other routers), and the two messages
  are of a length OpenSSL encrypts, \<^verbatim>\<open>ping\<close> hands its transport one
  encrypted packet; whenever that packet reaches the other node, with any hop count left, the node answers with one
  encrypted packet; and whenever that reaches the first node, the promise of the ping gets the
  response and the id of the peer, so \<^verbatim>\<open>ping\<close> returns true.
\<close>

theorem ping_gets_answer:
  assumes "cbc_inverse C" "cipher_works C" "rand_fills C" "packet_law L" "ping_law P"
    and "trusts C a b" "trusts C b a" "reaches a (self_id b) x" "reaches b (self_id a) x'"
    and "encrypt_messages a" "encrypt_messages b" "\<not> ignore_all_incoming_messages a" "\<not> ignore_all_incoming_messages b"
    and "map_of (handlers b) ''mesh.PingRequest'' = Some \<lparr>ResponseSubtype = Some ''mesh.PingResponse'', info_handler = PingHandler\<rparr>"
    and "to_hex (uuid L (uuid_count a)) \<notin> tracked (tracker b)" "y \<noteq> self_id b" "y' \<noteq> self_id a"
    and "a1 = ping_begin L P C now (self_id b) prom a"
    and size: "evp_sized (ping_request_bytes P (''hello from '' @ self_id a))" "evp_sized (ping_response_bytes P (''hello from'' @ self_id b))"
  shows "\<exists>env q. calls a1 = calls a @ [SendTcp x env] \<and> decodeRoutedPacket L (env_payload env) = Some q \<and> has_encrypted_payload q \<and>
    (\<forall>now1 h. \<exists>env' q'. calls (arrives L P C now1 y (q\<lparr>ttl := h\<rparr>) b) = calls b @ [PacketForMe (q\<lparr>ttl := h\<rparr>), SendTcp x' env'] \<and>
       decodeRoutedPacket L (env_payload env') = Some q' \<and> has_encrypted_payload q' \<and>
       (\<forall>now2 h'. app_events (arrives L P C now2 y' (q'\<lparr>ttl := h'\<rparr>) a1) =
          app_events a @ [PromiseValue prom (Inr (self_id b, ping_response_bytes P (''hello from'' @ self_id b)))]))"
proof -
  let ?i = "uuid L (uuid_count a)" and ?resp = "ping_response_bytes P (''hello from'' @ self_id b)"
  obtain env q where s: "calls a1 = calls a @ [SendTcp x env]" "decodeRoutedPacket L (env_payload env) = Some q"
      "sealed_for C a b ?i ''mesh.PingRequest'' True (ping_request_bytes P (''hello from '' @ self_id a)) q"
      "tracker a1 = track_request_callback (to_hex ?i) (InternalCb ''mesh.PingResponse'' (PromiseCallback prom)) (tracker a)"
      "identity a1 = identity a" "self_id a1 = self_id a" "app_events a1 = app_events a" "ignore_all_incoming_messages a1 = ignore_all_incoming_messages a"
    using ping_sent [OF assms(1-4,6-8) size(1) assms(10,18)] by blast
  have tr: "trusts C a1 b" "self_id b \<noteq> self_id a" using assms(6,8) s(5) by (simp_all add: trusts_def reaches_def)
  obtain n where t: "map_of (pending_requests (tracker a1)) (to_hex ?i) = Some (InternalCb ''mesh.PingResponse'' (PromiseCallback prom), n)"
    unfolding s(4) by (simp add: track_request_callback_def case_prod_unfold update_conv')
  have "\<exists>env' q'. calls (arrives L P C now1 y (q\<lparr>ttl := h\<rparr>) b) = calls b @ [PacketForMe (q\<lparr>ttl := h\<rparr>), SendTcp x' env'] \<and>
       decodeRoutedPacket L (env_payload env') = Some q' \<and> has_encrypted_payload q' \<and>
       (\<forall>now2 h'. app_events (arrives L P C now2 y' (q'\<lparr>ttl := h'\<rparr>) a1) = app_events a @ [PromiseValue prom (Inr (self_id b, ?resp))])" for now1 h
  proof -
    obtain env' q' where b: "calls (arrives L P C now1 y (q\<lparr>ttl := h\<rparr>) b) = calls b @ [PacketForMe (q\<lparr>ttl := h\<rparr>), SendTcp x' env']"
        "decodeRoutedPacket L (env_payload env') = Some q'" "sealed_for C b a ?i ''mesh.PingResponse'' False ?resp q'"
      using ping_answered [OF assms(1-7,9,11,13) size(2) assms(14-16) s(3)] by blast
    have q': "sealed_for C b a1 ?i ''mesh.PingResponse'' False ?resp q'" using b(3) s(5,6) by (simp add: sealed_for_def)
    have "app_events (arrives L P C now2 y' (q'\<lparr>ttl := h'\<rparr>) a1) = app_events a @ [PromiseValue prom (Inr (self_id b, ?resp))]" for now2 h'
      using ping_returned [OF tr(1) _ _ _ t _ q'] s assms(5,12,17) tr(2) by (simp add: ping_law_def)
    then show ?thesis using b by (auto simp: sealed_for_def)
  qed
  then show ?thesis using s(1-3) by (auto simp: sealed_for_def)
qed

text \<open>Two neighbours that hold each other's keys.\<close>

definition ex_ping_node :: "peer_id \<Rightarrow> peer_id \<Rightarrow> string \<Rightarrow> string \<Rightarrow> mesh_node" where
  "ex_ping_node self other priv pub = ex_node\<lparr>self_id := self,
     forwarding_table := [(other, \<lparr>next_hop = other, cost = 1, dirty = False, last_updated = 0\<rparr>)],
     identity := new_identity\<lparr>my_private_key := priv, trusted_keys := [(other, pub)]\<rparr>,
     handlers := [(''mesh.PingRequest'', \<lparr>ResponseSubtype = Some ''mesh.PingResponse'', info_handler = PingHandler\<rparr>)]\<rparr>"

lemma ex_crypto_works: "cipher_works ex_crypto" "length pub = length priv \<Longrightarrow> pub \<noteq> [] \<Longrightarrow> working_pair ex_crypto pub priv"
  by (simp_all add: cipher_works_def working_pair_def ex_crypto_laws) (simp_all add: ex_crypto_def)

lemma ex_ping_nodes:
  "trusts ex_crypto (ex_ping_node ''a'' ''b'' ''k'' ''K2'') (ex_ping_node ''b'' ''a'' ''k2'' ''K'')"
  "trusts ex_crypto (ex_ping_node ''b'' ''a'' ''k2'' ''K'') (ex_ping_node ''a'' ''b'' ''k'' ''K2'')"
  "reaches (ex_ping_node ''a'' ''b'' ''k'' ''K2'') ''b'' ''b''" "reaches (ex_ping_node ''b'' ''a'' ''k2'' ''K'') ''a'' ''a''"
  "self_id (ex_ping_node s t k l) = s" "encrypt_messages (ex_ping_node s t k l)" "\<not> ignore_all_incoming_messages (ex_ping_node s t k l)"
  "map_of (handlers (ex_ping_node s t k l)) ''mesh.PingRequest'' = Some \<lparr>ResponseSubtype = Some ''mesh.PingResponse'', info_handler = PingHandler\<rparr>"
  "tracked (tracker (ex_ping_node s t k l)) = {}"
  using new_node_fields [OF ex_node_new]
  by (simp_all add: trusts_def ex_ping_node_def get_public_key_def ex_crypto_works reaches_def determine_next_hop_def tracked_def new_tracker_def)

theorem ping_gets_answer_witness:
  "\<exists>L env q env' q'. let a = ex_ping_node ''a'' ''b'' ''k'' ''K2''; b = ex_ping_node ''b'' ''a'' ''k2'' ''K'';
      a1 = ping_begin L ex_app ex_crypto 0 ''b'' 3 a; b1 = arrives L ex_app ex_crypto 1 ''a'' (q\<lparr>ttl := 9\<rparr>) b in
    calls a1 = calls a @ [SendTcp ''b'' env] \<and> calls b1 = calls b @ [PacketForMe (q\<lparr>ttl := 9\<rparr>), SendTcp ''a'' env'] \<and>
    app_events (arrives L ex_app ex_crypto 2 ''b'' (q'\<lparr>ttl := 14\<rparr>) a1) =
      app_events a @ [PromiseValue 3 (Inr (''b'', ping_response_bytes ex_app ''hello fromb''))]"
proof -
  let ?L = "ex_proto (\<lambda>n. [of_nat n])" and ?a = "ex_ping_node ''a'' ''b'' ''k'' ''K2''" and ?b = "ex_ping_node ''b'' ''a'' ''k2'' ''K''"
  have pl: "ping_law ex_app" by (simp add: ping_law_def ex_app_def)
  have y: "''a'' \<noteq> self_id ?b" "''b'' \<noteq> self_id ?a" "to_hex (uuid ?L (uuid_count ?a)) \<notin> tracked (tracker ?b)" by (simp_all add: ex_ping_nodes)
  have size: "evp_sized (ping_request_bytes ex_app (''hello from '' @ self_id ?a))" "evp_sized (ping_response_bytes ex_app (''hello from'' @ self_id ?b))"
    by (simp_all add: evp_sized_def ex_ping_nodes(5) ex_app_def)
  have r1: "reaches ?a (self_id ?b) ''b''" "reaches ?b (self_id ?a) ''a''" using ex_ping_nodes by simp_all
  from ping_gets_answer [OF ex_crypto_laws(1) ex_crypto_works(1) ex_crypto_laws(2) ex_proto_laws(3) pl ex_ping_nodes(1,2) r1
      ex_ping_nodes(6,6,7,7,8) y(3,1,2) refl size, of 0 3]
  obtain env q where a: "calls (ping_begin ?L ex_app ex_crypto 0 ''b'' 3 ?a) = calls ?a @ [SendTcp ''b'' env]"
    and b: "\<forall>now1 h. \<exists>env' q'. calls (arrives ?L ex_app ex_crypto now1 ''a'' (q\<lparr>ttl := h\<rparr>) ?b) = calls ?b @ [PacketForMe (q\<lparr>ttl := h\<rparr>), SendTcp ''a'' env'] \<and>
       decodeRoutedPacket ?L (env_payload env') = Some q' \<and> has_encrypted_payload q' \<and>
       (\<forall>now2 h'. app_events (arrives ?L ex_app ex_crypto now2 ''b'' (q'\<lparr>ttl := h'\<rparr>) (ping_begin ?L ex_app ex_crypto 0 ''b'' 3 ?a)) =
          app_events ?a @ [PromiseValue 3 (Inr (''b'', ping_response_bytes ex_app ''hello fromb''))])"
    unfolding ex_ping_nodes(5) append.simps by blast
  from b obtain env' q' where "calls (arrives ?L ex_app ex_crypto 1 ''a'' (q\<lparr>ttl := 9\<rparr>) ?b) = calls ?b @ [PacketForMe (q\<lparr>ttl := 9\<rparr>), SendTcp ''a'' env']"
      "app_events (arrives ?L ex_app ex_crypto 2 ''b'' (q'\<lparr>ttl := 14\<rparr>) (ping_begin ?L ex_app ex_crypto 0 ''b'' 3 ?a)) =
          app_events ?a @ [PromiseValue 3 (Inr (''b'', ping_response_bytes ex_app ''hello fromb''))]" by blast
  with a show ?thesis unfolding Let_def by blast
qed

section \<open>A message that waits for a key\<close>

text \<open>The first message to a peer whose key is not known: it is put off, and the identity request goes out.\<close>

lemma first_message:
  assumes laws: "packet_law L" and r: "reaches a p x" and e: "encrypt_messages a" "type \<noteq> identity_request_subtype" "\<not> has_key p (identity a)"
    and c: "map_of (id_request_cooldowns a) p = None" "map_of (pending_outgoing_packets (identity a)) p = None"
    and a1: "a1 = node_send_message L P C now p type payload TCP a"
  shows "\<exists>env q. calls a1 = calls a @ [SendTcp x env] \<and> decodeRoutedPacket L (env_payload env) = Some q \<and> subtype q = identity_request_subtype \<and>
      pkt_id q = uuid L (Suc (uuid_count a)) \<and> to_peer_id q = p"
    "tracker a1 = track_request_callback (to_hex (uuid L (Suc (uuid_count a)))) (InternalCb identity_response_subtype IdentityCallback) (tracker a)"
    "identity a1 = buffer_outgoing_packet p (MakeBinaryRoutedPacket (uuid L (uuid_count a)) (self_id a) p DEFAULT_TTL type TCP [] False) (identity a)"
    "self_id a1 = self_id a" "forwarding_table a1 = forwarding_table a" "has_transport a1 = has_transport a"
    "ignore_all_incoming_messages a1 = ignore_all_incoming_messages a" "encrypt_messages a1"
proof -
  let ?pkt = "MakeBinaryRoutedPacket (uuid L (uuid_count a)) (self_id a) p DEFAULT_TTL type TCP [] False"
  let ?raw = "identity_request_bytes P (my_cert (identity a))"
  let ?req = "MakeBinaryRoutedPacket (uuid L (Suc (uuid_count a))) (self_id a) p DEFAULT_TTL identity_request_subtype TCP ?raw True"
  let ?tr = "track_request_callback (to_hex (uuid L (Suc (uuid_count a)))) (InternalCb identity_response_subtype IdentityCallback) (tracker a)"
  let ?u = "a\<lparr>identity := buffer_outgoing_packet p ?pkt (identity a), id_request_cooldowns := AList.update p now (id_request_cooldowns a),
      uuid_count := Suc (Suc (uuid_count a)), tracker := ?tr\<rparr>"
  have s: "a1 = node_send_packet L now ?req ?u"
    using e c(1) unfolding a1
    by (simp add: node_send_message_def postpone_def should_send_identity_request_def send_identity_request_def send_plain_request_def
        draw_uuid_def Let_def buffer_outgoing_packet_def) (simp add: MakeBinaryRoutedPacket_def)
  have f: "to_peer_id ?req = p" "transport ?req = TCP" "ttl ?req = DEFAULT_TTL" "subtype ?req = identity_request_subtype"
    "pkt_id ?req = uuid L (Suc (uuid_count a))" by (simp_all add: MakeBinaryRoutedPacket_def)
  have "determine_next_hop p ?u = determine_next_hop p a" by (rule determine_other) (use r in \<open>simp_all add: reaches_def\<close>)
  then have "reaches ?u (to_peer_id ?req) x" using r f(1) by (simp add: reaches_def)
  from send_one [OF this f(2), of L now] have "calls a1 = calls a @ [SendTcp x (MakeGenericData (uuid L (Suc (Suc (uuid_count a)))) (packet_bytes L (?req\<lparr>ttl := DEFAULT_TTL - 1\<rparr>)))]"
    unfolding s f(3) by (simp add: DEFAULT_TTL_def)
  moreover have "decodeRoutedPacket L (packet_bytes L (?req\<lparr>ttl := DEFAULT_TTL - 1\<rparr>)) = Some (?req\<lparr>ttl := DEFAULT_TTL - 1\<rparr>)"
    using laws by (simp add: decodeRoutedPacket_def packet_law_def)
  ultimately show "\<exists>env q. calls a1 = calls a @ [SendTcp x env] \<and> decodeRoutedPacket L (env_payload env) = Some q \<and> subtype q = identity_request_subtype \<and>
      pkt_id q = uuid L (Suc (uuid_count a)) \<and> to_peer_id q = p"
    using f by (intro exI [of _ "MakeGenericData (uuid L (Suc (Suc (uuid_count a)))) (packet_bytes L (?req\<lparr>ttl := DEFAULT_TTL - 1\<rparr>))"]
        exI [of _ "?req\<lparr>ttl := DEFAULT_TTL - 1\<rparr>"] conjI) (simp_all add: MakeGenericData_def)
  show "tracker a1 = ?tr" "identity a1 = buffer_outgoing_packet p ?pkt (identity a)" "self_id a1 = self_id a" "forwarding_table a1 = forwarding_table a"
    "has_transport a1 = has_transport a" "ignore_all_incoming_messages a1 = ignore_all_incoming_messages a" "encrypt_messages a1"
    unfolding s using e(1) by simp_all
qed

text \<open>The answer to the identity request releases the packets that wait for the peer.\<close>

lemma identity_answer:
  assumes "\<not> ignore_all_incoming_messages a" "y \<noteq> self_id a" "from_peer_id q \<noteq> self_id a" "to_peer_id q = self_id a" "pkt_type q = BINARY"
    and "payload_variant q = BinaryData raw" "parses P identity_response_subtype raw"
    and t: "map_of (pending_requests (tracker a)) (to_hex (pkt_id q)) = Some (InternalCb identity_response_subtype IdentityCallback, n)"
    and "map_of (pending_incoming_packets (identity a)) (from_peer_id q) = None"
  shows "\<exists>v tk. arrives L P C now y q a = handle_pending_outgoing_packets L C now (from_peer_id q)
    (a\<lparr>neighbor_views := v, calls := calls a @ [PacketForMe q], tracker := tk,
      identity := add_trusted_peer (from_peer_id q) (extract_pubkey_from_cert C (identity_response_cert P raw)) (identity a)\<rparr>)"
proof -
  obtain v where v: "arrives L P C now y q a = snd (node_callback L P C now q (a\<lparr>neighbor_views := v, calls := calls a @ [PacketForMe q]\<rparr>))"
    using arrives_for_me [of y a q L P C now] assms(2-5) by auto
  let ?a = "a\<lparr>neighbor_views := v, calls := calls a @ [PacketForMe q]\<rparr>"
  obtain cs tk where f: "fulfill_request (to_hex (pkt_id q)) (from_peer_id q) raw (tracker a) = (True, cs, tk)"
      "cs = [RequestCallback (to_hex (pkt_id q)) (InternalCb identity_response_subtype IdentityCallback) (from_peer_id q) (Some raw)]"
    using t by (simp add: fulfill_request_def complete_request_def)
  have op: "open_packet L P C now q ?a = Inr q" using assms(6) by (simp add: open_packet_def has_encrypted_payload_def)
  have "dispatch_packet L P C now rec q ?a = Some (handle_pending_outgoing_packets L C now (from_peer_id q)
      (a\<lparr>neighbor_views := v, calls := calls a @ [PacketForMe q], tracker := tk,
        identity := add_trusted_peer (from_peer_id q) (extract_pubkey_from_cert C (identity_response_cert P raw)) (identity a)\<rparr>))" for rec
    using f assms(6,7,9) by (simp add: dispatch_packet_def binary_data_def run_app_callback_def learn_settled)
  from callback_opened [OF _ op this] assms(1) v show ?thesis by auto
qed

text \<open>
  C40.  A message that waits for a key arrives without its content.  The first message a node that encrypts sends to a
  peer whose key it does not have makes it send an identity request; when the peer's certificate comes back, the
  message goes out at once, encrypted for the peer and with its type.  But the packet that was put off was made before
  the content was put into it: whatever \<open>payload\<close> was, the peer decrypts the empty message.
\<close>

theorem postponed_message_arrives_empty:
  assumes laws: "cbc_inverse C" "cipher_works C" "rand_fills C" "packet_law L"
    and r: "reaches a (self_id b) x" and e: "encrypt_messages a" "type \<noteq> identity_request_subtype" "\<not> has_key (self_id b) (identity a)"
    and c: "map_of (id_request_cooldowns a) (self_id b) = None" "map_of (pending_outgoing_packets (identity a)) (self_id b) = None"
    "map_of (pending_incoming_packets (identity a)) (self_id b) = None"
    and i: "\<not> ignore_all_incoming_messages a" "y \<noteq> self_id a"
    and cert: "working_pair C (extract_pubkey_from_cert C cert) (my_private_key (identity b))" "trusts C b a"
    and p: "parses P identity_response_subtype (identity_response_bytes P cert)" "identity_response_cert P (identity_response_bytes P cert) = cert"
    and a1: "a1 = node_send_message L P C now (self_id b) type payload TCP a"
    and resp: "resp = (MakeBinaryRoutedPacket u (self_id b) (self_id a) h identity_response_subtype TCP (identity_response_bytes P cert) False)\<lparr>pkt_id := uuid L (Suc (uuid_count a))\<rparr>"
  shows "\<exists>env q env' q'. calls a1 = calls a @ [SendTcp x env] \<and> decodeRoutedPacket L (env_payload env) = Some q \<and>
      subtype q = identity_request_subtype \<and> pkt_id q = pkt_id resp \<and> to_peer_id q = self_id b \<and>
    calls (arrives L P C now' y resp a1) = calls a1 @ [PacketForMe resp, SendTcp x env'] \<and> decodeRoutedPacket L (env_payload env') = Some q' \<and>
      subtype q' = type \<and> to_peer_id q' = self_id b \<and> has_encrypted_payload q' \<and> (\<forall>h. decrypt_packet C (identity b) (q'\<lparr>ttl := h\<rparr>) = Inr [])"
proof -
  note m = first_message [OF laws(4) r e c(1,2) a1]
  let ?pkt = "MakeBinaryRoutedPacket (uuid L (uuid_count a)) (self_id a) (self_id b) DEFAULT_TTL type TCP [] False"
  let ?raw = "identity_response_bytes P cert"
  have rf: "from_peer_id resp = self_id b" "to_peer_id resp = self_id a" "pkt_type resp = BINARY" "payload_variant resp = BinaryData ?raw"
    "pkt_id resp = uuid L (Suc (uuid_count a))" by (simp_all add: resp MakeBinaryRoutedPacket_def)
  have ab: "self_id b \<noteq> self_id a" using r by (simp add: reaches_def)
  obtain n where t: "map_of (pending_requests (tracker a1)) (to_hex (pkt_id resp)) = Some (InternalCb identity_response_subtype IdentityCallback, n)"
    unfolding m(2) rf(5) by (simp add: track_request_callback_def case_prod_unfold update_conv')
  have "map_of (pending_incoming_packets (identity a1)) (from_peer_id resp) = None" using c(3) rf(1) unfolding m(3) by (simp add: buffer_outgoing_packet_def)
  then obtain v tk where arr: "arrives L P C now' y resp a1 = handle_pending_outgoing_packets L C now' (self_id b)
      (a1\<lparr>neighbor_views := v, calls := calls a1 @ [PacketForMe resp], tracker := tk,
        identity := add_trusted_peer (self_id b) (extract_pubkey_from_cert C cert) (identity a1)\<rparr>)"
    using identity_answer [where a = a1 and q = resp and y = y, OF _ _ _ _ rf(3,4) p(1) t, of L C now'] m(4,7) i rf(1,2) ab p(2) by auto
  let ?im = "add_trusted_peer (self_id b) (extract_pubkey_from_cert C cert) (identity a)"
  let ?u = "a1\<lparr>neighbor_views := v, calls := calls a1 @ [PacketForMe resp], tracker := tk,
      identity := ?im\<lparr>pending_outgoing_packets := AList.delete (self_id b) (pending_outgoing_packets (identity a1))\<rparr>\<rparr>"
  have out: "arrives L P C now' y resp a1 = send_pending L C now' ?u ?pkt"
    using c(2) unfolding arr handle_pending_outgoing_packets_def m(3)
    by (simp add: pop_outgoing_pending_packets_def add_trusted_peer_def buffer_outgoing_packet_def push_at_def update_conv')
  have tr: "trusts C ?u b" "trusts C b ?u" using cert m(4) by (simp_all add: trusts_def get_public_key_def add_trusted_peer_def update_conv')
  have "determine_next_hop (self_id b) ?u = determine_next_hop (self_id b) a" by (rule determine_other) (use r m(5) in \<open>simp_all add: reaches_def\<close>)
  then have ru: "reaches ?u (self_id b) x" using r m(4,6) by (simp add: reaches_def)
  have pid: "?pkt = (MakeBinaryRoutedPacket (uuid L (uuid_count a)) (self_id ?u) (self_id b) DEFAULT_TTL type TCP [] False)\<lparr>pkt_id := uuid L (uuid_count a)\<rparr>"
    using m(4) by (simp add: MakeBinaryRoutedPacket_def)
  obtain ok q' u' where sec: "node_secure C ?pkt (self_id b) [] ?u = (ok, q', u')" by (metis prod_cases3)
  have s: "ok \<and> u' = ?u\<lparr>rand_count := rand_count ?u + 3\<rparr> \<and> sealed_for C ?u b (uuid L (uuid_count a)) type False [] q' \<and>
      (\<forall>tr. \<exists>env. calls (node_send_packet L now' q' (u'\<lparr>tracker := tr\<rparr>)) = calls ?u @ [SendTcp x env] \<and> decodeRoutedPacket L (env_payload env) = Some (q'\<lparr>ttl := DEFAULT_TTL - 1\<rparr>))"
    by (rule secured_send [OF laws tr ru _ _ _ _ pid _ _ sec]) (simp_all add: DEFAULT_TTL_def evp_sized_def)
  have "u'\<lparr>tracker := tk\<rparr> = u'" using s by simp
  then obtain env' where env': "calls (node_send_packet L now' q' u') = calls ?u @ [SendTcp x env']" "decodeRoutedPacket L (env_payload env') = Some (q'\<lparr>ttl := DEFAULT_TTL - 1\<rparr>)"
    using s by metis
  have "to_peer_id ?pkt = self_id b" "binary_data ?pkt = []" by (simp_all add: MakeBinaryRoutedPacket_def binary_data_def)
  then have "arrives L P C now' y resp a1 = node_send_packet L now' q' u'" using out sec s by (simp add: send_pending_def)
  moreover have "sealed_for C ?u b (uuid L (uuid_count a)) type False [] (q'\<lparr>ttl := DEFAULT_TTL - 1\<rparr>)" using s by simp
  ultimately show ?thesis using m(1) env' rf(5) by (auto simp: sealed_for_def)
qed

definition ex_stranger :: mesh_node where
  "ex_stranger = (ex_ping_node ''a'' ''b'' ''k'' ''K2'')\<lparr>identity := new_identity\<lparr>my_private_key := ''k''\<rparr>\<rparr>"

lemma ex_stranger_fields:
  "self_id ex_stranger = ''a''" "encrypt_messages ex_stranger" "\<not> ignore_all_incoming_messages ex_stranger" "id_request_cooldowns ex_stranger = []"
  "identity ex_stranger = new_identity\<lparr>my_private_key := ''k''\<rparr>" "reaches ex_stranger ''b'' ''b''"
  using new_node_fields [OF ex_node_new]
  by (simp_all add: ex_stranger_def ex_ping_node_def reaches_def determine_next_hop_def)

theorem postponed_message_arrives_empty_witness:
  "\<exists>L resp env env' q'. let a1 = node_send_message L ex_app ex_crypto 0 ''b'' ''text'' [104, 105] TCP ex_stranger in
    calls a1 = calls ex_stranger @ [SendTcp ''b'' env] \<and>
    calls (arrives L ex_app ex_crypto 5 ''b'' resp a1) = calls a1 @ [PacketForMe resp, SendTcp ''b'' env'] \<and>
    decodeRoutedPacket L (env_payload env') = Some q' \<and> decrypt_packet ex_crypto (identity (ex_ping_node ''b'' ''a'' ''k2'' ''K'')) (q'\<lparr>ttl := 3\<rparr>) = Inr []"
proof -
  let ?L = "ex_proto (\<lambda>n. [of_nat n])" and ?b = "ex_ping_node ''b'' ''a'' ''k2'' ''K''"
  let ?resp = "(MakeBinaryRoutedPacket [] (self_id ?b) (self_id ex_stranger) 5 identity_response_subtype TCP (identity_response_bytes ex_app ''ce'') False)
    \<lparr>pkt_id := uuid ?L (Suc (uuid_count ex_stranger))\<rparr>"
  have ids: "self_id ?b = ''b''" "my_private_key (identity ?b) = ''k2''" by (simp_all add: ex_ping_node_def)
  have r: "reaches ex_stranger (self_id ?b) ''b''" "''text'' \<noteq> identity_request_subtype" "''b'' \<noteq> self_id ex_stranger"
    by (simp_all add: ids ex_stranger_fields identity_request_subtype_def)
  have k: "\<not> has_key (self_id ?b) (identity ex_stranger)" "map_of (id_request_cooldowns ex_stranger) (self_id ?b) = None"
    "map_of (pending_outgoing_packets (identity ex_stranger)) (self_id ?b) = None" "map_of (pending_incoming_packets (identity ex_stranger)) (self_id ?b) = None"
    by (simp_all add: ex_stranger_fields has_key_def new_identity_def)
  have c: "working_pair ex_crypto (extract_pubkey_from_cert ex_crypto ''ce'') (my_private_key (identity ?b))"
    unfolding ids by (rule ex_crypto_works) (simp_all add: extract_pubkey_from_cert_def ex_crypto_def)
  have t: "trusts ex_crypto ?b ex_stranger"
    by (simp add: trusts_def ex_stranger_fields ex_crypto_works) (simp add: ex_ping_node_def get_public_key_def ex_crypto_works)
  have p: "parses ex_app identity_response_subtype (identity_response_bytes ex_app ''ce'')" "identity_response_cert ex_app (identity_response_bytes ex_app ''ce'') = ''ce''"
    by (simp add: ex_app_def) code_simp
  from postponed_message_arrives_empty [OF ex_crypto_laws(1) ex_crypto_works(1) ex_crypto_laws(2) ex_proto_laws(3) r(1) ex_stranger_fields(2) r(2) k
      ex_stranger_fields(3) r(3) c t p refl refl, of "\<lambda>n. [of_nat n]" 0 "[104, 105]" "[]" 5 5]
  show ?thesis unfolding Let_def ids(1) by blast
qed

end
