(* ===== verification/Router_Network.thy ===== *)
theory Router_Network
  imports Router_Theorems Example_Lib
begin

text \<open>
  Several routers together.  A network gives the router of each peer; \<open>in_step\<close> says that the routers know what their neighbours
  would tell them now.  A packet travels by what each router sends when it handles the packet, and the costs in the tables
  bring it to its destination.
\<close>

section \<open>Networks in step\<close>

definition in_step :: "(peer_id \<Rightarrow> 'z router_scheme option) \<Rightarrow> bool" where
  "in_step net \<longleftrightarrow> (\<forall>i s. net i = Some s \<longrightarrow> self_id s = i \<and> i \<noteq> [] \<and> has_transport s \<and> router_inv s \<and> i \<notin> neighbors s \<and>
     (\<forall>nb view. (nb, view) \<in> set (neighbor_views s) \<longrightarrow>
        (\<exists>t. net nb = Some t \<and> (\<forall>d c. (d, c) \<in> set (advertised_routes view) \<longrightarrow> (\<exists>h. live t d = Some (h, c))))))"

lemma in_stepD:
  assumes "in_step net" "net i = Some s"
  shows "self_id s = i" "i \<noteq> []" "has_transport s" "router_inv s" "i \<notin> neighbors s"
    "(nb, view) \<in> set (neighbor_views s) \<Longrightarrow> \<exists>t. net nb = Some t \<and> (\<forall>d c. (d, c) \<in> set (advertised_routes view) \<longrightarrow> (\<exists>h. live t d = Some (h, c)))"
  using assms unfolding in_step_def by blast+

text \<open>The next hop of a route is one closer to the destination.\<close>

lemma next_hop_closer:
  assumes "in_step net" "net i = Some s" "i \<noteq> d" "live s d = Some (nh, c)"
  shows "\<exists>t h. net nh = Some t \<and> live t d = Some (h, c - 1) \<and> 1 \<le> unat c \<and> unat (c - 1) = unat c - 1"
proof -
  note S = in_stepD [OF assms(1,2)]
  have best: "best_route s d (Some (nh, c))" using S(4) assms(4) by (metis router_inv_def)
  show ?thesis
  proof (cases "d \<in> neighbors s")
    case True
    then obtain view where "(d, view) \<in> set (neighbor_views s)" by (auto simp: neighbors_def)
    then obtain t where t: "net d = Some t" using S(6) by blast
    note T = in_stepD [OF assms(1) t]
    have "best_route t d (live t d)" using T(4) by (simp add: router_inv_def)
    then have "live t d = Some (d, 0)" using T(1,5) by (simp add: best_route_def)
    then show ?thesis using best True t by (simp add: best_route_def)
  next
    case False
    then have "(nh, c) \<in> offered s d" using best S(1) assms(3) by (simp add: best_route_def)
    then obtain view c' where v: "(nh, view) \<in> set (neighbor_views s)" "(d, c') \<in> set (advertised_routes view)" "c = c' + 1"
      by (auto simp: offered_def)
    obtain t h where t: "net nh = Some t" "live t d = Some (h, c')" using S(6) [OF v(1)] v(2) by blast
    have "costs_ok (advertised_routes view)" using S(4) v(1) by (auto simp: router_inv_def views_ok_def)
    then have "c' < INF_COST" using v(2) by (auto simp: costs_ok_def)
    then have "unat c' < 16" by (simp add: INF_COST_def word_less_nat_alt)
    then have "unat c = Suc (unat c')" using v(3) by (simp add: unat_word_ariths(1))
    then show ?thesis using t v(3) by (simp add: numeral_1_eq_Suc_0)
  qed
qed

section \<open>Travelling packets\<close>

text \<open>What a router calls while it handles a packet, and what a transmission brings to the other side.\<close>

definition calls_of :: "mesh_lib \<Rightarrow> 'z packet_cb \<Rightarrow> time_ms \<Rightarrow> peer_id \<Rightarrow> routed_packet \<Rightarrow> 'z router_scheme \<Rightarrow> transport_call list" where
  "calls_of L f now src pkt s = drop (length (calls s)) (calls (handle_packet L (Some f) now src pkt s))"

fun transmission :: "mesh_lib \<Rightarrow> transport_call \<Rightarrow> (peer_id \<times> routed_packet) option" where
  "transmission L (SendTcp p env) = map_option (Pair p) (decodeRoutedPacket L (env_payload env))"
| "transmission L (SendUdp p pkt) = Some (p, pkt)"
| "transmission L (PacketForMe pkt) = None"

text \<open>The packet arrives at \<open>i\<close> from its neighbour \<open>src\<close>; at most \<open>n\<close> further hops are followed.\<close>

primrec travel :: "mesh_lib \<Rightarrow> (peer_id \<Rightarrow> 'z packet_cb) \<Rightarrow> (peer_id \<Rightarrow> time_ms) \<Rightarrow> (peer_id \<Rightarrow> 'z router_scheme option) \<Rightarrow> nat
    \<Rightarrow> peer_id \<Rightarrow> peer_id \<Rightarrow> routed_packet \<Rightarrow> (peer_id \<times> routed_packet) option" where
  "travel L f clock net 0 src i pkt =
     (case net i of None \<Rightarrow> None | Some s \<Rightarrow>
        (case calls_of L (f i) (clock i) src pkt s of PacketForMe q # _ \<Rightarrow> Some (i, q) | _ \<Rightarrow> None))"
| "travel L f clock net (Suc n) src i pkt =
     (case net i of None \<Rightarrow> None | Some s \<Rightarrow>
        (case calls_of L (f i) (clock i) src pkt s of
           PacketForMe q # _ \<Rightarrow> Some (i, q)
         | [c] \<Rightarrow> (case transmission L c of None \<Rightarrow> None | Some (p, q) \<Rightarrow> travel L f clock net n i p q)
         | _ \<Rightarrow> None))"

text \<open>A callback only adds calls.\<close>

definition only_adds :: "'z packet_cb \<Rightarrow> bool" where
  "only_adds f \<longleftrightarrow> (\<forall>pkt s. \<exists>cs. calls (snd (f pkt s)) = calls s @ cs)"

lemma calls_at_destination:
  assumes "only_adds f" "src \<noteq> self_id s" "from_peer_id pkt \<noteq> self_id s" "to_peer_id pkt = self_id s" "pkt_type pkt \<noteq> ROUTING_UPDATE"
  shows "\<exists>cs. calls_of L f now src pkt s = PacketForMe pkt # cs"
proof -
  obtain v where v: "handle_packet L (Some f) now src pkt s = snd (f pkt (call (PacketForMe pkt) (s\<lparr>neighbor_views := v\<rparr>)))"
  proof (cases "map_of (neighbor_views s) src")
    case None
    then have "handle_packet L (Some f) now src pkt s = snd (f pkt (call (PacketForMe pkt) (s\<lparr>neighbor_views := neighbor_views s\<rparr>)))"
      using assms(2-5) by (simp add: handle_packet_def route_data_packet_def deliver_local_def Let_def case_prod_unfold)
    then show thesis by (rule that)
  next
    case (Some w)
    then have "handle_packet L (Some f) now src pkt s = snd (f pkt (call (PacketForMe pkt) (s\<lparr>neighbor_views := AList.update src (w\<lparr>last_heard_from := now\<rparr>) (neighbor_views s)\<rparr>)))"
      using assms(2-5) by (simp add: handle_packet_def route_data_packet_def deliver_local_def Let_def case_prod_unfold)
    then show thesis by (rule that)
  qed
  obtain cs where "calls (snd (f pkt (call (PacketForMe pkt) (s\<lparr>neighbor_views := v\<rparr>)))) = calls (call (PacketForMe pkt) (s\<lparr>neighbor_views := v\<rparr>)) @ cs"
    using assms(1) unfolding only_adds_def by blast
  then show ?thesis unfolding calls_of_def v by (simp add: call_def)
qed

lemma one_transmission:
  assumes "packet_law L" "transport q = TCP \<or> transport q = UDP"
  shows "\<exists>c. fwd_calls L n q [p] = [c] \<and> transmission L c = Some (p, q) \<and> (\<forall>r. c \<noteq> PacketForMe r)"
  using assms by (auto simp: MakeGenericData_def decodeRoutedPacket_def packet_law_def)

text \<open>The calls of a router that sends a packet on, as its sender or in between.\<close>

lemma calls_forwarding:
  assumes "packet_law L" "transport pkt = TCP \<or> transport pkt = UDP" "dest \<noteq> []" "has_transport s" "live s dest = Some (nh, c)"
    and "nh \<noteq> src" "nh \<noteq> self_id s" "ttl pkt \<noteq> 1" "src = self_id s \<or> \<not> dedup_contains (seen_packet_ids s) (pid, expect_response pkt)"
  shows "\<exists>x. calls (dedup_and_forward L now src dest pid pkt s) = calls s @ [x] \<and> transmission L x = Some (nh, pkt\<lparr>ttl := ttl pkt - 1\<rparr>) \<and> (\<forall>r. x \<noteq> PacketForMe r)"
proof -
  have "determine_next_hop dest s = [nh]" using determine_live [OF assms(3), of s] assms(5) by simp
  then have "calls (dedup_and_forward L now src dest pid pkt s) = calls s @ fwd_calls L (uuid_count s) (pkt\<lparr>ttl := ttl pkt - 1\<rparr>) [nh]"
    using assms(4,6-9) by (auto simp: dedup_and_forward_calls emitted_def)
  moreover obtain x where "fwd_calls L (uuid_count s) (pkt\<lparr>ttl := ttl pkt - 1\<rparr>) [nh] = [x]" "transmission L x = Some (nh, pkt\<lparr>ttl := ttl pkt - 1\<rparr>)" "\<forall>r. x \<noteq> PacketForMe r"
    using one_transmission [OF assms(1), of "pkt\<lparr>ttl := ttl pkt - 1\<rparr>" "uuid_count s" nh] assms(2) by auto
  ultimately show ?thesis by auto
qed

lemma calls_in_transit:
  assumes "packet_law L" "transport pkt = TCP \<or> transport pkt = UDP" "to_peer_id pkt \<noteq> []" "has_transport s" "live s (to_peer_id pkt) = Some (nh, c)"
    and "nh \<noteq> src" "nh \<noteq> self_id s" "ttl pkt \<noteq> 1" "\<not> dedup_contains (seen_packet_ids s) (to_hex (pkt_id pkt), expect_response pkt)"
    and "src \<noteq> self_id s" "from_peer_id pkt \<noteq> self_id s" "to_peer_id pkt \<noteq> self_id s" "pkt_type pkt \<noteq> ROUTING_UPDATE"
  shows "\<exists>x. calls_of L f now src pkt s = [x] \<and> transmission L x = Some (nh, pkt\<lparr>ttl := ttl pkt - 1\<rparr>) \<and> (\<forall>r. x \<noteq> PacketForMe r)"
proof -
  obtain v where v: "handle_packet L (Some f) now src pkt s = dedup_and_forward L now src (to_peer_id pkt) (to_hex (pkt_id pkt)) pkt (s\<lparr>neighbor_views := v\<rparr>)"
  proof (cases "map_of (neighbor_views s) src")
    case None
    then have "handle_packet L (Some f) now src pkt s = dedup_and_forward L now src (to_peer_id pkt) (to_hex (pkt_id pkt)) pkt (s\<lparr>neighbor_views := neighbor_views s\<rparr>)"
      using assms(3,10-13) by (simp add: handle_packet_def route_transit)
    then show thesis by (rule that)
  next
    case (Some w)
    then have "handle_packet L (Some f) now src pkt s =
        dedup_and_forward L now src (to_peer_id pkt) (to_hex (pkt_id pkt)) pkt (s\<lparr>neighbor_views := AList.update src (w\<lparr>last_heard_from := now\<rparr>) (neighbor_views s)\<rparr>)"
      using assms(3,10-13) by (simp add: handle_packet_def route_transit Let_def)
    then show thesis by (rule that)
  qed
  have "live (s\<lparr>neighbor_views := v\<rparr>) (to_peer_id pkt) = Some (nh, c)" using assms(5) by (simp add: live_def)
  from calls_forwarding [OF assms(1-3) _ this assms(6) _ assms(8), of "to_hex (pkt_id pkt)" now]
  show ?thesis using assms(4,7,9) unfolding calls_of_def v by auto
qed

section \<open>Delivery\<close>

text \<open>The peer \<open>x\<close> is farther from \<open>d\<close> than \<open>n\<close> hops.\<close>

definition farther :: "(peer_id \<Rightarrow> 'z router_scheme option) \<Rightarrow> peer_id \<Rightarrow> nat \<Rightarrow> peer_id \<Rightarrow> bool" where
  "farther net d n x \<longleftrightarrow> (\<exists>r h c. net x = Some r \<and> live r d = Some (h, c) \<and> n < unat c)"

lemma farther_neq: "farther net d (unat c) x \<Longrightarrow> net i = Some s \<Longrightarrow> live s d = Some (nh, c) \<Longrightarrow> x \<noteq> i"
  by (auto simp: farther_def)

lemma farther_less: "farther net d n x \<Longrightarrow> m \<le> n \<Longrightarrow> farther net d m x"
  by (auto simp: farther_def)

lemma travel_delivers:
  assumes net: "in_step net" "packet_law L" "\<And>i. only_adds (f i)"
    and "net i = Some s" "live s (to_peer_id pkt) = Some (nh, c)" "unat c = n" "n \<le> m" "n < unat (ttl pkt)"
    and "transport pkt = TCP \<or> transport pkt = UDP" "pkt_type pkt \<noteq> ROUTING_UPDATE"
    and fresh: "\<And>i s. net i = Some s \<Longrightarrow> \<not> dedup_contains (seen_packet_ids s) (to_hex (pkt_id pkt), expect_response pkt)"
    and "farther net (to_peer_id pkt) n src" "farther net (to_peer_id pkt) n (from_peer_id pkt)" "to_peer_id pkt \<noteq> []"
  shows "travel L f clock net m src i pkt = Some (to_peer_id pkt, pkt\<lparr>ttl := ttl pkt - c\<rparr>)"
  using assms(4-10,12-14) fresh
proof (induction n arbitrary: m src i s nh c pkt)
  case 0
  then have c: "c = 0" by (simp add: unat_eq_0)
  have i: "i = to_peer_id pkt" using next_hop_closer [OF net(1) 0(1) _ 0(2)] c by auto
  have s: "self_id s = i" using in_stepD(1) [OF net(1) 0(1)] .
  have "src \<noteq> i" "from_peer_id pkt \<noteq> i" using farther_neq [of net _ c _ i s nh] 0 by auto
  then obtain cs where "calls_of L (f i) (clock i) src pkt s = PacketForMe pkt # cs"
    using calls_at_destination [OF net(3)] s i 0(7) by metis
  then show ?case using 0(1) c i by (cases m) simp_all
next
  case (Suc n)
  note S = in_stepD [OF net(1) Suc.prems(1)]
  let ?q = "pkt\<lparr>ttl := ttl pkt - 1\<rparr>"
  have i: "i \<noteq> to_peer_id pkt"
  proof
    assume "i = to_peer_id pkt"
    then have "best_route s i (Some (nh, c))" using S(4) Suc.prems(2) by (metis router_inv_def)
    then show False using S(1,5) Suc.prems(3) by (simp add: best_route_def)
  qed
  obtain t h where t: "net nh = Some t" "live t (to_peer_id pkt) = Some (h, c - 1)" "unat (c - 1) = n"
    using next_hop_closer [OF net(1) Suc.prems(1) i Suc.prems(2)] Suc.prems(3) by auto
  have far: "farther net (to_peer_id pkt) n i" using Suc.prems(1-3) by (auto simp: farther_def)
  have neq: "src \<noteq> i" "from_peer_id pkt \<noteq> i" "src \<noteq> nh" "i \<noteq> nh"
    using farther_neq [of net "to_peer_id pkt" c _ i s nh] farther_neq [of net "to_peer_id pkt" "c - 1" _ nh t h] Suc.prems t far
      farther_less [of net "to_peer_id pkt" "Suc n" src n] by auto
  have z: "ttl pkt \<noteq> 0" using Suc.prems(5) by auto
  have ttl1: "ttl pkt \<noteq> 1" "unat (ttl pkt - 1) = unat (ttl pkt) - 1" using Suc.prems(5) unat_minus_one [OF z] by auto
  obtain x where x: "calls_of L (f i) (clock i) src pkt s = [x]" "transmission L x = Some (nh, ?q)" "\<forall>r. x \<noteq> PacketForMe r"
    using calls_in_transit [OF net(2) Suc.prems(6,10) S(3) Suc.prems(2) neq(3) [symmetric] _ ttl1(1) Suc.prems(11) [OF Suc.prems(1)]] neq(1,2,4) i S(1) Suc.prems(7) by metis
  obtain m' where m: "m = Suc m'" using Suc.prems(4) by (cases m) auto
  have "travel L f clock net m src i pkt = travel L f clock net m' i nh ?q"
    using x Suc.prems(1) unfolding m by (auto split: transport_call.split)
  also have "\<dots> = Some (to_peer_id ?q, ?q\<lparr>ttl := ttl ?q - (c - 1)\<rparr>)"
    by (rule Suc.IH [OF t(1)]) (use t m far Suc.prems ttl1 in \<open>auto intro: farther_less\<close>)
  finally show ?case by simp
qed

text \<open>
  C3.  Packets arrive.  In a network whose routers know what their neighbours would tell them now, a packet that a node sends to a peer for which its
  router has a route of cost \<open>c\<close> is handed to the callback of that peer, unchanged except for its hop count, after exactly \<open>c\<close> hops, if its hop count is
  larger than \<open>c\<close> and no router has seen its id before: the sender transmits it once, every router on the way passes it on to one neighbour, and none of
  them drops it or sends it back.
\<close>

theorem packet_reaches_destination:
  assumes net: "in_step net" "packet_law L" "\<And>i. only_adds (f i)" and s: "net i = Some s" "live s (to_peer_id pkt) = Some (nh, c)"
    and pkt: "from_peer_id pkt = i" "to_peer_id pkt \<noteq> i" "to_peer_id pkt \<noteq> []" "transport pkt = TCP \<or> transport pkt = UDP" "pkt_type pkt \<noteq> ROUTING_UPDATE" "unat c < unat (ttl pkt)"
    and fresh: "\<And>i s. net i = Some s \<Longrightarrow> \<not> dedup_contains (seen_packet_ids s) (to_hex (pkt_id pkt), expect_response pkt)"
  shows "\<exists>x q. calls (send_packet L (Some (f i)) now pkt s) = calls s @ [x] \<and> transmission L x = Some (nh, q) \<and>
    (\<forall>m \<ge> unat c - 1. travel L f clock net m i nh q = Some (to_peer_id pkt, pkt\<lparr>ttl := ttl pkt - c\<rparr>))"
proof -
  note S = in_stepD [OF net(1) s(1)]
  let ?q = "pkt\<lparr>ttl := ttl pkt - 1\<rparr>"
  obtain t h where t: "net nh = Some t" "live t (to_peer_id pkt) = Some (h, c - 1)" "1 \<le> unat c" "unat (c - 1) = unat c - 1"
    using next_hop_closer [OF net(1) s(1) pkt(2) [symmetric] s(2)] by auto
  have far: "farther net (to_peer_id pkt) (unat (c - 1)) i" using s t(3,4) by (auto simp: farther_def)
  have nh: "nh \<noteq> i" using farther_neq [OF far t(1,2)] by simp
  have z: "ttl pkt \<noteq> 0" "ttl pkt \<noteq> 1" using pkt(6) t(3) by auto
  have "unat (ttl pkt - 1) = unat (ttl pkt) - 1" using z(1) by (rule unat_minus_one)
  then have q: "unat (c - 1) < unat (ttl ?q)" using pkt(6) t(3,4) by simp
  have "send_packet L (Some (f i)) now pkt s = dedup_and_forward L now i (to_peer_id pkt) (to_hex (pkt_id pkt)) pkt s"
    using pkt(2,3) S(1) by (simp add: send_packet_def route_transit)
  with calls_forwarding [OF net(2) pkt(4,3) S(3) s(2) nh _ z(2), of "to_hex (pkt_id pkt)" now] nh S(1)
  obtain x where x: "calls (send_packet L (Some (f i)) now pkt s) = calls s @ [x]" "transmission L x = Some (nh, ?q)" by auto
  have "travel L f clock net m i nh ?q = Some (to_peer_id ?q, ?q\<lparr>ttl := ttl ?q - (c - 1)\<rparr>)" if "unat c - 1 \<le> m" for m
    by (rule travel_delivers [OF net t(1)]) (use t q that far fresh pkt in auto)
  then show ?thesis using x by (intro exI [of _ x] exI [of _ ?q]) simp
qed

text \<open>Three routers in a line, for the witness.\<close>

definition ex_line_router :: "peer_id \<Rightarrow> (peer_id \<times> (peer_id \<times> u32) list) list \<Rightarrow> router" where
  "ex_line_router i views = recalculate_forwarding_table_locked 0 ((MeshRouter 0 i True)\<lparr>
     neighbor_views := map (\<lambda>(nb, r). (nb, \<lparr>advertised_routes = r, last_heard_from = 0\<rparr>)) views\<rparr>)"

definition ex_line :: "peer_id \<Rightarrow> router option" where
  "ex_line = map_of [(''a'', ex_line_router ''a'' [(''b'', [(''c'', 1)])]), (''b'', ex_line_router ''b'' [(''a'', []), (''c'', [])]),
     (''c'', ex_line_router ''c'' [(''b'', [(''a'', 1)])])]"

lemma ex_line_router_inv:
  assumes "distinct (map fst views)" "\<forall>x\<in>set views. costs_ok (snd x)"
  shows "router_inv (ex_line_router i views)" "self_id (ex_line_router i views) = i" "has_transport (ex_line_router i views)"
    "neighbor_views (ex_line_router i views) = map (\<lambda>(nb, r). (nb, \<lparr>advertised_routes = r, last_heard_from = 0\<rparr>)) views"
    "\<not> dedup_contains (seen_packet_ids (ex_line_router i views)) k"
proof -
  show "router_inv (ex_line_router i views)" unfolding ex_line_router_def
    by (rule recalculate_inv) (use assms in \<open>auto simp: views_ok_def table_ok_def MeshRouter_def comp_def case_prod_unfold INF_COST_def\<close>)
qed (simp_all add: ex_line_router_def MeshRouter_def new_dedup_def dedup_contains_def)

lemma ex_line_live:
  "live (ex_line_router ''a'' [(''b'', [(''c'', 1)])]) ''c'' = Some (''b'', 2)" "live (ex_line_router ''b'' [(''a'', []), (''c'', [])]) ''c'' = Some (''c'', 1)"
  "live (ex_line_router ''b'' [(''a'', []), (''c'', [])]) ''a'' = Some (''a'', 1)"
  by code_simp+

lemma ex_line_in_step: "in_step ex_line"
  unfolding in_step_def ex_line_def
  by (auto simp: ex_line_router_inv ex_line_live costs_ok_def INF_COST_def neighbors_def split: if_splits)

theorem packet_reaches_destination_witness:
  "let pkt = default_packet\<lparr>pkt_id := [9], from_peer_id := ''a'', to_peer_id := ''c'', ttl := 5, pkt_type := BINARY, transport := TCP\<rparr>;
       s = ex_line_router ''a'' [(''b'', [(''c'', 1)])]; L = ex_proto (\<lambda>n. [of_nat n]) in
   \<exists>x q. calls (send_packet L (Some Pair) 0 pkt s) = [x] \<and> transmission L x = Some (''b'', q) \<and>
     travel L (\<lambda>_. Pair) (\<lambda>_. 0) ex_line 1 ''a'' ''b'' q = Some (''c'', pkt\<lparr>ttl := 3\<rparr>)"
proof -
  let ?L = "ex_proto (\<lambda>n. [of_nat n])" and ?pkt = "default_packet\<lparr>pkt_id := [9], from_peer_id := ''a'', to_peer_id := ''c'', ttl := 5, pkt_type := BINARY, transport := TCP\<rparr>"
  let ?s = "ex_line_router ''a'' [(''b'', [(''c'', 1)])]"
  have add: "only_adds (Pair :: unit packet_cb)" by (simp add: only_adds_def)
  have s: "ex_line ''a'' = Some ?s" "live ?s (to_peer_id ?pkt) = Some (''b'', 2)" by (simp_all add: ex_line_def ex_line_live)
  have fresh: "\<not> dedup_contains (seen_packet_ids t) (to_hex (pkt_id ?pkt), expect_response ?pkt)" if "ex_line i = Some t" for i t
    using that by (auto simp: ex_line_def ex_line_router_inv costs_ok_def INF_COST_def split: if_splits)
  have c: "calls ?s = []" by code_simp
  have "\<exists>x q. calls (send_packet ?L (Some ((\<lambda>_. Pair) ''a'')) 0 ?pkt ?s) = calls ?s @ [x] \<and> transmission ?L x = Some (''b'', q) \<and>
      (\<forall>m\<ge>unat (2 :: u32) - 1. travel ?L (\<lambda>_. Pair) (\<lambda>_. 0) ex_line m ''a'' ''b'' q = Some (to_peer_id ?pkt, ?pkt\<lparr>ttl := ttl ?pkt - 2\<rparr>))"
    by (rule packet_reaches_destination [OF ex_line_in_step ex_proto_laws(3) _ s]) (use add fresh in auto)
  then show ?thesis using c by (auto simp: Let_def)
qed

end
