(* ===== verification/Topology_Graph.thy ===== *)
theory Topology_Graph
  imports Mesh_Node_Theorems
begin

text \<open>
  The topology command: \<^verbatim>\<open>graph/GraphManager.cpp\<close> and \<^verbatim>\<open>MeshNode::generate_topology_graph\<close>.  The Boost graph
  is a parameter; so are the answers of the file system.  The operations of \<^verbatim>\<open>std::filesystem::path\<close>
  the code uses are modelled for POSIX paths.
\<close>

section \<open>Paths\<close>

definition path_filename :: "string \<Rightarrow> string" where
  "path_filename p = rev (takeWhile (\<lambda>c. c \<noteq> CHR ''/'') (rev p))"

definition parent_path :: "string \<Rightarrow> string" where
  "parent_path p =
     (let d = take (length p - length (path_filename p)) p;
          stripped = rev (dropWhile (\<lambda>c. c = CHR ''/'') (rev d))
      in if stripped = [] then d else stripped)"

definition path_extension :: "string \<Rightarrow> string" where
  "path_extension p =
     (let f = path_filename p; after = takeWhile (\<lambda>c. c \<noteq> CHR ''.'') (rev f)
      in if f = ''.'' \<or> f = ''..'' \<or> length f \<le> Suc (length after) then [] else CHR ''.'' # rev after)"

definition replace_extension :: "string \<Rightarrow> string \<Rightarrow> string" where
  "replace_extension p e =
     take (length p - length (path_extension p)) p @ (if e \<noteq> [] \<and> hd e \<noteq> CHR ''.'' then CHR ''.'' # e else e)"

definition path_append :: "string \<Rightarrow> string \<Rightarrow> string" where
  "path_append p q =
     (if q \<noteq> [] \<and> hd q = CHR ''/'' then q
      else if path_filename p \<noteq> [] then p @ ''/'' @ q
      else p @ q)"

section \<open>The graph manager\<close>

record 'g graph_lib =
  empty_graph :: 'g
  boost_add_vertex :: "string \<Rightarrow> 'g \<Rightarrow> nat \<times> 'g"
  boost_add_edge :: "nat \<Rightarrow> nat \<Rightarrow> 'g \<Rightarrow> 'g"
  graph_vertices :: "'g \<Rightarrow> nat set"
  vertex_name :: "'g \<Rightarrow> nat \<Rightarrow> string"
  edge_count :: "'g \<Rightarrow> nat \<Rightarrow> nat \<Rightarrow> nat"
  write_graphviz :: "'g \<Rightarrow> (nat \<Rightarrow> string) \<Rightarrow> string"

record 'g graph_manager =
  graph :: 'g
  name_to_vertex :: "(string \<times> nat) list"

definition new_graph :: "'g graph_lib \<Rightarrow> 'g graph_manager" where
  "new_graph B = \<lparr>graph = empty_graph B, name_to_vertex = []\<rparr>"

definition get_vertex :: "string \<Rightarrow> 'g graph_manager \<Rightarrow> nat option" where
  "get_vertex v m = map_of (name_to_vertex m) v"

definition get_or_add_vertex :: "'g graph_lib \<Rightarrow> string \<Rightarrow> 'g graph_manager \<Rightarrow> nat \<times> 'g graph_manager" where
  "get_or_add_vertex B v m =
     (case get_vertex v m of
        Some x \<Rightarrow> (x, m)
      | None \<Rightarrow> let (x, g) = boost_add_vertex B v (graph m)
                in (x, m\<lparr>graph := g, name_to_vertex := AList.update v x (name_to_vertex m)\<rparr>))"

definition add_connection :: "'g graph_lib \<Rightarrow> string \<Rightarrow> string \<Rightarrow> 'g graph_manager \<Rightarrow> 'g graph_manager" where
  "add_connection B src dst m =
     (let (u, m) = get_or_add_vertex B src m; (v, m) = get_or_add_vertex B dst m
      in m\<lparr>graph := boost_add_edge B u v (graph m)\<rparr>)"

text \<open>
  \<open>mkdirs d\<close> is whether \<^verbatim>\<open>create_directories(d)\<close> succeeds; it throws otherwise.  \<open>opens p\<close> is whether the \<^verbatim>\<open>ofstream\<close> opens the
  file; if not, the drawing goes nowhere and nothing is reported.  The result is the file that is written, if any, and its content.
\<close>

record file_system =
  mkdirs :: "string \<Rightarrow> bool"
  opens :: "string \<Rightarrow> bool"

definition save_graph :: "'g graph_lib \<Rightarrow> file_system \<Rightarrow> string \<Rightarrow> 'g graph_manager \<Rightarrow> string + (string \<times> string) option" where
  "save_graph B fs dest m =
     (let path = (if path_extension dest \<noteq> ''.dot'' then replace_extension dest ''.dot'' else dest) in
      if parent_path path \<noteq> [] \<and> \<not> mkdirs fs (parent_path path) then Inl ''filesystem_error''
      else if \<not> opens fs path then Inr None
      else Inr (Some (path, write_graphviz B (graph m) (\<lambda>v. ''[label='' @ [CHR 0x22] @ vertex_name B (graph m) v @ [CHR 0x22] @ '']''))))"

section \<open>The topology command\<close>

text \<open>
  \<^verbatim>\<open>generate_topology_graph\<close> sends the request and waits for the responses: \<open>topology_begin\<close> is the part before the
  wait, \<open>topology_end\<close> takes the value of the promise.
\<close>

definition topology_begin :: "mesh_lib \<Rightarrow> app_lib \<Rightarrow> time_ms \<Rightarrow> nat \<Rightarrow> mesh_node \<Rightarrow> mesh_node" where
  "topology_begin L P now prom s =
     broadcast_request L now ''mesh.TopologyRequest'' (topology_request_bytes P) ''mesh.TopologyResponse'' prom TCP s"

definition topology_graph :: "app_lib \<Rightarrow> 'g graph_lib \<Rightarrow> (peer_id \<times> bytes) list \<Rightarrow> 'g graph_manager" where
  "topology_graph P B responses =
     fold (\<lambda>(sender, resp) m. fold (add_connection B sender) (directly_connected_peers P resp) m) responses (new_graph B)"

definition topology_end :: "app_lib \<Rightarrow> 'g graph_lib \<Rightarrow> file_system \<Rightarrow> string \<Rightarrow> (peer_id \<times> bytes) list \<Rightarrow> mesh_node \<Rightarrow> string + (string \<times> string) option" where
  "topology_end P B fs filename responses s =
     save_graph B fs (path_append (output_directory s) filename) (topology_graph P B responses)"

section \<open>The saved graph\<close>

text \<open>
  What Boost documents of \<^verbatim>\<open>add_vertex\<close> and \<^verbatim>\<open>add_edge\<close> on an undirected graph: a new vertex with its name and without edges; one more edge
  between two different vertices, parallel to those that are there already.  Nothing is asked of an edge from a vertex to itself
  but that it leaves the other edges alone.
\<close>

definition vertex_law :: "'g graph_lib \<Rightarrow> string \<Rightarrow> 'g \<Rightarrow> nat \<Rightarrow> 'g \<Rightarrow> bool" where
  "vertex_law B n g v g' \<longleftrightarrow> v \<notin> graph_vertices B g \<and> graph_vertices B g' = insert v (graph_vertices B g) \<and> vertex_name B g' v = n \<and>
     (\<forall>x\<in>graph_vertices B g. vertex_name B g' x = vertex_name B g x \<and> edge_count B g' x v = 0 \<and> edge_count B g' v x = 0 \<and>
        (\<forall>y\<in>graph_vertices B g. edge_count B g' x y = edge_count B g x y))"

definition edge_law :: "'g graph_lib \<Rightarrow> nat \<Rightarrow> nat \<Rightarrow> 'g \<Rightarrow> 'g \<Rightarrow> bool" where
  "edge_law B u v g g' \<longleftrightarrow> graph_vertices B g' = graph_vertices B g \<and>
     (\<forall>x\<in>graph_vertices B g. vertex_name B g' x = vertex_name B g x \<and>
        (\<forall>y\<in>graph_vertices B g. x \<noteq> y \<longrightarrow> edge_count B g' x y = edge_count B g x y + (if x = u \<and> y = v \<or> x = v \<and> y = u then 1 else 0)))"

definition graph_law :: "'g graph_lib \<Rightarrow> bool" where
  "graph_law B \<longleftrightarrow> graph_vertices B (empty_graph B) = {} \<and>
     (\<forall>n g. vertex_law B n g (fst (boost_add_vertex B n g)) (snd (boost_add_vertex B n g))) \<and>
     (\<forall>g. \<forall>u\<in>graph_vertices B g. \<forall>v\<in>graph_vertices B g. edge_law B u v g (boost_add_edge B u v g))"

lemma graph_lawD:
  assumes "graph_law B"
  shows "graph_vertices B (empty_graph B) = {}" "boost_add_vertex B n g = (v, g') \<Longrightarrow> vertex_law B n g v g'"
    "u \<in> graph_vertices B g \<Longrightarrow> w \<in> graph_vertices B g \<Longrightarrow> edge_law B u w g (boost_add_edge B u w g)"
  using assms unfolding graph_law_def by (blast, metis fst_conv snd_conv, blast)

text \<open>The manager holds the graph with the names \<open>N\<close>, one vertex for each, and \<open>E x y\<close> edges between two different names.\<close>

definition graph_of :: "'g graph_lib \<Rightarrow> string set \<Rightarrow> (string \<Rightarrow> string \<Rightarrow> nat) \<Rightarrow> 'g graph_manager \<Rightarrow> bool" where
  "graph_of B N E m \<longleftrightarrow> (\<forall>x. get_vertex x m \<noteq> None \<longleftrightarrow> x \<in> N) \<and>
     (\<forall>v\<in>graph_vertices B (graph m). get_vertex (vertex_name B (graph m) v) m = Some v) \<and>
     (\<forall>x v. get_vertex x m = Some v \<longrightarrow> v \<in> graph_vertices B (graph m) \<and> vertex_name B (graph m) v = x) \<and>
     (\<forall>x y u v. get_vertex x m = Some u \<longrightarrow> get_vertex y m = Some v \<longrightarrow> x \<noteq> y \<longrightarrow> edge_count B (graph m) u v = E x y)"

lemma graph_of_new: "graph_law B \<Longrightarrow> graph_of B {} (\<lambda>x y. 0) (new_graph B)"
  using graph_lawD(1) [of B] by (simp add: graph_of_def new_graph_def get_vertex_def)

lemma graph_ofD:
  assumes "graph_of B N E m"
  shows "get_vertex x m \<noteq> None \<longleftrightarrow> x \<in> N" "v \<in> graph_vertices B (graph m) \<Longrightarrow> get_vertex (vertex_name B (graph m) v) m = Some v"
    "get_vertex x m = Some v \<Longrightarrow> v \<in> graph_vertices B (graph m)" "get_vertex x m = Some v \<Longrightarrow> vertex_name B (graph m) v = x"
    "get_vertex x m = Some u \<Longrightarrow> get_vertex y m = Some v \<Longrightarrow> x \<noteq> y \<Longrightarrow> edge_count B (graph m) u v = E x y"
  using assms unfolding graph_of_def by blast+

lemma graph_of_distinct:
  assumes "graph_of B N E m" "get_vertex x m = Some u" "get_vertex y m = Some v"
  shows "u = v \<longleftrightarrow> x = y"
proof
  assume e: "u = v"
  have "vertex_name B (graph m) v = x" using graph_ofD(4) [OF assms(1,2)] unfolding e .
  then show "x = y" unfolding graph_ofD(4) [OF assms(1,3)] by (rule sym)
next
  assume e: "x = y"
  show "u = v" using assms(2) unfolding e assms(3) by simp
qed

lemma get_or_add_graph:
  assumes "graph_law B" and g: "graph_of B N E m" and r: "get_or_add_vertex B x m = (v, m')" and E: "\<And>y. x \<notin> N \<Longrightarrow> E x y = 0 \<and> E y x = 0"
  shows "graph_of B (insert x N) E m' \<and> get_vertex x m' = Some v \<and> (\<forall>y u. get_vertex y m = Some u \<longrightarrow> get_vertex y m' = Some u)"
proof (cases "get_vertex x m")
  case None
  obtain g' where b: "boost_add_vertex B x (graph m) = (v, g')" and m': "m' = m\<lparr>graph := g', name_to_vertex := AList.update x v (name_to_vertex m)\<rparr>"
    using r None by (auto simp: get_or_add_vertex_def split: prod.splits)
  have gv: "get_vertex y m' = (if y = x then Some v else get_vertex y m)" for y by (simp add: m' get_vertex_def update_conv')
  note l = graph_lawD(2) [OF assms(1) b, unfolded vertex_law_def]
  note G = graph_ofD [OF g]
  have x: "x \<notin> N" using G(1) [of x] None by simp
  have gm: "graph m' = g'" by (simp add: m')
  show ?thesis unfolding graph_of_def gm gv
  proof (intro conjI allI impI ballI, goal_cases)
    case (1 y)
    then show ?case using G(1) [of y] by simp
  next
    case (2 w)
    then show ?case using l G(2) [of w] None by (auto split: if_splits)
  next
    case (3 y w)
    then show ?case using l G(3) [of y w] by (auto split: if_splits)
  next
    case (4 y w)
    then show ?case using l G(3,4) [of y w] by (auto split: if_splits)
  next
    case (5 y z u w)
    then show ?case using l G(3) [of y u] G(3) [of z w] G(5) [of y u z w] E [OF x] by (auto split: if_splits)
  next
    case 6
    then show ?case by simp
  next
    case (7 y u)
    then show ?case using None by (auto split: if_splits)
  qed
next
  case (Some w)
  then have "v = w" "m' = m" "insert x N = N" using r graph_ofD(1) [OF g, of x] by (auto simp: get_or_add_vertex_def)
  then show ?thesis using g Some by simp
qed

text \<open>One more edge between \<open>a\<close> and \<open>b\<close>.\<close>

definition one_more :: "string \<Rightarrow> string \<Rightarrow> (string \<Rightarrow> string \<Rightarrow> nat) \<Rightarrow> string \<Rightarrow> string \<Rightarrow> nat" where
  "one_more a b E x y = E x y + (if x = a \<and> y = b \<or> x = b \<and> y = a then 1 else 0)"

lemma add_connection_graph:
  assumes law: "graph_law B" and g: "graph_of B N E m" and E: "\<And>x y. x \<notin> N \<Longrightarrow> E x y = 0 \<and> E y x = 0"
  shows "graph_of B (insert a (insert b N)) (one_more a b E) (add_connection B a b m)"
proof -
  obtain u m1 where u: "get_or_add_vertex B a m = (u, m1)" by (metis surj_pair)
  obtain v m2 where v: "get_or_add_vertex B b m1 = (v, m2)" by (metis surj_pair)
  have g1: "graph_of B (insert a N) E m1" "get_vertex a m1 = Some u" using get_or_add_graph [OF law g u] E by blast+
  have g2: "graph_of B (insert b (insert a N)) E m2" "get_vertex b m2 = Some v" "get_vertex a m2 = Some u"
    using get_or_add_graph [OF law g1(1) v] E g1(2) by blast+
  note G = graph_ofD [OF g2(1)]
  have r: "add_connection B a b m = m2\<lparr>graph := boost_add_edge B u v (graph m2)\<rparr>" by (simp add: add_connection_def u v)
  note e = graph_lawD(3) [OF law G(3) [OF g2(3)] G(3) [OF g2(2)], unfolded edge_law_def]
  have gv: "get_vertex x (m2\<lparr>graph := g\<rparr>) = get_vertex x m2" for x g by (simp add: get_vertex_def)
  have "edge_count B (boost_add_edge B u v (graph m2)) w z = one_more a b E x y"
    if h: "get_vertex x m2 = Some w" "get_vertex y m2 = Some z" "x \<noteq> y" for x y w z
  proof -
    have "w \<in> graph_vertices B (graph m2)" "z \<in> graph_vertices B (graph m2)" "w \<noteq> z"
      using G(3) [OF h(1)] G(3) [OF h(2)] graph_of_distinct [OF g2(1) h(1,2)] h(3) by simp_all
    then have "edge_count B (boost_add_edge B u v (graph m2)) w z = edge_count B (graph m2) w z + (if w = u \<and> z = v \<or> w = v \<and> z = u then 1 else 0)"
      using e by blast
    then show ?thesis
      using G(5) [OF h] graph_of_distinct [OF g2(1) h(1) g2(2)] graph_of_distinct [OF g2(1) h(1) g2(3)]
        graph_of_distinct [OF g2(1) h(2) g2(2)] graph_of_distinct [OF g2(1) h(2) g2(3)] by (simp add: one_more_def)
  qed
  then show ?thesis using G(1-4) e unfolding r graph_of_def gv by (simp add: insert_commute [of a b])
qed

text \<open>The peers a list of responses names (as sender of a report or in one), and how often it reports a link between two peers.\<close>

definition named :: "app_lib \<Rightarrow> (peer_id \<times> bytes) list \<Rightarrow> peer_id set" where
  "named P responses = {x. \<exists>(s, r)\<in>set responses. s = x \<and> directly_connected_peers P r \<noteq> [] \<or> x \<in> set (directly_connected_peers P r)}"

fun reports :: "app_lib \<Rightarrow> (peer_id \<times> bytes) list \<Rightarrow> peer_id \<Rightarrow> peer_id \<Rightarrow> nat" where
  "reports P [] x y = 0"
| "reports P ((s, r) # rs) x y = (if s = x then count_list (directly_connected_peers P r) y else 0) +
     (if s = y then count_list (directly_connected_peers P r) x else 0) + reports P rs x y"

text \<open>The edges that the connections of \<open>a\<close> to a list of peers add.\<close>

definition with_reports :: "string \<Rightarrow> string list \<Rightarrow> (string \<Rightarrow> string \<Rightarrow> nat) \<Rightarrow> string \<Rightarrow> string \<Rightarrow> nat" where
  "with_reports a ys E x y = E x y + (if a = x then count_list ys y else 0) + (if a = y then count_list ys x else 0)"

lemma graph_of_cong:
  assumes "graph_of B N E m" "\<And>x y. x \<noteq> y \<Longrightarrow> E x y = E' x y" "N = N'"
  shows "graph_of B N' E' m"
  using assms unfolding graph_of_def by auto

lemma connections_graph:
  assumes law: "graph_law B"
  shows "graph_of B N E m \<Longrightarrow> (\<And>x y. x \<notin> N \<Longrightarrow> E x y = 0 \<and> E y x = 0) \<Longrightarrow>
    graph_of B (N \<union> (if ys = [] then {} else insert a (set ys))) (with_reports a ys E) (fold (add_connection B a) ys m)"
proof (induction ys arbitrary: N E m)
  case Nil
  then show ?case by (auto simp: with_reports_def elim!: graph_of_cong)
next
  case (Cons b ys)
  have "graph_of B (insert a (insert b N)) (one_more a b E) (add_connection B a b m)" by (rule add_connection_graph [OF law Cons.prems])
  moreover have "one_more a b E x y = 0 \<and> one_more a b E y x = 0" if "x \<notin> insert a (insert b N)" for x y
    using that Cons.prems(2) [of x y] by (auto simp: one_more_def)
  ultimately have "graph_of B (insert a (insert b N) \<union> (if ys = [] then {} else insert a (set ys))) (with_reports a ys (one_more a b E)) (fold (add_connection B a) ys (add_connection B a b m))"
    by (rule Cons.IH)
  then show ?case by (auto simp: with_reports_def one_more_def elim!: graph_of_cong split: if_splits)
qed

text \<open>A relative file name leads to a path that starts with the directory: only an extension of the name is cut off.\<close>

lemma extension_le: "length (path_extension q) \<le> length (path_filename q)"
  by (auto simp: path_extension_def Let_def)

lemma filename_le: "d = [] \<or> last d = CHR ''/'' \<Longrightarrow> length (path_filename (d @ f)) \<le> length f"
  using length_takeWhile_le [of "\<lambda>c. c \<noteq> CHR ''/''" "rev f"]
  by (cases d rule: rev_cases) (auto simp: path_filename_def takeWhile_tail)

lemma no_filename: "path_filename d = [] \<Longrightarrow> d = [] \<or> last d = CHR ''/''"
  by (cases d rule: rev_cases) (auto simp: path_filename_def split: if_splits)

lemma saved_below:
  assumes "f \<noteq> []" "hd f \<noteq> CHR ''/''" "q = path_append d f"
  shows "take (length d) q = d" "take (length d) (replace_extension q e) = d"
proof -
  define d' where "d' = (if path_filename d = [] then d else d @ ''/'')"
  have d': "q = d' @ f" using assms by (simp add: d'_def path_append_def)
  have l: "d' = [] \<or> last d' = CHR ''/''" using no_filename [of d] by (simp add: d'_def)
  have t: "take (length d) d' = d" and "length d \<le> length d'" by (simp_all add: d'_def)
  moreover have "length (path_extension q) \<le> length f" using extension_le [of q] filename_le [OF l, of f] d' by simp
  ultimately show "take (length d) q = d" "take (length d) (replace_extension q e) = d"
    using d' t by (simp_all add: replace_extension_def)
qed

lemma reports_unnamed: "x \<notin> named P rs \<Longrightarrow> reports P rs x y = 0 \<and> reports P rs y x = 0"
  by (induction P rs x y rule: reports.induct) (auto simp: named_def count_list_0_iff)

lemma reports_snoc: "reports P (rs @ [(s, r)]) x y = with_reports s (directly_connected_peers P r) (reports P rs) x y"
  by (induction P rs x y rule: reports.induct) (simp_all add: with_reports_def)

lemma named_snoc: "named P (rs @ [(s, r)]) = named P rs \<union> (if directly_connected_peers P r = [] then {} else insert s (set (directly_connected_peers P r)))"
  by (auto simp: named_def)

lemma topology_graph_of:
  assumes "graph_law B"
  shows "graph_of B (named P rs) (reports P rs) (topology_graph P B rs)"
proof (induction rs rule: rev_induct)
  case Nil
  have "named P [] = {}" by (simp add: named_def)
  then show ?case using graph_of_new [OF assms] by (auto simp: topology_graph_def elim!: graph_of_cong)
next
  case (snoc r rs)
  obtain s raw where r: "r = (s, raw)" by (cases r)
  have step: "topology_graph P B (rs @ [r]) = fold (add_connection B s) (directly_connected_peers P raw) (topology_graph P B rs)"
    by (simp add: topology_graph_def r)
  let ?ys = "directly_connected_peers P raw"
  have "graph_of B (named P rs \<union> (if ?ys = [] then {} else insert s (set ?ys))) (with_reports s ?ys (reports P rs)) (fold (add_connection B s) ?ys (topology_graph P B rs))"
    by (rule connections_graph [OF assms snoc.IH]) (rule reports_unnamed)
  then show ?case unfolding step by (rule graph_of_cong) (simp_all only: r reports_snoc named_snoc)
qed

text \<open>
  C16.  The topology file shows what the peers answered.  Whatever responses come back, the graph that is drawn
  has exactly one vertex, labelled with its name, for every peer that a response names or that sends a response naming one, and between two
  different peers as many parallel edges as there are reports of a link between them by one of the two; the file that is written, if it can be opened, is the drawing of that
  graph, below the output directory unless the user gave an absolute path.
\<close>

theorem topology_file_shows_links:
  assumes "graph_law B" "topology_end P B fs filename responses s = Inr (Some (file, text))"
  shows "\<exists>m. m = topology_graph P B responses \<and> text = write_graphviz B (graph m) (\<lambda>v. ''[label='' @ [CHR 0x22] @ vertex_name B (graph m) v @ [CHR 0x22] @ '']'') \<and>
    vertex_name B (graph m) ` graph_vertices B (graph m) = named P responses \<and>
    (\<forall>u\<in>graph_vertices B (graph m). \<forall>v\<in>graph_vertices B (graph m). u \<noteq> v \<longrightarrow> vertex_name B (graph m) u \<noteq> vertex_name B (graph m) v \<and>
      edge_count B (graph m) u v = reports P responses (vertex_name B (graph m) u) (vertex_name B (graph m) v)) \<and>
    opens fs file \<and> (filename \<noteq> [] \<and> hd filename \<noteq> CHR ''/'' \<longrightarrow> take (length (output_directory s)) file = output_directory s)"
proof -
  let ?m = "topology_graph P B responses"
  note G = graph_ofD [OF topology_graph_of [OF assms(1), of P responses]]
  have "vertex_name B (graph ?m) ` graph_vertices B (graph ?m) = named P responses"
  proof (intro set_eqI iffI)
    fix x assume "x \<in> vertex_name B (graph ?m) ` graph_vertices B (graph ?m)"
    then have "get_vertex x ?m \<noteq> None" using G(2) by fastforce
    then show "x \<in> named P responses" using G(1) [of x] by simp
  next
    fix x assume "x \<in> named P responses"
    then obtain v where v: "get_vertex x ?m = Some v" using G(1) [of x] by auto
    with G(3,4) [OF v] show "x \<in> vertex_name B (graph ?m) ` graph_vertices B (graph ?m)" by auto
  qed
  moreover have "vertex_name B (graph ?m) u \<noteq> vertex_name B (graph ?m) v \<and>
      edge_count B (graph ?m) u v = reports P responses (vertex_name B (graph ?m) u) (vertex_name B (graph ?m) v)"
    if "u \<in> graph_vertices B (graph ?m)" "v \<in> graph_vertices B (graph ?m)" "u \<noteq> v" for u v
  proof -
    note g = G(2) [OF that(1)] G(2) [OF that(2)]
    have "vertex_name B (graph ?m) u \<noteq> vertex_name B (graph ?m) v" using g that(3) by auto
    then show ?thesis using G(5) [OF g] by simp
  qed
  moreover have "text = write_graphviz B (graph ?m) (\<lambda>v. ''[label='' @ [CHR 0x22] @ vertex_name B (graph ?m) v @ [CHR 0x22] @ '']'')" "opens fs file"
    using assms(2) by (auto simp: topology_end_def save_graph_def Let_def split: if_splits)
  moreover have "take (length (output_directory s)) file = output_directory s" if "filename \<noteq> []" "hd filename \<noteq> CHR ''/''"
    using assms(2) saved_below [OF that refl] by (auto simp: topology_end_def save_graph_def Let_def split: if_splits)
  ultimately show ?thesis by (intro exI [of _ ?m] conjI refl allI ballI impI) blast+
qed

definition ex_graph :: "(string list \<times> (nat \<times> nat) list) graph_lib" where
  "ex_graph = \<lparr>empty_graph = ([], []), boost_add_vertex = (\<lambda>n (vs, es). (length vs, (vs @ [n], filter (\<lambda>(x, y). x \<noteq> length vs \<and> y \<noteq> length vs) es))),
     boost_add_edge = (\<lambda>u v (vs, es). (vs, (u, v) # es)), graph_vertices = (\<lambda>(vs, es). {..<length vs}),
     vertex_name = (\<lambda>(vs, es) v. if v < length vs then vs ! v else []),
     edge_count = (\<lambda>(vs, es) u v. length (filter (\<lambda>(x, y). x = u \<and> y = v \<or> x = v \<and> y = u) es)),
     write_graphviz = (\<lambda>(vs, es) l. concat (map l [0..<length vs]))\<rparr>"

lemma ex_graph_law: "graph_law ex_graph"
proof -
  have "vertex_law ex_graph n g (fst (boost_add_vertex ex_graph n g)) (snd (boost_add_vertex ex_graph n g))" for n g
    by (cases g) (auto simp: vertex_law_def ex_graph_def nth_append filter_empty_conv intro!: arg_cong [where f = length] filter_cong)
  moreover have "edge_law ex_graph u v g (boost_add_edge ex_graph u v g)" for u v g
    by (cases g) (auto simp: edge_law_def ex_graph_def)
  moreover have "graph_vertices ex_graph (empty_graph ex_graph) = {}" by (simp add: ex_graph_def)
  ultimately show ?thesis by (simp add: graph_law_def)
qed

theorem topology_file_shows_links_witness:
  "\<exists>file text. topology_end ex_app ex_graph \<lparr>mkdirs = (\<lambda>d. True), opens = (\<lambda>p. True)\<rparr> ''net'' [(''a'', [98, 99]), (''b'', [97])] ex_node = Inr (Some (file, text)) \<and>
     (let g = graph (topology_graph ex_app ex_graph [(''a'', [98, 99]), (''b'', [97])]) in
      \<forall>u\<in>graph_vertices ex_graph g. \<forall>v\<in>graph_vertices ex_graph g. u \<noteq> v \<longrightarrow>
        edge_count ex_graph g u v = reports ex_app [(''a'', [98, 99]), (''b'', [97])] (vertex_name ex_graph g u) (vertex_name ex_graph g v))"
proof -
  let ?rs = "[(''a'', [98, 99]), (''b'', [97])]" and ?fs = "\<lparr>mkdirs = (\<lambda>d. True), opens = (\<lambda>p. True)\<rparr>"
  obtain path content where e: "topology_end ex_app ex_graph ?fs ''net'' ?rs ex_node = Inr (Some (path, content))"
    by (simp add: topology_end_def save_graph_def Let_def)
  then show ?thesis using topology_file_shows_links [OF ex_graph_law e] unfolding Let_def by blast
qed

end
