(* ===== verification/Mesh_Main.thy ===== *)
theory Mesh_Main
  imports Mesh_Node_Theorems Topology_Graph "HOL-Library.Multiset"
begin

text \<open>
  The program \<^verbatim>\<open>main.cpp\<close>: the configuration it reads, the node it builds from it, the commands of the user and
  the loop that reads them while the I/O thread runs.  The YAML library, the command line and the files
  are parameters.
\<close>

section \<open>Words of a line\<close>

definition is_space :: "char \<Rightarrow> bool" where
  "is_space c \<longleftrightarrow> c = CHR '' '' \<or> 9 \<le> (of_char c :: nat) \<and> (of_char c :: nat) \<le> 13"

text \<open>Extraction of strings from an \<^verbatim>\<open>istringstream\<close>: skip white space, read up to the next.\<close>

function tokenize :: "string \<Rightarrow> string list" where
  "tokenize line =
     (let rest = dropWhile is_space line in
      if rest = [] then [] else takeWhile (\<lambda>c. \<not> is_space c) rest # tokenize (dropWhile (\<lambda>c. \<not> is_space c) rest))"
  by pat_completeness auto
termination
proof (relation "measure length")
  fix line rest :: string
  assume r: "rest = dropWhile is_space line" "rest \<noteq> []"
  then have "\<not> is_space (hd rest)" by (metis hd_dropWhile)
  then have "length (dropWhile (\<lambda>c. \<not> is_space c) rest) < length rest" using r(2) by (intro length_dropWhile_less) simp_all
  then show "(dropWhile (\<lambda>c. \<not> is_space c) rest, line) \<in> measure length"
    using length_dropWhile_le [of is_space line] r(1) by simp
qed simp

declare tokenize.simps [simp del]

section \<open>The configuration\<close>

text \<open>
  \<open>yaml_get k y\<close> is \<^verbatim>\<open>y[k]\<close>, \<open>None\<close> where that node is not defined; the conversions are \<^verbatim>\<open>as<T>()\<close>.  All of them can throw.
\<close>

record 'y yaml_lib =
  yaml_get :: "string \<Rightarrow> 'y \<Rightarrow> string + 'y option"
  as_int :: "'y \<Rightarrow> string + int"
  as_bool :: "'y \<Rightarrow> string + bool"
  as_string :: "'y \<Rightarrow> string + string"
  yaml_elements :: "'y \<Rightarrow> 'y list"

text \<open>How the program ends before its loop: an exception nothing catches, or a return from \<^verbatim>\<open>main\<close> after a message.\<close>

datatype main_exit = Uncaught string | ReturnOne string

definition bind_exit :: "main_exit + 'a \<Rightarrow> ('a \<Rightarrow> main_exit + 'b) \<Rightarrow> main_exit + 'b" where
  "bind_exit r f = (case r of Inl e \<Rightarrow> Inl e | Inr x \<Rightarrow> f x)"

definition throwing :: "string + 'a \<Rightarrow> main_exit + 'a" where
  "throwing r = (case r of Inl e \<Rightarrow> Inl (Uncaught e) | Inr x \<Rightarrow> Inr x)"

definition required :: "'y yaml_lib \<Rightarrow> ('y \<Rightarrow> string + 'a) \<Rightarrow> string \<Rightarrow> 'y \<Rightarrow> main_exit + 'a" where
  "required Y conv k y = bind_exit (throwing (yaml_get Y k y)) (\<lambda>n. case n of None \<Rightarrow> Inl (Uncaught ''InvalidNode'') | Some n \<Rightarrow> throwing (conv n))"

definition optional :: "'y yaml_lib \<Rightarrow> ('y \<Rightarrow> string + 'a) \<Rightarrow> string \<Rightarrow> 'a \<Rightarrow> 'y \<Rightarrow> main_exit + 'a" where
  "optional Y conv k dflt y = bind_exit (throwing (yaml_get Y k y)) (\<lambda>n. case n of None \<Rightarrow> Inr dflt | Some n \<Rightarrow> throwing (conv n))"

definition fec_config :: "'y yaml_lib \<Rightarrow> 'y \<Rightarrow> main_exit + udp_fec_options" where
  "fec_config Y fec =
     bind_exit (optional Y (as_bool Y) ''enabled'' True fec) (\<lambda>on.
     bind_exit (optional Y (as_int Y) ''data-shards'' (uint (data_shards default_fec_options)) fec) (\<lambda>shards.
     bind_exit (optional Y (as_int Y) ''roots'' 0 fec) (\<lambda>parity.
       if shards < 1 \<or> shards > 253 then Inl (ReturnOne ''udp-fec.data-shards must be between 1 and 253'')
       else if parity < 0 \<or> parity > 253 then Inl (ReturnOne ''udp-fec.roots must be between 0 and 253'')
       else if shards + parity > 254 then Inl (ReturnOne ''udp-fec.data-shards + udp-fec.roots must be <= 254'')
       else let options = \<lparr>enabled = on, data_shards = of_int shards, roots = of_int parity\<rparr>
            in Inr (if roots options = 0 then options\<lparr>enabled := False\<rparr> else options))))"

record tls_options =
  use_tls :: bool
  tls_encrypt :: bool
  cert_path :: string
  key_path :: string
  ca_path :: string

definition no_tls :: tls_options where
  "no_tls = \<lparr>use_tls = False, tls_encrypt = False, cert_path = [], key_path = [], ca_path = []\<rparr>"

definition tls_config :: "'y yaml_lib \<Rightarrow> 'y \<Rightarrow> main_exit + tls_options" where
  "tls_config Y config =
     bind_exit (throwing (yaml_get Y ''tls'' config)) (\<lambda>tls. case tls of None \<Rightarrow> Inr no_tls | Some tls \<Rightarrow>
     bind_exit (throwing (yaml_get Y ''cert-path'' tls)) (\<lambda>c. case c of None \<Rightarrow> Inr no_tls | Some c \<Rightarrow>
     bind_exit (throwing (yaml_get Y ''key-path'' tls)) (\<lambda>k. case k of None \<Rightarrow> Inr no_tls | Some k \<Rightarrow>
     bind_exit (throwing (yaml_get Y ''ca-path'' tls)) (\<lambda>a. case a of None \<Rightarrow> Inr no_tls | Some a \<Rightarrow>
     bind_exit (throwing (as_string Y c)) (\<lambda>cert.
     bind_exit (throwing (as_string Y k)) (\<lambda>key.
     bind_exit (throwing (as_string Y a)) (\<lambda>ca.
     bind_exit (throwing (yaml_get Y ''encrypt-messages'' tls)) (\<lambda>e.
       Inr \<lparr>use_tls = True, tls_encrypt = (e \<noteq> None), cert_path = cert, key_path = key, ca_path = ca\<rparr>))))))))"

record main_config =
  cfg_tcp_port :: int
  cfg_udp_port :: int
  cfg_peer_id :: peer_id
  cfg_output_dir :: string
  cfg_log_file :: string
  cfg_debug :: bool
  cfg_fec :: udp_fec_options
  cfg_tls :: tls_options

text \<open>
  The output directory is created and the log started between the settings; both report a failure on the standard error
  output and go on, so only the file the log goes to is kept.
\<close>

definition load_config :: "'y yaml_lib \<Rightarrow> string \<Rightarrow> 'y \<Rightarrow> main_exit + main_config" where
  "load_config Y current_path config =
     bind_exit (required Y (as_int Y) ''tcp-port'' config) (\<lambda>tcp.
     bind_exit (required Y (as_int Y) ''udp-port'' config) (\<lambda>uport.
     bind_exit (required Y (as_string Y) ''peer-id'' config) (\<lambda>peer.
     bind_exit (optional Y (as_string Y) ''output-dir'' (path_append current_path ''out'') config) (\<lambda>dir.
     bind_exit (optional Y (as_bool Y) ''debug'' False config) (\<lambda>debug.
     bind_exit (throwing (yaml_get Y ''udp-fec'' config)) (\<lambda>fec.
     bind_exit (case fec of None \<Rightarrow> Inr default_fec_options | Some fec \<Rightarrow> fec_config Y fec) (\<lambda>options.
     bind_exit (tls_config Y config) (\<lambda>tls.
       Inr \<lparr>cfg_tcp_port = tcp, cfg_udp_port = uport, cfg_peer_id = peer, cfg_output_dir = dir, cfg_log_file = path_append dir ''node_log.txt'', cfg_debug = debug, cfg_fec = options, cfg_tls = tls\<rparr>))))))))"

section \<open>Start\<close>

primrec auto_connect :: "'y yaml_lib \<Rightarrow> 'y list \<Rightarrow> mesh_node \<Rightarrow> main_exit + mesh_node" where
  "auto_connect Y [] s = Inr s"
| "auto_connect Y (e # es) s =
     bind_exit (throwing (yaml_get Y ''ip'' e)) (\<lambda>i. case i of None \<Rightarrow> auto_connect Y es s | Some i \<Rightarrow>
     bind_exit (throwing (yaml_get Y ''port'' e)) (\<lambda>p. case p of None \<Rightarrow> auto_connect Y es s | Some p \<Rightarrow>
     bind_exit (throwing (as_string Y i)) (\<lambda>address.
     bind_exit (throwing (as_int Y p)) (\<lambda>port.
       auto_connect Y es (node_add_auto_connection address port s)))))"

text \<open>
  \<open>make_ssl\<close> is \<^verbatim>\<open>make_ssl_context\<close>, \<open>files\<close> the files that can be read, \<open>net\<close> how opening the sockets ends.
\<close>

definition load_identity :: "('k, 'x) crypto_lib \<Rightarrow> (string \<Rightarrow> string option) \<Rightarrow> tls_options \<Rightarrow> main_exit + identity_manager" where
  "load_identity C files tls =
     (if tls_encrypt tls
      then case load_identities C files (cert_path tls) (key_path tls) (ca_path tls) new_identity of
             (None, im) \<Rightarrow> Inr im
           | (Some (Throw e), im) \<Rightarrow> Inl (Uncaught e)
           | (Some UninitialisedRead, im) \<Rightarrow> Inl (Uncaught ''uninitialised read'')
      else Inr new_identity)"

definition build_node :: "('k, 'x) crypto_lib \<Rightarrow> (string \<Rightarrow> string option) \<Rightarrow> (string \<Rightarrow> string \<Rightarrow> string \<Rightarrow> string + unit) \<Rightarrow> sockets
    \<Rightarrow> time_ms \<Rightarrow> main_config \<Rightarrow> main_exit + mesh_node" where
  "build_node C files make_ssl net now cfg =
     (let tls = cfg_tls cfg in
      bind_exit (if use_tls tls then case make_ssl (cert_path tls) (key_path tls) (ca_path tls) of Inl e \<Rightarrow> Inl (ReturnOne e) | Inr _ \<Rightarrow> Inr True
                 else Inr False) (\<lambda>ssl.
      bind_exit (load_identity C files tls) (\<lambda>im.
      bind_exit (throwing (MeshNode now (cfg_udp_port cfg) (cfg_peer_id cfg) ssl im (tls_encrypt tls) (cfg_fec cfg) net)) (\<lambda>s.
        Inr (node_start (set_output_directory (cfg_output_dir cfg) s))))))"

definition main_start :: "'y yaml_lib \<Rightarrow> ('k, 'x) crypto_lib \<Rightarrow> (string \<Rightarrow> string option) \<Rightarrow> (string \<Rightarrow> string \<Rightarrow> string \<Rightarrow> string + unit) \<Rightarrow> sockets
    \<Rightarrow> string \<Rightarrow> time_ms \<Rightarrow> (string + 'y) option \<Rightarrow> main_exit + mesh_node" where
  "main_start Y C files make_ssl net current_path now arg =
     (case arg of
        None \<Rightarrow> Inl (ReturnOne ''Usage: meshnode config_path.yml'')
      | Some (Inl e) \<Rightarrow> Inl (Uncaught e)
      | Some (Inr config) \<Rightarrow>
          bind_exit (load_config Y current_path config) (\<lambda>cfg.
          bind_exit (build_node C files make_ssl net now cfg) (\<lambda>s.
          bind_exit (throwing (yaml_get Y ''auto_connect'' config)) (\<lambda>list.
            case list of None \<Rightarrow> Inr s | Some list \<Rightarrow> auto_connect Y (yaml_elements Y list) s))))"

section \<open>Commands\<close>

text \<open>
  What \<^verbatim>\<open>main\<close> waits for: nothing, or the promise of a ping or of a topology request.  \<open>files_written\<close> are the
  topology files, \<open>pongs\<close> the results of the pings.
\<close>

datatype command_wait = NoWait | PingWait nat | TopologyWait nat string

record program =
  prog_node :: mesh_node
  printed :: "string list"
  prog_wait :: command_wait
  prog_running :: bool
  next_prom :: nat
  pongs :: "bool list"
  files_written :: "(string \<times> string) list"

definition new_program :: "mesh_node \<Rightarrow> program" where
  "new_program s = \<lparr>prog_node = s, printed = [], prog_wait = NoWait, prog_running = True, next_prom = 0, pongs = [], files_written = []\<rparr>"

definition print_line :: "string \<Rightarrow> program \<Rightarrow> program" where
  "print_line text p = p\<lparr>printed := printed p @ [text]\<rparr>"

definition on_node :: "(mesh_node \<Rightarrow> mesh_node) \<Rightarrow> program \<Rightarrow> program" where
  "on_node f p = p\<lparr>prog_node := f (prog_node p)\<rparr>"

definition cmd_connect :: "string list \<Rightarrow> program \<Rightarrow> program" where
  "cmd_connect args p = (case parse_connect_args args of Inl e \<Rightarrow> print_line e p | Inr (host, port) \<Rightarrow> on_node (node_connect host port) p)"

primrec join_words :: "string list \<Rightarrow> string" where
  "join_words [] = []"
| "join_words (w # ws) = w @ concat (map (\<lambda>v. '' '' @ v) ws)"

definition cmd_dm :: "mesh_lib \<Rightarrow> time_ms \<Rightarrow> string list \<Rightarrow> program \<Rightarrow> program" where
  "cmd_dm L now args p =
     (if length args < 2 then print_line ''Usage: dm <peer> <message>'' p
      else on_node (send_text L now (args ! 0) (join_words (drop 1 args))) p)"

definition cmd_topology :: "mesh_lib \<Rightarrow> app_lib \<Rightarrow> time_ms \<Rightarrow> string list \<Rightarrow> program \<Rightarrow> program" where
  "cmd_topology L P now args p =
     (if args = [] then print_line ''Usage: topology <output_path>'' p
      else (on_node (topology_begin L P now (next_prom p)) p)\<lparr>prog_wait := TopologyWait (next_prom p) (args ! 0), next_prom := Suc (next_prom p)\<rparr>)"

definition cmd_ping :: "mesh_lib \<Rightarrow> app_lib \<Rightarrow> ('k, 'x) crypto_lib \<Rightarrow> time_ms \<Rightarrow> string list \<Rightarrow> program \<Rightarrow> program" where
  "cmd_ping L P C now args p =
     (if args = [] then print_line ''Usage: ping <peer>'' p
      else (on_node (ping_begin L P C now (args ! 0) (next_prom p)) p)\<lparr>prog_wait := PingWait (next_prom p), next_prom := Suc (next_prom p)\<rparr>)"

definition cmd_get_nodes :: "program \<Rightarrow> program" where
  "cmd_get_nodes p =
     (let nodes = get_nodes_in_network (prog_node p) in fold print_line nodes (print_line (nat_text (length nodes) @ '' node(s)'') p))"

text \<open>\<open>order\<close> is the order in which the table of commands, an \<^verbatim>\<open>unordered_map\<close>, is traversed.\<close>

definition command_names :: "string list" where
  "command_names = [''connect'', ''dm'', ''topology'', ''ping'', ''get_nodes'', ''block'', ''unblock'', ''help'']"

definition cmd_help :: "string list \<Rightarrow> program \<Rightarrow> program" where
  "cmd_help order p = fold print_line (map (\<lambda>n. '' - '' @ n) order) (print_line ''Available commands:'' p)"

definition run_command :: "mesh_lib \<Rightarrow> app_lib \<Rightarrow> ('k, 'x) crypto_lib \<Rightarrow> string list \<Rightarrow> time_ms \<Rightarrow> string \<Rightarrow> string list \<Rightarrow> program \<Rightarrow> program" where
  "run_command L P C order now cmd args p =
     (if cmd = ''connect'' then cmd_connect args p
      else if cmd = ''dm'' then cmd_dm L now args p
      else if cmd = ''topology'' then cmd_topology L P now args p
      else if cmd = ''ping'' then cmd_ping L P C now args p
      else if cmd = ''get_nodes'' then cmd_get_nodes p
      else if cmd = ''block'' then on_node (set_block_all_messages True) p
      else if cmd = ''unblock'' then on_node (set_block_all_messages False) p
      else if cmd = ''help'' then cmd_help order p
      else print_line (''Unknown command. Type '' @ [CHR 0x27] @ ''help'' @ [CHR 0x27]) p)"

definition main_end :: "program \<Rightarrow> program" where
  "main_end p = (on_node node_stop p)\<lparr>prog_running := False\<rparr>"

definition run_line :: "mesh_lib \<Rightarrow> app_lib \<Rightarrow> ('k, 'x) crypto_lib \<Rightarrow> string list \<Rightarrow> time_ms \<Rightarrow> string \<Rightarrow> program \<Rightarrow> program" where
  "run_line L P C order now line p =
     (case tokenize line of
        [] \<Rightarrow> p
      | cmd # args \<Rightarrow> if cmd = ''exit'' \<or> cmd = ''quit'' then main_end p else run_command L P C order now cmd args p)"

text \<open>The waits of \<^verbatim>\<open>ping\<close> and \<^verbatim>\<open>generate_topology_graph\<close> end; an exception of the file system is not caught.\<close>

definition ping_done :: "request_error + peer_id \<times> bytes \<Rightarrow> program \<Rightarrow> program" where
  "ping_done r p = p\<lparr>prog_wait := NoWait, pongs := pongs p @ [ping_end r]\<rparr>"

definition topology_done :: "app_lib \<Rightarrow> 'g graph_lib \<Rightarrow> file_system \<Rightarrow> string \<Rightarrow> (peer_id \<times> bytes) list \<Rightarrow> program \<Rightarrow> program" where
  "topology_done P B fs filename rs p =
     (case topology_end P B fs filename rs (prog_node p) of
        Inl e \<Rightarrow> p\<lparr>prog_wait := NoWait, prog_running := False\<rparr>
      | Inr None \<Rightarrow> p\<lparr>prog_wait := NoWait\<rparr>
      | Inr (Some f) \<Rightarrow> p\<lparr>prog_wait := NoWait, files_written := files_written p @ [f]\<rparr>)"

text \<open>The main thread and the I/O thread.\<close>

inductive main_step :: "mesh_lib \<Rightarrow> app_lib \<Rightarrow> ('k, 'x) crypto_lib \<Rightarrow> 'g graph_lib \<Rightarrow> file_system \<Rightarrow> program \<Rightarrow> program \<Rightarrow> bool" for L P C B fs where
  m_line: "prog_running p \<Longrightarrow> prog_wait p = NoWait \<Longrightarrow> mset order = mset command_names \<Longrightarrow> main_step L P C B fs p (run_line L P C order now line p)"
| m_eof: "prog_running p \<Longrightarrow> prog_wait p = NoWait \<Longrightarrow> main_step L P C B fs p (main_end p)"
| m_ping: "prog_running p \<Longrightarrow> prog_wait p = PingWait n \<Longrightarrow> PromiseValue n r \<in> set (app_events (prog_node p)) \<Longrightarrow> main_step L P C B fs p (ping_done r p)"
| m_topology: "prog_running p \<Longrightarrow> prog_wait p = TopologyWait n filename \<Longrightarrow> BroadcastValue n rs \<in> set (app_events (prog_node p)) \<Longrightarrow>
    main_step L P C B fs p (topology_done P B fs filename rs p)"
| m_io: "prog_running p \<Longrightarrow> node_step L P C (prog_node p) s \<Longrightarrow> main_step L P C B fs p (on_node (\<lambda>_. s) p)"

section \<open>Accepted configurations\<close>

text \<open>The options the rest of the program is given: the constructors of the transport and of the codecs accept them.\<close>

definition fec_options_ok :: "udp_fec_options \<Rightarrow> bool" where
  "fec_options_ok options \<longleftrightarrow> 1 \<le> unat (data_shards options) \<and> unat (data_shards options) + unat (roots options) \<le> 254 \<and>
     (enabled options \<longrightarrow> roots options \<noteq> 0)"

lemma bind_exit_Inr: "bind_exit r f = Inr y \<longleftrightarrow> (\<exists>x. r = Inr x \<and> f x = Inr y)"
  by (cases r) (simp_all add: bind_exit_def)

lemma throwing_Inr: "throwing r = Inr x \<longleftrightarrow> r = Inr x"
  by (cases r) (simp_all add: throwing_def)

lemma unat_small: "0 \<le> i \<Longrightarrow> i \<le> 255 \<Longrightarrow> unat (of_int i :: u8) = nat i"
  by (simp add: unsigned_of_int take_bit_int_eq_self)

lemma fec_config_ok:
  assumes "fec_config Y fec = Inr options" "optional Y (as_int Y) ''data-shards'' 4 fec = Inr shards" "optional Y (as_int Y) ''roots'' 0 fec = Inr parity"
  shows "fec_options_ok options \<and> uint (data_shards options) = shards \<and> uint (roots options) = parity"
proof -
  have b: "1 \<le> shards" "shards \<le> 253" "0 \<le> parity" "parity \<le> 253" "shards + parity \<le> 254"
    and o: "data_shards options = of_int shards" "roots options = of_int parity" "enabled options \<longrightarrow> roots options \<noteq> 0"
    using assms by (auto simp: fec_config_def bind_exit_Inr default_fec_options_def Let_def split: if_splits)
  have "unat (data_shards options) = nat shards" "unat (roots options) = nat parity" using b o by (simp_all add: unat_small)
  then show ?thesis using b o(3) by (auto simp: fec_options_ok_def uint_nat)
qed

lemma fec_options_accepted:
  "fec_options_ok options \<Longrightarrow> (\<exists>s. MeshNode now uport peer ssl im encrypt options net = Inr s) \<longleftrightarrow> udp_binds net (word_of_int uport) = None"
  by (auto simp: MeshNode_def RpcManager_def UdpTransport_def Let_def fec_options_ok_def word_less_nat_alt split: option.split)

lemma load_config_fec:
  assumes "load_config Y path config = Inr cfg"
  shows "\<exists>fec. yaml_get Y ''udp-fec'' config = Inr fec \<and> (case fec of None \<Rightarrow> Inr default_fec_options | Some fec \<Rightarrow> fec_config Y fec) = Inr (cfg_fec cfg)"
  using assms by (auto simp: load_config_def bind_exit_Inr throwing_Inr)

text \<open>
  C17.  A configuration the program accepts is well typed for the rest of it.  If \<^verbatim>\<open>main\<close> gets past the configuration
  file, the numbers of the \<^verbatim>\<open>udp-fec\<close> section have reached the options unchanged, although they are cast from \<^verbatim>\<open>int\<close> to
  \<^verbatim>\<open>uint8_t\<close>; the node is constructed if and only if its UDP socket could be bound, so no constructor rejects the options; and when the error correction is on, every codec the transport makes
  from them is constructed.
\<close>

theorem accepted_configuration_well_typed:
  assumes "load_config Y path config = Inr cfg"
  shows "((\<exists>s. MeshNode now (cfg_udp_port cfg) (cfg_peer_id cfg) ssl im encrypt (cfg_fec cfg) net = Inr s) = (udp_binds net (word_of_int (cfg_udp_port cfg)) = None)) \<and>
    (enabled (cfg_fec cfg) \<longrightarrow> (\<exists>c. FecCodec (data_shards (cfg_fec cfg)) (roots (cfg_fec cfg)) = Inr c)) \<and>
    (\<forall>fec shards parity. yaml_get Y ''udp-fec'' config = Inr (Some fec) \<and> optional Y (as_int Y) ''data-shards'' 4 fec = Inr shards \<and>
       optional Y (as_int Y) ''roots'' 0 fec = Inr parity \<longrightarrow> uint (data_shards (cfg_fec cfg)) = shards \<and> uint (roots (cfg_fec cfg)) = parity)"
proof -
  obtain fec where f: "yaml_get Y ''udp-fec'' config = Inr fec"
    "(case fec of None \<Rightarrow> Inr default_fec_options | Some fec \<Rightarrow> fec_config Y fec) = Inr (cfg_fec cfg)"
    using load_config_fec [OF assms] by blast
  have ok: "fec_options_ok (cfg_fec cfg)"
  proof (cases fec)
    case (Some y)
    then have c: "fec_config Y y = Inr (cfg_fec cfg)" using f(2) by simp
    then obtain d r where "optional Y (as_int Y) ''data-shards'' 4 y = Inr d" "optional Y (as_int Y) ''roots'' 0 y = Inr r"
      by (auto simp: fec_config_def bind_exit_Inr default_fec_options_def)
    from fec_config_ok [OF c this] show ?thesis ..
  next
    case None
    then have "cfg_fec cfg = default_fec_options" using f(2) by simp
    then show ?thesis by (simp add: fec_options_ok_def default_fec_options_def)
  qed
  then have "\<exists>c. FecCodec (data_shards (cfg_fec cfg)) (roots (cfg_fec cfg)) = Inr c" if "enabled (cfg_fec cfg)"
    using FecCodec_ok [of "data_shards (cfg_fec cfg)" "roots (cfg_fec cfg)"] that by (auto simp: fec_options_ok_def Suc_le_eq unat_gt_0)
  moreover have "uint (data_shards (cfg_fec cfg)) = shards \<and> uint (roots (cfg_fec cfg)) = parity"
    if "yaml_get Y ''udp-fec'' config = Inr (Some y)" "optional Y (as_int Y) ''data-shards'' 4 y = Inr shards" "optional Y (as_int Y) ''roots'' 0 y = Inr parity"
    for y shards parity
  proof -
    have "fec_config Y y = Inr (cfg_fec cfg)" using f that(1) by auto
    from fec_config_ok [OF this that(2,3)] show ?thesis by simp
  qed
  ultimately show ?thesis using fec_options_accepted [OF ok] by blast
qed

text \<open>A configuration as nested tables, for the witness.\<close>

datatype ex_yaml = YInt int | YText string | YTable "(string \<times> ex_yaml) list"

definition ex_yaml_lib :: "ex_yaml yaml_lib" where
  "ex_yaml_lib = \<lparr>yaml_get = (\<lambda>k y. case y of YTable t \<Rightarrow> Inr (map_of t k) | _ \<Rightarrow> Inl ''BadSubscript''),
     as_int = (\<lambda>y. case y of YInt i \<Rightarrow> Inr i | _ \<Rightarrow> Inl ''BadConversion''), as_bool = (\<lambda>y. Inl ''BadConversion''),
     as_string = (\<lambda>y. case y of YText t \<Rightarrow> Inr t | _ \<Rightarrow> Inl ''BadConversion''), yaml_elements = (\<lambda>y. [])\<rparr>"

definition ex_config :: ex_yaml where
  "ex_config = YTable [(''tcp-port'', YInt 5000), (''udp-port'', YInt 5001), (''peer-id'', YText ''a''),
     (''udp-fec'', YTable [(''data-shards'', YInt 200), (''roots'', YInt 54)])]"

theorem accepted_configuration_well_typed_witness:
  "\<exists>cfg. load_config ex_yaml_lib ''/home'' ex_config = Inr cfg \<and> enabled (cfg_fec cfg) \<and> uint (data_shards (cfg_fec cfg)) = 200 \<and>
     (\<exists>c. FecCodec (data_shards (cfg_fec cfg)) (roots (cfg_fec cfg)) = Inr c)"
proof -
  let ?fec = "YTable [(''data-shards'', YInt 200), (''roots'', YInt 54)]"
  have f: "yaml_get ex_yaml_lib ''udp-fec'' ex_config = Inr (Some ?fec)" "optional ex_yaml_lib (as_int ex_yaml_lib) ''data-shards'' 4 ?fec = Inr 200"
    "optional ex_yaml_lib (as_int ex_yaml_lib) ''roots'' 0 ?fec = Inr 54"
    by (simp_all add: ex_yaml_lib_def ex_config_def optional_def bind_exit_def throwing_def)
  have "\<exists>cfg. load_config ex_yaml_lib ''/home'' ex_config = Inr cfg \<and> enabled (cfg_fec cfg)"
    by (simp add: load_config_def required_def optional_def bind_exit_def throwing_def tls_config_def fec_config_def ex_yaml_lib_def ex_config_def
        Let_def default_fec_options_def)
  then obtain cfg where "load_config ex_yaml_lib ''/home'' ex_config = Inr cfg" "enabled (cfg_fec cfg)" by blast
  with accepted_configuration_well_typed [OF this(1)] f show ?thesis by blast
qed

section \<open>Runs of the program\<close>

text \<open>The node of a running program only does steps of a node: what holds of all histories of nodes holds of the program.\<close>

lemma printed_node [simp]: "prog_node (print_line t p) = prog_node p" "prog_node (fold print_line ts p) = prog_node p"
proof -
  show "prog_node (print_line t p) = prog_node p" for t p by (simp add: print_line_def)
  then show "prog_node (fold print_line ts p) = prog_node p" by (induction ts arbitrary: p) simp_all
qed

lemma command_node:
  "node_step L P C (prog_node p) (prog_node (on_node (node_connect host port) p))"
  "node_step L P C (prog_node p) (prog_node (on_node (send_text L now dest text) p))"
  "node_step L P C (prog_node p) (topology_begin L P now n (prog_node p))"
  "node_step L P C (prog_node p) (ping_begin L P C now dest n (prog_node p))"
  "node_step L P C (prog_node p) (prog_node (on_node (set_block_all_messages b) p))"
  "node_step L P C (prog_node p) (prog_node (main_end p))"
  by (simp_all add: on_node_def node_connect_def topology_begin_def ping_begin_def send_request_def main_end_def node_stop_def)
     (rule n_transport n_text n_broadcast_request n_request n_block)+

lemma run_command_node:
  "prog_node (run_command L P C order now cmd args p) = prog_node p \<or> node_step L P C (prog_node p) (prog_node (run_command L P C order now cmd args p))"
proof -
  note s = command_node [of L P C p]
  have "prog_node (cmd_connect args p) = prog_node p \<or> node_step L P C (prog_node p) (prog_node (cmd_connect args p))"
    using s(1) by (cases "parse_connect_args args") (auto simp: cmd_connect_def)
  moreover have "prog_node (cmd_dm L now args p) = prog_node p \<or> node_step L P C (prog_node p) (prog_node (cmd_dm L now args p))"
    using s(2) by (simp add: cmd_dm_def)
  moreover have "prog_node (cmd_topology L P now args p) = prog_node p \<or> node_step L P C (prog_node p) (prog_node (cmd_topology L P now args p))"
    using s(3) by (simp add: cmd_topology_def on_node_def)
  moreover have "prog_node (cmd_ping L P C now args p) = prog_node p \<or> node_step L P C (prog_node p) (prog_node (cmd_ping L P C now args p))"
    using s(4) by (simp add: cmd_ping_def on_node_def)
  ultimately show ?thesis using s(5) by (simp add: run_command_def cmd_get_nodes_def cmd_help_def Let_def)
qed

lemma main_step_node: "main_step L P C B fs p p' \<Longrightarrow> prog_node p' = prog_node p \<or> node_step L P C (prog_node p) (prog_node p')"
proof (induction rule: main_step.induct)
  case (m_line p order now line)
  show ?case using run_command_node [of L P C order now _ _ p] command_node(6) [of L P C p] by (simp add: run_line_def split: list.split)
next
  case (m_eof p)
  show ?case using command_node(6) by blast
qed (simp_all add: on_node_def ping_done_def topology_done_def split: sum.split option.split)

lemma main_run_node: "(main_step L P C B fs)\<^sup>*\<^sup>* p p' \<Longrightarrow> (node_step L P C)\<^sup>*\<^sup>* (prog_node p) (prog_node p')"
proof (induction rule: rtranclp_induct)
  case (step p' p'')
  then show ?case using main_step_node [OF step(2)] by (auto intro: rtranclp.rtrancl_into_rtrancl)
qed simp

lemma auto_connect_node: "auto_connect Y es s = Inr s' \<Longrightarrow> (node_step L P C)\<^sup>*\<^sup>* s s'"
proof (induction es arbitrary: s)
  case (Cons e es)
  have "node_step L P C s (node_add_auto_connection a port s)" for a port unfolding node_add_auto_connection_def by (rule n_transport)
  then have "(node_step L P C)\<^sup>*\<^sup>* s s'" if "auto_connect Y es (node_add_auto_connection a port s) = Inr s'" for a port
    using Cons.IH [OF that] by (rule converse_rtranclp_into_rtranclp)
  then show ?case using Cons.prems Cons.IH [of s] by (auto simp: bind_exit_Inr split: option.splits)
qed simp

lemma build_node_started:
  assumes "build_node C files make_ssl net now cfg = Inr s"
  shows "\<exists>ssl im s0. MeshNode now (cfg_udp_port cfg) (cfg_peer_id cfg) ssl im (tls_encrypt (cfg_tls cfg)) (cfg_fec cfg) net = Inr s0 \<and> (node_step L P C')\<^sup>*\<^sup>* s0 s"
proof -
  obtain ssl im s0 where s: "MeshNode now (cfg_udp_port cfg) (cfg_peer_id cfg) ssl im (tls_encrypt (cfg_tls cfg)) (cfg_fec cfg) net = Inr s0"
    "s = node_start (set_output_directory (cfg_output_dir cfg) s0)"
    using assms by (auto simp: build_node_def bind_exit_Inr throwing_Inr Let_def)
  have "(node_step L P C')\<^sup>*\<^sup>* s0 s" unfolding s(2) by (meson n_directory n_start r_into_rtranclp rtranclp.rtrancl_into_rtrancl)
  with s(1) show ?thesis by blast
qed

text \<open>
  The program as a whole: started from a configuration that asks for it, it sends no message of its own to a peer in the
  clear, whatever the user types and whatever the network does.
\<close>

lemma program_keeps_messages_encrypted:
  assumes "load_config Y path config = Inr cfg" "tls_encrypt (cfg_tls cfg)" "main_start Y C files make_ssl net path now (Some (Inr config)) = Inr s"
    and "(main_step L P C B fs)\<^sup>*\<^sup>* (new_program s) p"
  shows "list_all (covered L (cfg_peer_id cfg)) (calls (prog_node p))"
proof -
  obtain s1 where s1: "build_node C files make_ssl net now cfg = Inr s1" "(node_step L P C)\<^sup>*\<^sup>* s1 s"
    using assms(1,3) auto_connect_node [where L = L and P = P and C = C]
    by (auto simp: main_start_def bind_exit_def throwing_def split: sum.splits option.splits)
  obtain ssl im s0 where s0: "MeshNode now (cfg_udp_port cfg) (cfg_peer_id cfg) ssl im True (cfg_fec cfg) net = Inr s0" "(node_step L P C)\<^sup>*\<^sup>* s0 s1"
    using build_node_started [OF s1(1), of L P C] assms(2) by auto
  have "(node_step L P C)\<^sup>*\<^sup>* s (prog_node p)" using main_run_node [OF assms(4)] by (simp add: new_program_def)
  with s0(2) s1(2) have "(node_step L P C)\<^sup>*\<^sup>* s0 (prog_node p)" by (meson rtranclp_trans)
  from node_history_sealed [OF this] new_node_fields [OF s0(1)] show ?thesis by simp
qed

end
