(* ===== verification/Async_Writer.thy ===== *)
theory Async_Writer
  imports Mesh_Prelude
begin

text \<open>
  \<^verbatim>\<open>AsyncWriteQueue\<close> of \<^verbatim>\<open>utils/AsyncWriter.h\<close>, a write queue the sessions include but have replaced by their own outbox.
  Its handlers run on one strand, so each is an atomic step.  \<open>in_write\<close> is the buffer of the write that is outstanding.
\<close>

record write_queue =
  wq_queue :: "bytes list"
  write_in_progress :: bool
  in_write :: "bytes option"
  wq_written :: "bytes list"

definition AsyncWriteQueue :: write_queue where
  "AsyncWriteQueue = \<lparr>wq_queue = [], write_in_progress = False, in_write = None, wq_written = []\<rparr>"

definition wq_do_write :: "write_queue \<Rightarrow> write_queue" where
  "wq_do_write q = q\<lparr>in_write := Some (hd (wq_queue q))\<rparr>"

definition wq_write :: "bytes \<Rightarrow> write_queue \<Rightarrow> write_queue" where
  "wq_write buffer q =
     (let q = q\<lparr>wq_queue := wq_queue q @ [buffer]\<rparr>
      in if \<not> write_in_progress q then wq_do_write (q\<lparr>write_in_progress := True\<rparr>) else q)"

definition wq_cancel :: "write_queue \<Rightarrow> write_queue" where
  "wq_cancel q = q\<lparr>wq_queue := []\<rparr>"

text \<open>The completion of the outstanding write.\<close>

definition wq_complete :: "bool \<Rightarrow> write_queue \<Rightarrow> write_queue" where
  "wq_complete ec q =
     (let q = q\<lparr>in_write := None, wq_written := wq_written q @ (case in_write q of None \<Rightarrow> [] | Some b \<Rightarrow> if ec then [] else [b])\<rparr> in
      if ec then q\<lparr>wq_queue := [], write_in_progress := False\<rparr>
      else if wq_queue q = [] then q\<lparr>write_in_progress := False\<rparr>
      else let q = q\<lparr>wq_queue := tl (wq_queue q)\<rparr>
           in if wq_queue q \<noteq> [] then wq_do_write q else q\<lparr>write_in_progress := False\<rparr>)"

datatype wq_event = WqWrite bytes | WqComplete

fun wq_step :: "wq_event \<Rightarrow> write_queue \<Rightarrow> write_queue" where
  "wq_step (WqWrite b) q = wq_write b q"
| "wq_step WqComplete q = (if in_write q = None then q else wq_complete False q)"

text \<open>Without \<^verbatim>\<open>cancel\<close> and errors nothing is lost, duplicated or reordered.\<close>

definition wq_ok :: "write_queue \<Rightarrow> bool" where
  "wq_ok q \<longleftrightarrow> (write_in_progress q \<longleftrightarrow> wq_queue q \<noteq> []) \<and> in_write q = (if wq_queue q = [] then None else Some (hd (wq_queue q)))"

fun wq_buffers :: "wq_event list \<Rightarrow> bytes list" where
  "wq_buffers [] = []"
| "wq_buffers (WqWrite b # es) = b # wq_buffers es"
| "wq_buffers (WqComplete # es) = wq_buffers es"

lemma wq_step_ok:
  assumes "wq_ok q"
  shows "wq_ok (wq_step e q)" "wq_written (wq_step e q) @ wq_queue (wq_step e q) = (wq_written q @ wq_queue q) @ wq_buffers [e]"
  using assms by (cases e; cases "wq_queue q"; auto simp: wq_ok_def wq_write_def wq_complete_def wq_do_write_def Let_def)+

lemma wq_run_ok: "wq_ok q \<Longrightarrow> wq_ok (fold wq_step es q) \<and> wq_written (fold wq_step es q) @ wq_queue (fold wq_step es q) = (wq_written q @ wq_queue q) @ wq_buffers es"
proof (induction es arbitrary: q)
  case (Cons e es)
  then show ?case using wq_step_ok [OF Cons.prems, of e] Cons.IH [of "wq_step e q"] by (cases e) simp_all
qed simp

lemma write_queue_keeps_order: "wq_written (fold wq_step es AsyncWriteQueue) @ wq_queue (fold wq_step es AsyncWriteQueue) = wq_buffers es"
  using wq_run_ok [of AsyncWriteQueue es] by (simp add: wq_ok_def AsyncWriteQueue_def)

text \<open>After a \<^verbatim>\<open>cancel\<close> during a write, the buffer that is queued next is dropped by the completion of that write.\<close>

lemma cancel_drops_next_buffer:
  "wq_complete False (wq_write b (wq_cancel (wq_write a AsyncWriteQueue))) = \<lparr>wq_queue = [], write_in_progress = False, in_write = None, wq_written = [a]\<rparr>"
  by (simp add: AsyncWriteQueue_def wq_write_def wq_cancel_def wq_complete_def wq_do_write_def)

end
