(* ===== verification/Spec2Isabelle.thy ===== *)
theory Spec2Isabelle
  imports Fec_Theorems Router_Theorems Session Request_Tracker Packet_Security Udp_Transport Rpc_Manager_Theorems Node_Exchange
    Router_Network Mesh_Main Stream_Session Async_Writer
begin

text \<open>
  A verification development for the mesh network program: a C++ program whose instances (nodes) connect over TCP or TLS, learn
  routes to each other with a distance vector protocol, exchange requests and messages over several hops, encrypt
  them end to end, and send packets over UDP with forward error correction.

  \<^bold>\<open>The parts and how they interact.\<close>  \<^verbatim>\<open>main.cpp\<close> reads a configuration, makes a \<^verbatim>\<open>MeshNode\<close> and runs the commands of the
  user.  The node (\<^verbatim>\<open>src/mesh/node\<close>) turns requests and messages into routed packets, secures them
  (\<^verbatim>\<open>src/mesh/crypto\<close>), remembers what it waits for (\<^verbatim>\<open>utils/AsyncRequestTracker.h\<close>) and gives them to the router
  (\<^verbatim>\<open>src/mesh/routing\<close>).  The router decides on the next hops and sends through the transport, the \<^verbatim>\<open>RpcManager\<close>
  (\<^verbatim>\<open>src/mesh/rpc\<close>), which owns one \<^verbatim>\<open>RpcConnection\<close> with one session (\<^verbatim>\<open>src/mesh/net\<close>) for each neighbour and one UDP
  transport with the codec (\<^verbatim>\<open>src/mesh/net/udp\<close>).  What arrives goes the other way: session or UDP transport, connection,
  manager, the event queue of the router, the packet callback of the node, its handlers.

  \<^bold>\<open>How code becomes definitions.\<close>  A class is a record with its fields; a method is one function from the state to the new state,
  with what it returns, throws, calls or sends as values.  \<^verbatim>\<open>std::unordered_map\<close> is an association list with unique
  keys, \<^verbatim>\<open>uint8_t\<close>, \<^verbatim>\<open>uint16_t\<close>, \<^verbatim>\<open>uint32_t\<close> are words, \<^verbatim>\<open>std::string\<close> is \<open>string\<close> for text and \<open>bytes\<close> for binary data, time is
  milliseconds.  Exceptions, error codes and reads outside a buffer are values of error types.  Asynchronous operations of
  Boost.Asio are cut at their completion: the call records what is outstanding, and the handler is a separate
  function applied when it completes; timers are in \<open>Async_Timers\<close>.  A method that blocks on a future is two definitions, before and
  after the wait.  Locked regions and handlers on one strand are atomic steps, and threads are interleavings of such steps in inductive
  relations (\<open>tracker_step\<close>, \<open>conn_step\<close>, \<open>mgr_step\<close>, \<open>node_step\<close>, \<open>session_step\<close>, \<open>main_step\<close>).

  \<^bold>\<open>Parameters.\<close>  Code outside the repository is an argument: \<open>mesh_lib\<close> (protobuf formats of packets, envelopes and handshakes, the
  uuid generator), \<open>app_lib\<close> (the other message types and the handlers of users), \<open>crypto_lib\<close> (OpenSSL), \<open>yaml_lib\<close>,
  \<open>graph_lib\<close> (the Boost graph).  What the properties rely on are the predicates \<open>envelope_law\<close>, \<open>handshake_law\<close>, \<open>packet_law\<close>,
  \<open>cbc_inverse\<close>, \<open>cipher_works\<close>, \<open>rand_fills\<close>, \<open>key_pair\<close>, \<open>working_pair\<close>, \<open>ping_law\<close> and \<open>graph_law\<close>: parsing undoes serialising,
  decryption undoes encryption and verification accepts signatures for the keys of a pair, OpenSSL does not fail on an AES key for RSA and on messages within the
  range of an \<^verbatim>\<open>int\<close>, a graph holds the vertices and the edges between different vertices that were added.  The operating system is an argument too: \<open>sockets\<close> (binding and listening), \<open>file_system\<close>.  \<open>Example_Lib\<close>, \<open>ex_crypto\<close>, \<open>ex_app\<close>,
  \<open>ex_yaml_lib\<close> and \<open>ex_graph\<close> are instances that satisfy them.

  \<^bold>\<open>Theories.\<close>
  \<^item> \<open>Mesh_Prelude\<close>: types, byte order conversions, association lists.
  \<^item> \<open>Gf256\<close>, \<open>Fec_Codec\<close>: \<^verbatim>\<open>FecCodec.cpp\<close>, every method.  \<open>Cauchy_Solve\<close>, \<open>Fec_Correct\<close>, \<open>Fec_Receive\<close>, \<open>Fec_Delivery\<close>, \<open>Fec_Robust\<close>, \<open>Fec_Theorems\<close>: the tables compute the
    field with 256 elements; elimination solves every Cauchy system; any \<open>k\<close> frames of a group give back its payloads; no datagram
    makes the decoder fail and its memory is bounded; which calls fail.
  \<^item> \<open>Text_Utils\<close>, \<open>Dedup_Set\<close>, \<open>Thread_Queue\<close>, \<open>Async_Writer\<close>: \<^verbatim>\<open>src/mesh/utils\<close>.  Locales \<open>seen_set\<close> and \<open>fifo\<close> are what the router relies on; the queue refines a plain list of values for every sequence of operations.
  \<^item> \<open>Packets\<close>: the messages of \<^verbatim>\<open>src/proto\<close> and their constructors in \<^verbatim>\<open>src/mesh/proto_types\<close>.
  \<^item> \<open>Router\<close>: \<^verbatim>\<open>MeshRouter.cpp\<close>, every operation and the processing loop as \<open>processing_round\<close>.  \<open>Router_Table\<close>, \<open>Router_Invariant\<close>, \<open>Router_Theorems\<close>: the
    table always holds best routes for what the neighbours have told; poison reverse excludes loops of two routers; forwarding, duplicates
    (in histories of up to 30 seconds), hop counts (along the way over several routers), expiry and updates.  \<open>Router_Network\<close>: several routers together; when they are in step, a packet arrives after as many hops as its route costs.
  \<^item> \<open>Session\<close>, \<open>Stream_Session\<close>: \<^verbatim>\<open>Session.cpp\<close> and \<^verbatim>\<open>Stream.cpp\<close>.  Framing survives any cutting of the stream, the outbox keeps order, reading waits for the
    handshake.  The locale \<open>stream_layer\<close> is the interface of the streams.
  \<^item> \<open>Async_Timers\<close>: timers, histories and the locale \<open>completions\<close>: what is started ends exactly once.  Its interpretations are
    \<open>tracker\<close> (requests, in \<open>Request_Tracker\<close>), \<open>conn\<close> (futures of a connection, in \<open>Rpc_Connection\<close>) and \<open>manager\<close> (connect attempts, in \<open>Rpc_Manager_Theorems\<close>).
  \<^item> \<open>Crypto\<close>, \<open>Packet_Security\<close>: \<^verbatim>\<open>src/mesh/crypto\<close>, and that a secured packet opens at its destination.
  \<^item> \<open>Udp_Transport\<close>: \<^verbatim>\<open>UdpTransport.cpp\<close>, over the locale \<open>keyed_table\<close> for its tables of codecs, refines one codec for each destination and one for each source and configuration, for any mix of sending and receiving, so the properties of the codec hold for each stream.
  \<^item> \<open>Rpc_Connection\<close>, \<open>Rpc_Manager\<close>, \<open>Rpc_Manager_Inv\<close>, \<open>Rpc_Manager_Theorems\<close>: \<^verbatim>\<open>src/mesh/rpc\<close>.  The handshake (its run between two connections is described without TLS only, as the code writes before the TLS handshake is over), the tables of connections, connect attempts and heartbeats.
  \<^item> \<open>Mesh_Node\<close>: \<^verbatim>\<open>MeshNode.h\<close> and \<^verbatim>\<open>MeshNode.cpp\<close>.  \<open>Mesh_Node_Inv\<close>, \<open>Mesh_Node_Theorems\<close>: the locales \<open>node_relation\<close> and \<open>round_relation\<close> carry a relation from the
    elementary updates to all operations; their interpretations give the contract the router needs of the packet callback, the
    confidentiality of what a node sends and the termination of packet handling.  \<open>Node_Exchange\<close>: a ping between two nodes and a message that waits for a key, from end to end.
  \<^item> \<open>Topology_Graph\<close>: \<^verbatim>\<open>GraphManager.cpp\<close> and the topology command.  \<open>Mesh_Main\<close>: \<^verbatim>\<open>main.cpp\<close>, and that every run of the program is a run of its node.
  \<^item> This theory: facts that span components: routing updates on a session, and the callback of a node as a callback of the routers of \<open>Router_Network\<close> and of \<open>Router_Theorems\<close>.

  \<^bold>\<open>Bounds and fuel.\<close>  All loops of the code are structural recursion, folds, or functions with a termination proof.  Only \<open>handle_incoming_packet\<close> takes a bound, on the depth at which
  it calls itself for packets that waited for a key; \<open>incoming_packet_handled\<close> shows that depth 2, which \<open>node_callback\<close> uses, is enough in every reachable state.
  Sizes are kept where the code has them: 8 and 16 bit counters of the codec, 32 bit costs, hop counts and lengths.

  \<^bold>\<open>Not modelled.\<close>
  \<^item> \<^verbatim>\<open>Logger\<close> and the periodic dump \<^verbatim>\<open>print_routing_table\<close>: output that nothing reads back.
  \<^item> \<^verbatim>\<open>make_ssl_context\<close>: it only sets options of a Boost.Asio object; \<open>build_node\<close> takes its outcome as an argument.
  \<^item> \<^verbatim>\<open>track_request\<close> and \<^verbatim>\<open>fail_request\<close> of the request tracker: templates without a caller that do not compile when instantiated.
  \<^item> \<^verbatim>\<open>MakeRoutingTableRoutedPacket\<close> from a \<^verbatim>\<open>std::map\<close>: no caller, and it gives protobuf a pointer to a local variable to own.
  \<^item> Data races and the memory model: locked regions are atomic.  The outcome of a TLS handshake is a free choice of the steps of a session.
  \<^item> The code protobuf generates, the build files, the script for certificates and the tests.
\<close>

section \<open>Routing updates on the wire\<close>

text \<open>
  The envelope of a routing update has no message id, and the session copies 16 bytes of the id into the frame without looking at
  its length: framing a routing update reads past the end of the id.
\<close>

lemma routing_update_has_no_id:
  assumes "has_transport s" "length (envelope_bytes L env) \<le> 2 ^ 32 - 1" "SendTcp nb env = last (calls (send_update L hops nb costs s))"
  shows "frame_message (msg_id env) (envelope_bytes L env) = Inl ReadPastEnd"
proof -
  have "msg_id env = []" using assms(1,3) by (simp add: send_update_def draw_uuid_def Let_def call_def default_envelope_def)
  then show ?thesis using assms(2) by (simp add: frame_message_def)
qed

section \<open>Nodes in a network\<close>

text \<open>
  The packet callback of a node only adds calls: what \<open>Router_Network\<close> shows of the packets that travel between routers holds for the routers
  of nodes.
\<close>

interpretation node_adds: node_relation L "\<lambda>s s'. \<exists>cs. calls s' = calls s @ cs" "\<lambda>s pkt. True" for L
proof
  fix s :: mesh_node and pkt now
  show "\<exists>cs. calls (node_send_packet L now pkt s) = calls s @ cs" using node_send_calls by blast
qed (auto simp: draw_uuid_def)

lemma node_callback_only_adds: "only_adds (node_callback L P C now)"
  unfolding only_adds_def using node_adds.R_callback by blast

text \<open>The callback of a node leaves the entries of the router's duplicate filter in place, as the properties of transit packets ask of it.\<close>

interpretation node_remembers: node_relation L "\<lambda>s s'. \<forall>now. remembers now s s'" "\<lambda>s pkt. True" for L
proof
  fix s t u :: mesh_node assume "\<forall>now. remembers now s t" "\<forall>now. remembers now t u"
  then show "\<forall>now. remembers now s u" using remembers_trans by blast
next
  fix s :: mesh_node and pkt t
  show "\<forall>now. remembers now s (node_send_packet L t pkt s)"
    unfolding node_send_packet_def send_packet_def by (simp add: route_data_packet_remembers cb_remembers_def)
qed (auto simp: draw_uuid_def intro!: remembers_same)

lemma node_callback_remembers: "cb_remembers (Some (node_callback L P C now))"
  unfolding cb_remembers_def using node_remembers.R_callback by blast

end
